(* ===== verification/Prelude.thy ===== *)
theory Prelude
  imports
    "HOL-Library.Word"
    "HOL-Library.AList"
    "HOL-Library.Product_Lexorder"
    "HOL-Library.List_Lexorder"
    "HOL-Library.Char_ord"
begin

text \<open>
  Shared vocabulary of the development: the machine integers of the Rust sources, the
  saturating operations of its standard library, ordered association lists standing for
  \<open>BTreeMap\<close>, association lists standing for \<open>HashMap\<close>, and decimal and radix
  texts of unsigned integers.

  A \<open>HashMap\<close> is a list of pairs with distinct keys. Its order is the order an iteration
  visits the entries in; the sources give no order, and every lemma is stated for a list in
  any order.
\<close>

section \<open>Types\<close>

type_synonym u8 = "8 word"
type_synonym u16 = "16 word"
type_synonym u32 = "32 word"
type_synonym u64 = "64 word"
type_synonym u256 = "256 word"
type_synonym bytes = "u8 list"
type_synonym address = "160 word"
type_synonym entity_key = "256 word"

text \<open>
  A \<open>Duration\<close> is its nanoseconds, an \<open>Instant\<close> the nanoseconds of a monotonic clock.
\<close>

type_synonym duration = nat
type_synonym instant = nat

named_theorems frame_simps \<open>what an operation leaves as it was\<close>
named_theorems step_intros \<open>invariants kept by an operation\<close>

abbreviation u64_max :: u64 where
  "u64_max \<equiv> - 1"

definition i64_max :: int where
  "i64_max = 2 ^ 63 - 1"

definition i64_min :: int where
  "i64_min = - (2 ^ 63)"

section \<open>Durations\<close>

abbreviation nanos_per_sec :: nat where
  "nanos_per_sec \<equiv> 1000000000"

definition secs :: "nat \<Rightarrow> duration" where
  "secs n = n * nanos_per_sec"

definition as_secs :: "duration \<Rightarrow> u64" where
  "as_secs d = word_of_nat (d div nanos_per_sec)"

definition subsec_nanos :: "duration \<Rightarrow> nat" where
  "subsec_nanos d = d mod nanos_per_sec"

definition as_millis :: "duration \<Rightarrow> nat" where
  "as_millis d = d div 1000000"

definition duration_max :: duration where
  "duration_max = (2 ^ 64 - 1) * nanos_per_sec + (nanos_per_sec - 1)"

definition duration_saturating_mul :: "duration \<Rightarrow> nat \<Rightarrow> duration" where
  "duration_saturating_mul d n = min (d * n) duration_max"

section \<open>Saturating arithmetic\<close>

definition sat_add :: "'a::len word \<Rightarrow> 'a word \<Rightarrow> 'a word" where
  "sat_add a b = (if unat a + unat b < 2 ^ LENGTH('a) then a + b else - 1)"

definition sat_sub :: "'a::len word \<Rightarrow> 'a word \<Rightarrow> 'a word" where
  "sat_sub a b = (if b \<le> a then a - b else 0)"

lemma unat_sat_add: "unat (sat_add a (b :: 'a::len word)) = min (unat a + unat b) (2 ^ LENGTH('a) - 1)"
proof (cases "unat a + unat b < 2 ^ LENGTH('a)")
  case True
  then have "unat a + unat b \<le> 2 ^ LENGTH('a) - 1" by simp
  with True show ?thesis by (simp add: sat_add_def unat_word_ariths)
next
  case False
  then have "2 ^ LENGTH('a) - 1 \<le> unat a + unat b" by linarith
  with False show ?thesis by (simp add: sat_add_def unsigned_minus_1_eq_mask mask_eq_exp_minus_1)
qed

lemma unat_bound: "unat (w :: 'a::len word) < 2 ^ LENGTH('a)"
  by (rule unsigned_less)

lemma unat_sat_sub: "unat (sat_sub a b) = unat a - unat b"
  by (simp add: sat_sub_def unat_sub word_le_nat_alt)

lemma unat_add_no_wrap:
  fixes a b :: "'a::len word"
  assumes "unat a + unat b < 2 ^ LENGTH('a)"
  shows "unat (a + b) = unat a + unat b"
  using assms by (simp add: unat_word_ariths)

lemma unat_Suc_no_wrap:
  fixes a :: "'a::len word"
  assumes "Suc (unat a) < 2 ^ LENGTH('a)"
  shows "unat (a + 1) = Suc (unat a)"
proof (cases "LENGTH('a) = 1")
  case True
  with assms have "unat a = 0" by simp
  with True assms show ?thesis by (simp add: unat_word_ariths)
next
  case False
  then have "1 < LENGTH('a)" using len_gt_0 [where ?'a = 'a] by linarith
  then have "(1::nat) < 2 ^ LENGTH('a)" by (intro one_less_power) simp_all
  with assms show ?thesis by (simp add: unat_word_ariths)
qed

lemma add_sat_sub_cancel [simp]: "sat_sub (a + b) a = b" if "unat a + unat b < 2 ^ LENGTH('a)"
  for a b :: "'a::len word"
proof -
  have "a \<le> a + b" using that by (simp add: word_le_nat_alt unat_word_ariths)
  then show ?thesis by (simp add: sat_sub_def)
qed

section \<open>Association lists\<close>

text \<open>\<open>HashMap\<close> keys are distinct; \<open>get_mut\<close> followed by an assignment is an in-place map.\<close>

definition al_modify :: "'k \<Rightarrow> ('v \<Rightarrow> 'v) \<Rightarrow> ('k \<times> 'v) list \<Rightarrow> ('k \<times> 'v) list" where
  "al_modify k f m = map (\<lambda>(k', v). (k', if k' = k then f v else v)) m"

lemma keys_al_modify [simp]: "map fst (al_modify k f m) = map fst m"
  by (induction m) (auto simp: al_modify_def)

lemma map_of_al_modify: "map_of (al_modify k f m) k' = (if k' = k then map_option f (map_of m k') else map_of m k')"
  by (induction m) (auto simp: al_modify_def)

lemma length_al_modify [simp]: "length (al_modify k f m) = length m"
  by (simp add: al_modify_def)

lemma al_modify_notin: "k \<notin> fst ` set m \<Longrightarrow> al_modify k f m = m"
  by (induction m) (auto simp: al_modify_def)

lemma delete_eq_filter: "AList.delete k m = filter (\<lambda>p. fst p \<noteq> k) m"
  by (induction m) auto

lemma update_new: "k \<notin> fst ` set m \<Longrightarrow> AList.update k v m = m @ [(k, v)]"
  by (induction m) auto

section \<open>Ordered maps\<close>

text \<open>A \<open>BTreeMap\<close> is the list of its entries in key order.\<close>

fun bt_insert :: "'k::linorder \<Rightarrow> 'v \<Rightarrow> ('k \<times> 'v) list \<Rightarrow> ('k \<times> 'v) list" where
  "bt_insert k v [] = [(k, v)]"
| "bt_insert k v ((k', v') # m) =
     (if k < k' then (k, v) # (k', v') # m
      else if k = k' then (k, v) # m
      else (k', v') # bt_insert k v m)"

definition bt_collect :: "('k::linorder \<times> 'v) list \<Rightarrow> ('k \<times> 'v) list" where
  "bt_collect kvs = foldl (\<lambda>m (k, v). bt_insert k v m) [] kvs"

abbreviation bt_wf :: "('k::linorder \<times> 'v) list \<Rightarrow> bool" where
  "bt_wf m \<equiv> sorted_wrt (<) (map fst m)"

lemma map_of_bt_insert [simp]: "map_of (bt_insert k v m) = (map_of m)(k \<mapsto> v)"
  by (induction m rule: bt_insert.induct[of "\<lambda>k v m. map_of (bt_insert k v m) = (map_of m)(k \<mapsto> v)" k v]) auto

lemma keys_bt_insert [simp]: "fst ` set (bt_insert k v m) = insert k (fst ` set m)"
  by (induction k v m rule: bt_insert.induct) auto

lemma bt_wf_insert [intro]: "bt_wf m \<Longrightarrow> bt_wf (bt_insert k v m)"
proof (induction k v m rule: bt_insert.induct)
  case (2 k v k' v' m)
  then have "\<forall>x \<in> fst ` set (bt_insert k v m). k' < x" if "k' < k"
    using that by auto
  with 2 show ?case by (auto simp: not_less_iff_gr_or_eq)
qed simp

lemma bt_wf_distinct: "bt_wf m \<Longrightarrow> distinct (map fst m)"
  by (simp add: strict_sorted_iff)

lemma bt_insert_last: "\<forall>x \<in> fst ` set m. x < k \<Longrightarrow> bt_insert k v m = m @ [(k, v)]"
  by (induction m) auto

lemma bt_insert_idem: "bt_wf m \<Longrightarrow> map_of m k = Some v \<Longrightarrow> bt_insert k v m = m"
proof (induction m)
  case (Cons p m)
  obtain k' v' where p: "p = (k', v')" by fastforce
  show ?case
  proof (cases "k' = k")
    case False
    with Cons.prems p have "k \<in> fst ` set m" by (auto dest: map_of_SomeD intro: rev_image_eqI)
    with Cons.prems p have "k' < k" by auto
    with Cons p False show ?thesis by auto
  qed (use Cons.prems p in auto)
qed simp

text \<open>Collecting the entries of an ordered map gives it back.\<close>

lemma bt_collect_append: "foldl (\<lambda>m (k, v). bt_insert k v m) acc m = acc @ m"
  if "bt_wf (acc @ m)" for m acc :: "('k::linorder \<times> 'v) list"
  using that
proof (induction m arbitrary: acc)
  case (Cons p m)
  obtain k v where p: "p = (k, v)" by fastforce
  from Cons.prems p have "\<forall>x \<in> fst ` set acc. x < k" by (auto simp: sorted_wrt_append)
  then have "bt_insert k v acc = acc @ [(k, v)]" by (rule bt_insert_last)
  with Cons.IH [of "acc @ [p]"] Cons.prems p show ?case by simp
qed simp

lemma bt_collect_id: "bt_wf m \<Longrightarrow> bt_collect m = m"
  by (simp add: bt_collect_def bt_collect_append [of "[]"])

lemma bt_wf_collect: "bt_wf (bt_collect kvs)"
proof -
  have "bt_wf acc \<Longrightarrow> bt_wf (foldl (\<lambda>m (k, v). bt_insert k v m) acc kvs)" for acc
    by (induction kvs arbitrary: acc) (auto simp: case_prod_beta)
  then show ?thesis by (simp add: bt_collect_def)
qed

lemma bt_wf_filter: "bt_wf m \<Longrightarrow> bt_wf (filter P m)"
  by (induction m) auto

lemma option_eqI: "(\<And>k. x = Some k \<longleftrightarrow> y = Some k) \<Longrightarrow> x = y"
  by (cases x; cases y) auto

section \<open>Results\<close>

text \<open>
  A \<open>Result\<close> is a sum, \<open>Inl\<close> the error; \<open>rbind\<close> is the question mark operator, and
  \<open>each_ok\<close> a loop whose body may return an error.
\<close>

fun rbind :: "'e + 'a \<Rightarrow> ('a \<Rightarrow> 'e + 'b) \<Rightarrow> 'e + 'b" where
  "rbind (Inl e) f = Inl e"
| "rbind (Inr x) f = f x"

fun map_err :: "('e \<Rightarrow> 'f) \<Rightarrow> 'e + 'a \<Rightarrow> 'f + 'a" where
  "map_err f (Inl e) = Inl (f e)"
| "map_err f (Inr x) = Inr x"

fun ok_or :: "'e \<Rightarrow> 'a option \<Rightarrow> 'e + 'a" where
  "ok_or e None = Inl e"
| "ok_or e (Some x) = Inr x"

fun each_ok :: "('a \<Rightarrow> 'e + unit) \<Rightarrow> 'a list \<Rightarrow> 'e + unit" where
  "each_ok f [] = Inr ()"
| "each_ok f (x # xs) = rbind (f x) (\<lambda>_. each_ok f xs)"

lemma rbind_Inr_iff: "rbind r f = Inr y \<longleftrightarrow> (\<exists>x. r = Inr x \<and> f x = Inr y)"
  by (cases r) auto

lemma rbind_unit_iff: "rbind r (\<lambda>_. s) = Inr y \<longleftrightarrow> r = Inr () \<and> s = Inr y" for r :: "'e + unit"
  by (cases r) auto

lemma each_ok_iff: "each_ok f xs = Inr u \<longleftrightarrow> (\<forall>x \<in> set xs. f x = Inr ())"
  by (induction xs) (auto simp: rbind_Inr_iff)

lemma map_err_Inr_iff: "map_err f r = Inr y \<longleftrightarrow> r = Inr y"
  by (cases r) auto

lemma ok_or_Inr_iff: "ok_or e x = Inr y \<longleftrightarrow> x = Some y"
  by (cases x) auto

lemmas result_simps = rbind_Inr_iff rbind_unit_iff each_ok_iff map_err_Inr_iff ok_or_Inr_iff

text \<open>
  An operation that awaits: it takes the world and returns it as it finds it afterwards, with
  its result. \<open>sbind\<close> is the question mark operator of such operations, \<open>serr\<close> their \<open>map_err\<close>.
\<close>

fun sbind :: "'w \<times> ('e + 'a) \<Rightarrow> ('w \<Rightarrow> 'a \<Rightarrow> 'w \<times> ('e + 'b)) \<Rightarrow> 'w \<times> ('e + 'b)" where
  "sbind (w, Inl e) f = (w, Inl e)"
| "sbind (w, Inr x) f = f w x"

fun serr :: "('e \<Rightarrow> 'f) \<Rightarrow> 'w \<times> ('e + 'a) \<Rightarrow> 'w \<times> ('f + 'a)" where
  "serr g (w, r) = (w, map_err g r)"

lemma sbind_Inr_iff: "sbind x f = (w', Inr y) \<longleftrightarrow> (\<exists>w v. x = (w, Inr v) \<and> f w v = (w', Inr y))"
  by (cases "(x, f)" rule: sbind.cases) auto

lemma sbind_Inl_iff: "sbind x f = (w', Inl e) \<longleftrightarrow>
    x = (w', Inl e) \<or> (\<exists>w v. x = (w, Inr v) \<and> f w v = (w', Inl e))"
  by (cases "(x, f)" rule: sbind.cases) auto

lemma serr_Inr_iff: "serr g x = (w', Inr y) \<longleftrightarrow> x = (w', Inr y)"
  by (cases x) (auto simp: map_err_Inr_iff)

lemma serr_Inl_iff: "serr g x = (w', Inl e) \<longleftrightarrow> (\<exists>e'. x = (w', Inl e') \<and> e = g e')"
proof (cases x)
  case (Pair w r)
  then show ?thesis by (cases r) auto
qed

lemmas await_simps = sbind_Inr_iff sbind_Inl_iff serr_Inr_iff serr_Inl_iff

end
