(* ===== verification/Texts.thy ===== *)
theory Texts
  imports Prelude
begin

text \<open>
  Texts of unsigned integers as the Rust standard library writes and reads them: \<open>to_string\<close>,
  the \<open>x\<close> format, \<open>from_str_radix\<close> and \<open>str::parse\<close>. Reading refuses an empty text,
  a lone sign, a digit outside the radix and a value past the type's bound, and accepts one
  leading \<open>+\<close>.
\<close>

section \<open>Writing\<close>

definition digit_char :: "nat \<Rightarrow> char" where
  "digit_char d = (if d < 10 then char_of (48 + d) else char_of (87 + d))"

fun radix_text :: "nat \<Rightarrow> nat \<Rightarrow> string" where
  "radix_text r n =
     (if r < 2 \<or> n < r then [digit_char n] else radix_text r (n div r) @ [digit_char (n mod r)])"

declare radix_text.simps [simp del]

abbreviation dec :: "nat \<Rightarrow> string" where
  "dec n \<equiv> radix_text 10 n"

abbreviation dec_word :: "'a::len word \<Rightarrow> string" where
  "dec_word w \<equiv> dec (unat w)"

text \<open>The \<open>#x\<close> format: lowercase, with its prefix.\<close>

definition hex_quantity_text :: "nat \<Rightarrow> string" where
  "hex_quantity_text n = ''0x'' @ radix_text 16 n"

text \<open>A fixed number of lowercase hex digits.\<close>

fun hex_fixed :: "nat \<Rightarrow> nat \<Rightarrow> string" where
  "hex_fixed 0 n = []"
| "hex_fixed (Suc k) n = hex_fixed k (n div 16) @ [digit_char (n mod 16)]"

section \<open>Reading\<close>

definition char_digit :: "nat \<Rightarrow> char \<Rightarrow> nat option" where
  "char_digit r c =
     (let n = (of_char c :: nat);
          d = (if 48 \<le> n \<and> n \<le> 57 then Some (n - 48)
               else if 97 \<le> n \<and> n \<le> 122 then Some (n - 87)
               else if 65 \<le> n \<and> n \<le> 90 then Some (n - 55)
               else None)
      in case d of None \<Rightarrow> None | Some v \<Rightarrow> if v < r then Some v else None)"

fun radix_value :: "nat \<Rightarrow> nat \<Rightarrow> nat \<Rightarrow> string \<Rightarrow> nat option" where
  "radix_value r bound acc [] = Some acc"
| "radix_value r bound acc (c # cs) =
     (case char_digit r c of
        None \<Rightarrow> None
      | Some d \<Rightarrow> if acc * r + d < bound then radix_value r bound (acc * r + d) cs else None)"

definition parse_radix :: "nat \<Rightarrow> nat \<Rightarrow> string \<Rightarrow> nat option" where
  "parse_radix r bound s =
     (case s of
        [] \<Rightarrow> None
      | c # cs \<Rightarrow>
          if c = CHR ''+'' then (if cs = [] then None else radix_value r bound 0 cs)
          else radix_value r bound 0 s)"

definition strip_prefix :: "string \<Rightarrow> string \<Rightarrow> string option" where
  "strip_prefix p s = (if take (length p) s = p then Some (drop (length p) s) else None)"

definition is_ascii_digit :: "char \<Rightarrow> bool" where
  "is_ascii_digit c = (48 \<le> (of_char c :: nat) \<and> (of_char c :: nat) \<le> 57)"

definition is_ascii_lowercase :: "char \<Rightarrow> bool" where
  "is_ascii_lowercase c = (97 \<le> (of_char c :: nat) \<and> (of_char c :: nat) \<le> 122)"

section \<open>Round trips\<close>

lemma char_digit_digit_char: "r \<le> 36 \<Longrightarrow> d < r \<Longrightarrow> char_digit r (digit_char d) = Some d"
  by (simp add: char_digit_def digit_char_def Let_def)

lemma digit_char_not_plus: "d < 36 \<Longrightarrow> digit_char d \<noteq> CHR ''+''"
proof
  assume d: "d < 36" and eq: "digit_char d = CHR ''+''"
  then have "(of_char (digit_char d) :: nat) = of_char (CHR ''+'')" by simp
  with d show False by (simp add: digit_char_def split: if_splits)
qed

lemma radix_value_append:
  "radix_value r b acc (xs @ ys) = Option.bind (radix_value r b acc xs) (\<lambda>a. radix_value r b a ys)"
  by (induction xs arbitrary: acc) (auto split: option.splits)

lemma radix_text_nonempty [simp]: "radix_text r n \<noteq> []"
  by (subst radix_text.simps) simp

lemma radix_value_text:
  assumes "2 \<le> r" "r \<le> 36" "n < b"
  shows "radix_value r b 0 (radix_text r n) = Some n"
  using assms
proof (induction r n rule: radix_text.induct)
  case (1 r n)
  show ?case
  proof (cases "n < r")
    case True
    with 1 show ?thesis by (simp add: radix_text.simps [of r n] char_digit_digit_char)
  next
    case False
    have "n div r < b" using "1.prems" by (meson div_le_dividend le_less_trans)
    with 1 False have "radix_value r b 0 (radix_text r (n div r)) = Some (n div r)" by simp
    with False "1.prems" show ?thesis
      by (simp add: radix_text.simps [of r n] radix_value_append char_digit_digit_char
          mult.commute [of r])
  qed
qed

lemma hd_radix_text: "2 \<le> r \<Longrightarrow> r \<le> 36 \<Longrightarrow> hd (radix_text r n) \<noteq> CHR ''+''"
proof (induction r n rule: radix_text.induct)
  case (1 r n)
  then show ?case
    by (cases "n < r") (simp_all add: radix_text.simps [of r n] digit_char_not_plus)
qed

lemma parse_radix_text:
  assumes "2 \<le> r" "r \<le> 36" "n < b"
  shows "parse_radix r b (radix_text r n) = Some n"
proof -
  obtain c cs where t: "radix_text r n = c # cs"
    using radix_text_nonempty [of r n] by (cases "radix_text r n") auto
  have "c \<noteq> CHR ''+''" using hd_radix_text [of r n] assms t by simp
  with t radix_value_text [OF assms] show ?thesis by (simp add: parse_radix_def)
qed

lemma parse_dec [simp]: "n < b \<Longrightarrow> parse_radix 10 b (dec n) = Some n"
  by (simp add: parse_radix_text)

lemma dec_inj: "dec m = dec n \<longleftrightarrow> m = n"
proof
  assume "dec m = dec n"
  then have "parse_radix 10 (Suc (max m n)) (dec m) = parse_radix 10 (Suc (max m n)) (dec n)" by simp
  then show "m = n" by (simp add: less_Suc_eq_le)
qed simp

lemma strip_prefix_append [simp]: "strip_prefix p (p @ s) = Some s"
  by (simp add: strip_prefix_def)

lemma radix_value_bound: "radix_value r b acc s = Some n \<Longrightarrow> acc < b \<Longrightarrow> n < b"
  by (induction s arbitrary: acc) (auto split: option.splits if_splits)

lemma parse_radix_bound: "parse_radix r b s = Some n \<Longrightarrow> 0 < b \<Longrightarrow> n < b"
  by (auto simp: parse_radix_def simp del: radix_value.simps split: list.splits if_splits
      dest: radix_value_bound)

text \<open>The leading character of a decimal text is a digit, so it never carries the hex prefix.\<close>

lemma set_dec: "c \<in> set (dec n) \<Longrightarrow> is_ascii_digit c"
proof (induction "10::nat" n rule: radix_text.induct)
  case (1 n)
  have "n < 10 \<Longrightarrow> is_ascii_digit (digit_char n)" for n
    by (simp add: digit_char_def is_ascii_digit_def)
  with 1 show ?case
    by (cases "n < 10") (auto simp: radix_text.simps [of 10 n])
qed

lemma dec_no_hex_prefix: "strip_prefix ''0x'' (dec n) = None"
proof -
  have "CHR ''x'' \<notin> set (dec n)" using set_dec [of "CHR ''x''" n] by (auto simp: is_ascii_digit_def)
  then have "take (length ''0x'') (dec n) \<noteq> ''0x''"
    by (metis list.set_intros(1,2) in_set_takeD)
  then show ?thesis unfolding strip_prefix_def by (rule if_not_P)
qed

lemma hex_quantity_roundtrip: "n < b \<Longrightarrow>
    Option.bind (strip_prefix ''0x'' (hex_quantity_text n)) (parse_radix 16 b) = Some n"
  by (simp add: hex_quantity_text_def strip_prefix_def parse_radix_text)

lemma length_hex_fixed [simp]: "length (hex_fixed k n) = k"
  by (induction k n rule: hex_fixed.induct) auto

lemma radix_value_hex_fixed: "n < 16 ^ k \<Longrightarrow> n < b \<Longrightarrow> radix_value 16 b 0 (hex_fixed k n) = Some n"
proof (induction k arbitrary: n)
  case (Suc k)
  have "n div 16 < 16 ^ k" using Suc.prems by (simp add: less_mult_imp_div_less mult.commute)
  moreover have "n div 16 < b" using Suc.prems by (meson div_le_dividend le_less_trans)
  ultimately have "radix_value 16 b 0 (hex_fixed k (n div 16)) = Some (n div 16)" by (rule Suc.IH)
  with Suc.prems show ?case
    by (simp add: radix_value_append char_digit_digit_char mult.commute [of 16])
qed simp

end
