(* ===== verification/Libs.thy ===== *)
theory Libs
  imports Texts
begin

text \<open>
  The third-party code the load balancer calls, as a parameter of the model: \<open>alloy\<close>'s
  texts of addresses, keys, byte strings and amounts and its signature recovery,
  \<open>serde_json\<close>'s parser and printer, and the URL parser. \<open>libs\<close> holds one function per call,
  and \<open>text_laws\<close> states what their documentation promises of the texts: what is printed
  parses back. \<open>std_libs\<close> is one concrete instance that satisfies it.
\<close>

section \<open>JSON values\<close>

text \<open>
  \<open>serde_json::Value\<close>. An object is the list of its entries; an integer is a number in the
  64-bit ranges, and any other number is its text.
\<close>

datatype json =
    JNull
  | JBool bool
  | JNum int
  | JFloat string
  | JStr string
  | JArr "json list"
  | JObj "(string \<times> json) list"

fun json_get :: "json \<Rightarrow> string \<Rightarrow> json option" where
  "json_get (JObj kvs) k = map_of kvs k"
| "json_get _ k = None"

fun as_str :: "json \<Rightarrow> string option" where
  "as_str (JStr s) = Some s"
| "as_str _ = None"

fun as_u64 :: "json \<Rightarrow> u64 option" where
  "as_u64 (JNum n) = (if 0 \<le> n \<and> n < 2 ^ 64 then Some (word_of_int n) else None)"
| "as_u64 _ = None"

fun as_i64 :: "json \<Rightarrow> int option" where
  "as_i64 (JNum n) = (if - (2 ^ 63) \<le> n \<and> n < 2 ^ 63 then Some n else None)"
| "as_i64 _ = None"

section \<open>The libraries\<close>

record libs =
  addr_hex :: "address \<Rightarrow> string"
  key_hex :: "entity_key \<Rightarrow> string"
  parse_addr :: "string \<Rightarrow> address option"
  parse_key :: "string \<Rightarrow> entity_key option"
  bytes_hex :: "bytes \<Rightarrow> string"
  parse_bytes :: "string \<Rightarrow> bytes option"
  wei_dec :: "u256 \<Rightarrow> string"
  parse_wei :: "string \<Rightarrow> u256 option"
  json_to_vec :: "json \<Rightarrow> bytes"
  json_from_slice :: "bytes \<Rightarrow> json option"
  parse_sig :: "string \<Rightarrow> bytes option"
  recover_address :: "bytes \<Rightarrow> string \<Rightarrow> address option"
  url_scheme :: "string \<Rightarrow> string option"

definition text_laws :: "libs \<Rightarrow> bool" where
  "text_laws L \<longleftrightarrow>
     (\<forall>a. parse_addr L (addr_hex L a) = Some a) \<and>
     (\<forall>k. parse_key L (key_hex L k) = Some k) \<and>
     (\<forall>b. parse_bytes L (bytes_hex L b) = Some b) \<and>
     (\<forall>w. parse_wei L (wei_dec L w) = Some w)"

lemma text_lawsD:
  assumes "text_laws L"
  shows "parse_addr L (addr_hex L a) = Some a"
    and "parse_key L (key_hex L k) = Some k"
    and "parse_bytes L (bytes_hex L b) = Some b"
    and "parse_wei L (wei_dec L w) = Some w"
  using assms by (simp_all add: text_laws_def)

lemma addr_hex_inj: "text_laws L \<Longrightarrow> addr_hex L a = addr_hex L b \<longleftrightarrow> a = b"
  by (metis text_lawsD(1) option.inject)

lemma key_hex_inj: "text_laws L \<Longrightarrow> key_hex L a = key_hex L b \<longleftrightarrow> a = b"
  by (metis text_lawsD(2) option.inject)

section \<open>An instance\<close>

definition word_hex :: "nat \<Rightarrow> 'a::len word \<Rightarrow> string" where
  "word_hex k w = ''0x'' @ hex_fixed k (unat w)"

definition parse_word_hex :: "nat \<Rightarrow> string \<Rightarrow> 'a::len word option" where
  "parse_word_hex k s =
     (let digits = (case strip_prefix ''0x'' s of None \<Rightarrow> s | Some d \<Rightarrow> d)
      in if length digits = k then map_option word_of_nat (radix_value 16 (16 ^ k) 0 digits)
         else None)"

fun pairs_hex :: "bytes \<Rightarrow> string" where
  "pairs_hex [] = []"
| "pairs_hex (b # bs) = hex_fixed 2 (unat b) @ pairs_hex bs"

fun parse_pairs :: "string \<Rightarrow> bytes option" where
  "parse_pairs [] = Some []"
| "parse_pairs [c] = None"
| "parse_pairs (c # d # cs) =
     (case radix_value 16 256 0 [c, d] of
        None \<Rightarrow> None
      | Some n \<Rightarrow> map_option ((#) (word_of_nat n)) (parse_pairs cs))"

definition std_libs :: libs where
  "std_libs = \<lparr>
     addr_hex = word_hex 40,
     key_hex = word_hex 64,
     parse_addr = parse_word_hex 40,
     parse_key = parse_word_hex 64,
     bytes_hex = (\<lambda>b. ''0x'' @ pairs_hex b),
     parse_bytes = (\<lambda>s. case strip_prefix ''0x'' s of None \<Rightarrow> parse_pairs s | Some d \<Rightarrow> parse_pairs d),
     wei_dec = dec_word,
     parse_wei = (\<lambda>s. map_option word_of_nat (parse_radix 10 (2 ^ 256) s)),
     json_to_vec = (\<lambda>_. []),
     json_from_slice = (\<lambda>_. None),
     parse_sig = parse_pairs,
     recover_address = (\<lambda>_ _. None),
     url_scheme = (\<lambda>s. if take 7 s = ''http://'' then Some ''http'' else None)\<rparr>"

lemma parse_word_hex_word_hex:
  fixes w :: "'a::len word"
  assumes "LENGTH('a) = 4 * k"
  shows "parse_word_hex k (word_hex k w) = Some w"
proof -
  have "unat w < 16 ^ k" using unsigned_less [of w] assms by (simp add: power_mult)
  then show ?thesis by (simp add: word_hex_def parse_word_hex_def strip_prefix_def
        radix_value_hex_fixed)
qed

lemma parse_pairs_hex: "parse_pairs (pairs_hex b) = Some b"
proof (induction b)
  case (Cons b bs)
  have "radix_value 16 256 0 (hex_fixed 2 (unat b)) = Some (unat b)"
    by (rule radix_value_hex_fixed) (use unsigned_less [of b] in simp_all)
  moreover obtain c d where "hex_fixed 2 (unat b) = [c, d]"
    using length_hex_fixed [of 2 "unat b"] by (metis length_0_conv length_Suc_conv numeral_2_eq_2)
  ultimately show ?case using Cons.IH by (simp del: radix_value.simps)
qed simp

lemma std_libs_text_laws: "text_laws std_libs"
proof -
  have "parse_radix 10 (2 ^ 256) (dec_word w) = Some (unat w)" for w :: u256
    by (rule parse_dec) (use unsigned_less [of w] in simp)
  then show ?thesis
    by (simp add: text_laws_def std_libs_def parse_word_hex_word_hex strip_prefix_def parse_pairs_hex
        del: parse_dec)
qed

end
