(* ===== verification/Records.thy ===== *)
theory Records
  imports Libs
begin

text \<open>
  \<open>crates/lb/src/chain/records.rs\<close>: typed attribute values and their two JSON shapes, the
  attributes of a record, entities as a query returns them, and the five marketplace records
  with their encoding and decoding. The trait \<open>Record\<close> is the locale \<open>chain_record\<close>, and
  each record type interprets it. An unreadable payload carries the parser's message in the
  source; here the message is dropped and the error kept.
\<close>

section \<open>Attribute values\<close>

type_synonym i32 = "32 word"

definition SCHEMA_VERSION :: i32 where
  "SCHEMA_VERSION = 1"

definition KIND_LB_LISTING :: string where "KIND_LB_LISTING = ''rpc.lb_listing''"
definition KIND_OFFER :: string where "KIND_OFFER = ''rpc.offer''"
definition KIND_AGREEMENT :: string where "KIND_AGREEMENT = ''rpc.agreement''"
definition KIND_COUNTER :: string where "KIND_COUNTER = ''rpc.counter''"
definition KIND_RECEIPT :: string where "KIND_RECEIPT = ''rpc.receipt''"

lemmas kind_defs = KIND_LB_LISTING_def KIND_OFFER_def KIND_AGREEMENT_def KIND_COUNTER_def
  KIND_RECEIPT_def

definition PAYLOAD_ATTRIBUTE :: string where
  "PAYLOAD_ATTRIBUTE = ''payload''"

datatype record_error =
    MissingAttribute string
  | AttributeType string string string
  | Payload
  | NotThisRecord string
  | Version i32

datatype attribute_value =
    Str string
  | I32 i32
  | U64 u64
  | Addr address
  | Key entity_key
  | Bytes bytes

record arkiv_attribute =
  at_name :: string
  at_type :: string
  at_value :: json

fun type_tag :: "attribute_value \<Rightarrow> string" where
  "type_tag (Str _) = ''str''"
| "type_tag (I32 _) = ''i32''"
| "type_tag (U64 _) = ''u64''"
| "type_tag (Addr _) = ''addr''"
| "type_tag (Key _) = ''key''"
| "type_tag (Bytes _) = ''bytes''"

definition mismatch :: "attribute_value \<Rightarrow> string \<Rightarrow> string \<Rightarrow> record_error" where
  "mismatch v name expected = AttributeType name (type_tag v) expected"

text \<open>The write-side shape.\<close>

definition plain_wire :: "attribute_value \<Rightarrow> json \<Rightarrow> json" where
  "plain_wire v j = JObj [(''type'', JStr (type_tag v)), (''value'', j)]"

fun value_to_wire :: "libs \<Rightarrow> attribute_value \<Rightarrow> json" where
  "value_to_wire L (Str s) = plain_wire (Str s) (JStr s)"
| "value_to_wire L (I32 n) = plain_wire (I32 n) (JNum (sint n))"
| "value_to_wire L (U64 n) = plain_wire (U64 n) (JStr (dec_word n))"
| "value_to_wire L (Addr a) = plain_wire (Addr a) (JStr (addr_hex L a))"
| "value_to_wire L (Key k) = plain_wire (Key k) (JStr (key_hex L k))"
| "value_to_wire L (Bytes b) =
     JObj [(''indexed'', JBool False), (''type'', JStr ''bytes''), (''value'', JStr (bytes_hex L b))]"

text \<open>A 64-bit number as a JSON number, a decimal text, or a hex quantity.\<close>

definition parse_u64 :: "json \<Rightarrow> u64 option" where
  "parse_u64 v =
     (case as_u64 v of
        Some n \<Rightarrow> Some n
      | None \<Rightarrow>
          (case as_str v of
             None \<Rightarrow> None
           | Some text \<Rightarrow>
               map_option word_of_nat
                 (case strip_prefix ''0x'' text of
                    Some hex \<Rightarrow> parse_radix 16 (2 ^ 64) hex
                  | None \<Rightarrow> parse_radix 10 (2 ^ 64) text)))"

text \<open>The read-side shape.\<close>

definition value_from_read :: "libs \<Rightarrow> arkiv_attribute \<Rightarrow> attribute_value option" where
  "value_from_read L r =
     (let v = at_value r; tag = at_type r in
      if tag = ''str'' then map_option Str (as_str v)
      else if tag = ''i32'' then
        Option.bind (as_i64 v) (\<lambda>n. if - (2 ^ 31) \<le> n \<and> n < 2 ^ 31 then Some (I32 (word_of_int n)) else None)
      else if tag = ''u64'' then map_option U64 (parse_u64 v)
      else if tag = ''addr'' then map_option Addr (Option.bind (as_str v) (parse_addr L))
      else if tag = ''key'' \<or> tag = ''bytes32'' then map_option Key (Option.bind (as_str v) (parse_key L))
      else if tag = ''bytes'' then map_option Bytes (Option.bind (as_str v) (parse_bytes L))
      else None)"

definition value_to_read :: "libs \<Rightarrow> attribute_value \<Rightarrow> string \<Rightarrow> arkiv_attribute" where
  "value_to_read L v name = \<lparr>
     at_name = name,
     at_type = (case v of Key _ \<Rightarrow> ''bytes32'' | _ \<Rightarrow> type_tag v),
     at_value = (case json_get (value_to_wire L v) ''value'' of None \<Rightarrow> JNull | Some j \<Rightarrow> j)\<rparr>"

lemma as_u64_uint [simp]: "as_u64 (JNum (uint n)) = Some n" for n :: u64
proof -
  have "uint n < 2 ^ 64" using unat_bound [of n] by (simp add: uint_lt2p [of n, simplified])
  then show ?thesis by simp
qed

lemma parse_u64_number: "parse_u64 (JNum (uint n)) = Some n"
  unfolding parse_u64_def as_u64_uint by simp

lemma parse_u64_decimal: "parse_u64 (JStr (dec_word n)) = Some n" for n :: u64
  using unat_bound [of n] by (simp add: parse_u64_def dec_no_hex_prefix)

lemma parse_u64_hex: "parse_u64 (JStr (hex_quantity_text (unat n))) = Some n" for n :: u64
  using unat_bound [of n] by (simp add: parse_u64_def hex_quantity_text_def strip_prefix_def parse_radix_text)

lemma value_read_roundtrip:
  assumes "text_laws L"
  shows "value_from_read L (value_to_read L v name) = Some v"
proof (cases v)
  case (I32 n)
  have "- (2 ^ 31) \<le> sint n \<and> sint n < 2 ^ 31" using sint_greater_eq [of n] sint_less [of n] by simp
  with I32 show ?thesis by (simp add: value_from_read_def value_to_read_def plain_wire_def)
qed (simp_all add: value_from_read_def value_to_read_def plain_wire_def text_lawsD [OF assms]
    parse_u64_decimal)

lemma at_name_value_to_read [simp]: "at_name (value_to_read L v name) = name"
  by (simp add: value_to_read_def)

section \<open>Attributes\<close>

type_synonym attributes = "(string \<times> attribute_value) list"

definition attributes_new :: "string \<Rightarrow> attributes" where
  "attributes_new kind = bt_insert ''v'' (I32 SCHEMA_VERSION) (bt_insert ''kind'' (Str kind) [])"

definition attributes_with :: "attributes \<Rightarrow> string \<Rightarrow> attribute_value \<Rightarrow> attributes" where
  "attributes_with m name v = bt_insert name v m"

definition attributes_to_wire :: "libs \<Rightarrow> attributes \<Rightarrow> json" where
  "attributes_to_wire L m = JObj (map (\<lambda>(name, v). (name, value_to_wire L v)) m)"

definition attributes_to_read :: "libs \<Rightarrow> attributes \<Rightarrow> arkiv_attribute list" where
  "attributes_to_read L m = map (\<lambda>(name, v). value_to_read L v name) m"

definition keep :: "attributes \<Rightarrow> string list \<Rightarrow> attributes" where
  "keep m names = filter (\<lambda>(name, _). name \<in> set names) m"

definition attributes_payload :: "attributes \<Rightarrow> bytes option" where
  "attributes_payload m = (case map_of m PAYLOAD_ATTRIBUTE of Some (Bytes b) \<Rightarrow> Some b | _ \<Rightarrow> None)"

definition present :: "attributes \<Rightarrow> string \<Rightarrow> record_error + attribute_value" where
  "present m name = ok_or (MissingAttribute name) (map_of m name)"

definition attr_str :: "attributes \<Rightarrow> string \<Rightarrow> record_error + string" where
  "attr_str m name = rbind (present m name)
     (\<lambda>v. case v of Str s \<Rightarrow> Inr s | other \<Rightarrow> Inl (mismatch other name ''str''))"

definition attr_i32 :: "attributes \<Rightarrow> string \<Rightarrow> record_error + i32" where
  "attr_i32 m name = rbind (present m name)
     (\<lambda>v. case v of I32 n \<Rightarrow> Inr n | other \<Rightarrow> Inl (mismatch other name ''i32''))"

definition attr_addr :: "attributes \<Rightarrow> string \<Rightarrow> record_error + address" where
  "attr_addr m name = rbind (present m name)
     (\<lambda>v. case v of Addr a \<Rightarrow> Inr a | other \<Rightarrow> Inl (mismatch other name ''addr''))"

definition attr_key :: "attributes \<Rightarrow> string \<Rightarrow> record_error + entity_key" where
  "attr_key m name = rbind (present m name)
     (\<lambda>v. case v of Key k \<Rightarrow> Inr k | other \<Rightarrow> Inl (mismatch other name ''key''))"

lemmas attr_get_defs = attr_str_def attr_i32_def attr_addr_def attr_key_def present_def

lemma bt_wf_new [simp]: "bt_wf (attributes_new kind)"
  unfolding attributes_new_def by (intro bt_wf_insert) simp

lemma bt_wf_with [simp]: "bt_wf m \<Longrightarrow> bt_wf (attributes_with m name v)"
  unfolding attributes_with_def by (rule bt_wf_insert)

lemma map_of_new [simp]: "map_of (attributes_new kind) = [''kind'' \<mapsto> Str kind, ''v'' \<mapsto> I32 SCHEMA_VERSION]"
  by (simp add: attributes_new_def del: bt_insert.simps)

lemma map_of_with [simp]: "map_of (attributes_with m name v) = (map_of m)(name \<mapsto> v)"
  by (simp add: attributes_with_def)

lemma bt_wf_keep: "bt_wf m \<Longrightarrow> bt_wf (keep m names)"
  unfolding keep_def by (rule bt_wf_filter)

section \<open>Entities\<close>

record arkiv_entity =
  e_key :: entity_key
  e_creator :: address
  e_created_at :: u64
  e_updated_at :: u64
  e_expires_at :: u64
  e_attributes :: "arkiv_attribute list"

definition typed_attributes :: "libs \<Rightarrow> arkiv_entity \<Rightarrow> attributes" where
  "typed_attributes L e =
     bt_collect (List.map_filter (\<lambda>r. map_option (\<lambda>v. (at_name r, v)) (value_from_read L r)) (e_attributes e))"

definition entity_is :: "libs \<Rightarrow> arkiv_entity \<Rightarrow> string \<Rightarrow> bool" where
  "entity_is L e kind =
     (case map_of (typed_attributes L e) ''kind'' of Some (Str found) \<Rightarrow> found = kind | _ \<Rightarrow> False)"

definition entity_payload :: "libs \<Rightarrow> arkiv_entity \<Rightarrow> bytes option" where
  "entity_payload L e = attributes_payload (typed_attributes L e)"

definition payload_json :: "libs \<Rightarrow> (libs \<Rightarrow> json \<Rightarrow> 'a option) \<Rightarrow> arkiv_entity \<Rightarrow> record_error + 'a" where
  "payload_json L parse e =
     rbind (ok_or Payload (entity_payload L e))
       (\<lambda>b. ok_or Payload (Option.bind (json_from_slice L b) (parse L)))"

lemma typed_attributes_read:
  assumes "text_laws L" "bt_wf m" "e_attributes e = attributes_to_read L m"
  shows "typed_attributes L e = m"
proof -
  have "List.map_filter (\<lambda>r. map_option (\<lambda>v. (at_name r, v)) (value_from_read L r))
          (attributes_to_read L m) = m"
    by (induction m) (auto simp: attributes_to_read_def List.map_filter_def value_read_roundtrip [OF assms(1)])
  with assms show ?thesis by (simp add: typed_attributes_def bt_collect_id)
qed

section \<open>The trait Record\<close>

text \<open>\<open>Record::decode\<close>, over a record type's kind and its \<open>decode_fields\<close>.\<close>

definition record_decode ::
    "libs \<Rightarrow> string \<Rightarrow> (libs \<Rightarrow> arkiv_entity \<Rightarrow> record_error + 'r) \<Rightarrow> arkiv_entity \<Rightarrow> record_error + 'r" where
  "record_decode L kind decode_fields e =
     (if \<not> entity_is L e kind then Inl (NotThisRecord kind)
      else rbind (attr_i32 (typed_attributes L e) ''v'')
        (\<lambda>version. if version \<noteq> SCHEMA_VERSION then Inl (Version version) else decode_fields L e))"

record 'r stored =
  st_key :: entity_key
  st_creator :: address
  st_created_at :: u64
  st_expires_at :: u64
  st_record :: 'r

definition stored_decode ::
    "libs \<Rightarrow> string \<Rightarrow> (libs \<Rightarrow> arkiv_entity \<Rightarrow> record_error + 'r) \<Rightarrow> arkiv_entity \<Rightarrow> record_error + 'r stored" where
  "stored_decode L kind decode_fields e =
     rbind (record_decode L kind decode_fields e)
       (\<lambda>r. Inr \<lparr>st_key = e_key e, st_creator = e_creator e, st_created_at = e_created_at e,
             st_expires_at = e_expires_at e, st_record = r\<rparr>)"

definition encode_payload :: "libs \<Rightarrow> attributes \<Rightarrow> json \<Rightarrow> attributes" where
  "encode_payload L m payload = attributes_with m PAYLOAD_ATTRIBUTE (Bytes (json_to_vec L payload))"

text \<open>
  What an implementation of the trait promises: its encoding carries the kind and the version,
  and its \<open>decode_fields\<close> reads back an entity whose attributes are that encoding, given that
  the payload's JSON prints and parses.
\<close>

locale chain_record =
  fixes kind :: string
    and encode :: "libs \<Rightarrow> 'r \<Rightarrow> attributes"
    and payload_of :: "libs \<Rightarrow> 'r \<Rightarrow> json"
    and decode_fields :: "libs \<Rightarrow> arkiv_entity \<Rightarrow> record_error + 'r"
  assumes encode_wf: "bt_wf (encode L r)"
    and encode_kind: "map_of (encode L r) ''kind'' = Some (Str kind)"
    and encode_version: "map_of (encode L r) ''v'' = Some (I32 SCHEMA_VERSION)"
    and fields_back: "\<lbrakk>text_laws L;
      json_from_slice L (json_to_vec L (payload_of L r)) = Some (payload_of L r);
      typed_attributes L e = encode L r\<rbrakk> \<Longrightarrow> decode_fields L e = Inr r"
begin

lemma decode_back:
  assumes "text_laws L" "json_from_slice L (json_to_vec L (payload_of L r)) = Some (payload_of L r)"
    and e: "e_attributes e = attributes_to_read L (encode L r)"
  shows "record_decode L kind decode_fields e = Inr r"
proof -
  have typed: "typed_attributes L e = encode L r"
    by (rule typed_attributes_read [OF assms(1) encode_wf e])
  have "decode_fields L e = Inr r" by (rule fields_back [OF assms(1,2) typed])
  with typed show ?thesis
    by (simp add: record_decode_def entity_is_def attr_get_defs encode_kind encode_version)
qed

lemma stored_back:
  assumes "text_laws L" "json_from_slice L (json_to_vec L (payload_of L r)) = Some (payload_of L r)"
    and "e_attributes e = attributes_to_read L (encode L r)"
  shows "stored_decode L kind decode_fields e =
    Inr \<lparr>st_key = e_key e, st_creator = e_creator e, st_created_at = e_created_at e,
      st_expires_at = e_expires_at e, st_record = r\<rparr>"
  using decode_back [OF assms] by (simp add: stored_decode_def)

lemma decode_other_kind:
  assumes "text_laws L" "e_attributes e = attributes_to_read L (encode L r)" "other \<noteq> kind"
  shows "record_decode L other f e = Inl (NotThisRecord other)"
  using typed_attributes_read [OF assms(1) encode_wf assms(2)] assms(3)
  by (auto simp: record_decode_def entity_is_def encode_kind)

end

lemma decode_version_refused:
  assumes "entity_is L e kind" "map_of (typed_attributes L e) ''v'' = Some (I32 n)" "n \<noteq> SCHEMA_VERSION"
  shows "record_decode L kind decode_fields e = Inl (Version n)"
  using assms by (simp add: record_decode_def attr_get_defs)

lemma decode_Inr_kind: "record_decode L kind f e = Inr r \<Longrightarrow>
    entity_is L e kind \<and> attr_i32 (typed_attributes L e) ''v'' = Inr SCHEMA_VERSION \<and> f L e = Inr r"
  by (auto simp: record_decode_def result_simps split: if_splits)

section \<open>Reading a payload's fields\<close>

text \<open>The derived \<open>Deserialize\<close>: fields by name, unknown ones ignored.\<close>

definition json_u64 :: "json \<Rightarrow> string \<Rightarrow> u64 option" where
  "json_u64 j k = Option.bind (json_get j k) as_u64"

definition json_small :: "nat \<Rightarrow> json \<Rightarrow> string \<Rightarrow> nat option" where
  "json_small bound j k =
     Option.bind (json_u64 j k) (\<lambda>n. if unat n < bound then Some (unat n) else None)"

definition json_u32 :: "json \<Rightarrow> string \<Rightarrow> u32 option" where
  "json_u32 j k = map_option word_of_nat (json_small (2 ^ 32) j k)"

definition json_u16 :: "json \<Rightarrow> string \<Rightarrow> u16 option" where
  "json_u16 j k = map_option word_of_nat (json_small (2 ^ 16) j k)"

definition json_str :: "json \<Rightarrow> string \<Rightarrow> string option" where
  "json_str j k = Option.bind (json_get j k) as_str"

definition json_opt_u64 :: "json \<Rightarrow> string \<Rightarrow> u64 option option" where
  "json_opt_u64 j k =
     (case json_get j k of
        None \<Rightarrow> Some None
      | Some JNull \<Rightarrow> Some None
      | Some v \<Rightarrow> map_option Some (as_u64 v))"

definition json_word :: "'a::len word \<Rightarrow> json" where
  "json_word w = JNum (uint w)"

text \<open>\<open>Wei\<close>: a decimal text.\<close>

type_synonym wei = u256

definition wei_new :: "nat \<Rightarrow> wei" where
  "wei_new n = word_of_nat (n mod 2 ^ 128)"

definition wei_to_json :: "libs \<Rightarrow> wei \<Rightarrow> json" where
  "wei_to_json L w = JStr (wei_dec L w)"

definition json_wei :: "libs \<Rightarrow> json \<Rightarrow> string \<Rightarrow> wei option" where
  "json_wei L j k = Option.bind (json_str j k) (parse_wei L)"

lemma as_u64_small_word:
  fixes w :: "'a::len word"
  assumes "LENGTH('a) < 64"
  shows "as_u64 (json_word w) = Some (word_of_nat (unat w))"
    and "unat (word_of_nat (unat w) :: u64) = unat w"
proof -
  have "unat w < 2 ^ LENGTH('a)" by (rule unat_bound)
  also have "\<dots> \<le> 2 ^ 64" using assms by (intro power_increasing) simp_all
  finally have lt: "unat w < 2 ^ 64" .
  then have "int (unat w) < int (2 ^ 64)" by (simp only: of_nat_less_iff)
  then have "uint w < 2 ^ 64" by simp
  then show "as_u64 (json_word w) = Some (word_of_nat (unat w))"
    by (simp add: json_word_def)
  from lt show "unat (word_of_nat (unat w) :: u64) = unat w"
    by (simp add: unsigned_ucast_eq take_bit_nat_eq_self)
qed

lemma json_small_word:
  assumes "json_get j k = Some (json_word (w :: 'a::len word))" "LENGTH('a) < 64"
  shows "json_small (2 ^ LENGTH('a)) j k = Some (unat w)"
  using assms as_u64_small_word [OF assms(2), of w]
  by (simp add: json_small_def json_u64_def unat_bound)

lemma json_reads:
  "json_get j k = Some (json_word (n :: u64)) \<Longrightarrow> json_u64 j k = Some n"
  "json_get j k = Some (json_word (a :: u32)) \<Longrightarrow> json_u32 j k = Some a"
  "json_get j k = Some (json_word (b :: u16)) \<Longrightarrow> json_u16 j k = Some b"
  "json_get j k = Some (JStr s) \<Longrightarrow> json_str j k = Some s"
  using json_small_word [of j k a] json_small_word [of j k b]
  by (simp_all add: json_u64_def json_u32_def json_u16_def json_str_def json_word_def del: as_u64.simps)

lemma json_wei_read: "text_laws L \<Longrightarrow> json_get j k = Some (wei_to_json L w) \<Longrightarrow> json_wei L j k = Some w"
  by (simp add: json_wei_def json_str_def wei_to_json_def text_lawsD)

lemma json_opt_u64_read:
  "json_get j k = None \<Longrightarrow> json_opt_u64 j k = Some None"
  "json_get j k = Some (json_word (n :: u64)) \<Longrightarrow> json_opt_u64 j k = Some (Some n)"
  by (simp_all add: json_opt_u64_def json_word_def del: as_u64.simps)

lemmas json_read_simps = json_reads json_wei_read json_opt_u64_read

lemma payload_json_back:
  assumes "json_from_slice L (json_to_vec L p) = Some p"
    and "map_of (typed_attributes L e) PAYLOAD_ATTRIBUTE = Some (Bytes (json_to_vec L p))"
    and "parse L p = Some v"
  shows "payload_json L parse e = Inr v"
  using assms by (simp add: payload_json_def entity_payload_def attributes_payload_def)

section \<open>The LB listing\<close>

record lb_listing =
  ll_wei_per_call :: wei
  ll_tunnel_server :: string
  ll_max_providers :: u32

definition listing_payload :: "libs \<Rightarrow> lb_listing \<Rightarrow> json" where
  "listing_payload L r = JObj [
     (''wei_per_call'', wei_to_json L (ll_wei_per_call r)),
     (''tunnel_server'', JStr (ll_tunnel_server r)),
     (''max_providers'', json_word (ll_max_providers r))]"

definition listing_parse :: "libs \<Rightarrow> json \<Rightarrow> lb_listing option" where
  "listing_parse L j =
     Option.bind (json_wei L j ''wei_per_call'') (\<lambda>w.
     Option.bind (json_str j ''tunnel_server'') (\<lambda>t.
     Option.bind (json_u32 j ''max_providers'') (\<lambda>m.
       Some \<lparr>ll_wei_per_call = w, ll_tunnel_server = t, ll_max_providers = m\<rparr>)))"

definition listing_encode :: "libs \<Rightarrow> lb_listing \<Rightarrow> attributes" where
  "listing_encode L r = encode_payload L (attributes_new KIND_LB_LISTING) (listing_payload L r)"

definition listing_decode_fields :: "libs \<Rightarrow> arkiv_entity \<Rightarrow> record_error + lb_listing" where
  "listing_decode_fields L e = payload_json L listing_parse e"

lemmas encode_simps = encode_payload_def PAYLOAD_ATTRIBUTE_def attr_get_defs

lemma listing_parse_payload: "text_laws L \<Longrightarrow> listing_parse L (listing_payload L r) = Some r"
  by (simp add: listing_parse_def listing_payload_def json_read_simps)

interpretation listing: chain_record KIND_LB_LISTING listing_encode listing_payload listing_decode_fields
  by unfold_locales (simp_all add: listing_encode_def encode_simps listing_decode_fields_def
      payload_json_back listing_parse_payload)

section \<open>The offer\<close>

record hardware =
  hw_cpus :: u32
  hw_mem_gb :: u32

record specs =
  sp_chain_id :: u64
  sp_head :: u64
  sp_el :: string
  sp_cl :: string
  sp_hw :: hardware

record offer =
  of_lb_listing :: entity_key
  of_specs :: specs

definition hardware_json :: "hardware \<Rightarrow> json" where
  "hardware_json h = JObj [(''cpus'', json_word (hw_cpus h)), (''mem_gb'', json_word (hw_mem_gb h))]"

definition hardware_parse :: "json \<Rightarrow> hardware option" where
  "hardware_parse j =
     Option.bind (json_u32 j ''cpus'') (\<lambda>c.
     Option.bind (json_u32 j ''mem_gb'') (\<lambda>m. Some \<lparr>hw_cpus = c, hw_mem_gb = m\<rparr>))"

definition specs_json :: "specs \<Rightarrow> json" where
  "specs_json s = JObj [
     (''chain_id'', json_word (sp_chain_id s)), (''head'', json_word (sp_head s)),
     (''el'', JStr (sp_el s)), (''cl'', JStr (sp_cl s)), (''hw'', hardware_json (sp_hw s))]"

definition specs_parse :: "json \<Rightarrow> specs option" where
  "specs_parse j =
     Option.bind (json_u64 j ''chain_id'') (\<lambda>c.
     Option.bind (json_u64 j ''head'') (\<lambda>h.
     Option.bind (json_str j ''el'') (\<lambda>el.
     Option.bind (json_str j ''cl'') (\<lambda>cl.
     Option.bind (Option.bind (json_get j ''hw'') hardware_parse) (\<lambda>hw.
       Some \<lparr>sp_chain_id = c, sp_head = h, sp_el = el, sp_cl = cl, sp_hw = hw\<rparr>)))))"

definition offer_payload :: "libs \<Rightarrow> offer \<Rightarrow> json" where
  "offer_payload L r = JObj [(''specs'', specs_json (of_specs r))]"

definition offer_parse :: "libs \<Rightarrow> json \<Rightarrow> specs option" where
  "offer_parse L j = Option.bind (json_get j ''specs'') specs_parse"

definition offer_encode :: "libs \<Rightarrow> offer \<Rightarrow> attributes" where
  "offer_encode L r =
     encode_payload L (attributes_with (attributes_new KIND_OFFER) ''lb_listing'' (Key (of_lb_listing r)))
       (offer_payload L r)"

definition offer_decode_fields :: "libs \<Rightarrow> arkiv_entity \<Rightarrow> record_error + offer" where
  "offer_decode_fields L e =
     rbind (attr_key (typed_attributes L e) ''lb_listing'') (\<lambda>lb_listing.
     rbind (payload_json L offer_parse e) (\<lambda>specs.
       Inr \<lparr>of_lb_listing = lb_listing, of_specs = specs\<rparr>))"

lemma offer_parse_payload: "offer_parse L (offer_payload L r) = Some (of_specs r)"
  by (simp add: offer_parse_def offer_payload_def specs_parse_def specs_json_def hardware_parse_def
      hardware_json_def json_read_simps)

interpretation offer: chain_record KIND_OFFER offer_encode offer_payload offer_decode_fields
  by unfold_locales (simp_all add: offer_encode_def encode_simps offer_decode_fields_def
      payload_json_back offer_parse_payload)

section \<open>The agreement\<close>

record agreement =
  ag_provider :: address
  ag_offer :: entity_key
  ag_wei_per_call :: wei
  ag_remote_port :: u16

definition agreement_payload :: "libs \<Rightarrow> agreement \<Rightarrow> json" where
  "agreement_payload L r = JObj [
     (''wei_per_call'', wei_to_json L (ag_wei_per_call r)),
     (''remote_port'', json_word (ag_remote_port r))]"

definition agreement_parse :: "libs \<Rightarrow> json \<Rightarrow> (wei \<times> u16) option" where
  "agreement_parse L j =
     Option.bind (json_wei L j ''wei_per_call'') (\<lambda>w.
     Option.bind (json_u16 j ''remote_port'') (\<lambda>p. Some (w, p)))"

definition agreement_encode :: "libs \<Rightarrow> agreement \<Rightarrow> attributes" where
  "agreement_encode L r =
     encode_payload L
       (attributes_with (attributes_with (attributes_new KIND_AGREEMENT)
          ''provider'' (Addr (ag_provider r))) ''offer'' (Key (ag_offer r)))
       (agreement_payload L r)"

definition agreement_decode_fields :: "libs \<Rightarrow> arkiv_entity \<Rightarrow> record_error + agreement" where
  "agreement_decode_fields L e =
     (let attributes = typed_attributes L e in
      rbind (payload_json L agreement_parse e) (\<lambda>(wei_per_call, remote_port).
      rbind (attr_addr attributes ''provider'') (\<lambda>provider.
      rbind (attr_key attributes ''offer'') (\<lambda>offer.
        Inr \<lparr>ag_provider = provider, ag_offer = offer, ag_wei_per_call = wei_per_call,
          ag_remote_port = remote_port\<rparr>))))"

lemma agreement_parse_payload: "text_laws L \<Longrightarrow>
    agreement_parse L (agreement_payload L r) = Some (ag_wei_per_call r, ag_remote_port r)"
  by (simp add: agreement_parse_def agreement_payload_def json_read_simps)

interpretation agreement: chain_record KIND_AGREEMENT agreement_encode agreement_payload agreement_decode_fields
  by unfold_locales (simp_all add: agreement_encode_def encode_simps agreement_decode_fields_def
      payload_json_back agreement_parse_payload)

section \<open>The counter record\<close>

datatype counter_state = Open | Closed

fun counter_state_str :: "counter_state \<Rightarrow> string" where
  "counter_state_str Open = ''open''"
| "counter_state_str Closed = ''closed''"

record counter_record =
  cr_agreement :: entity_key
  cr_provider :: address
  cr_state :: counter_state
  cr_count :: u64
  cr_wei_per_call :: wei
  cr_opened_block :: u64
  cr_closed_block :: "u64 option"

record counter_fields =
  cp_count :: u64
  cp_wei_per_call :: wei
  cp_opened_block :: u64
  cp_closed_block :: "u64 option"

definition counter_payload :: "libs \<Rightarrow> counter_record \<Rightarrow> json" where
  "counter_payload L r = JObj (
     [(''count'', json_word (cr_count r)),
      (''wei_per_call'', wei_to_json L (cr_wei_per_call r)),
      (''opened_block'', json_word (cr_opened_block r))] @
     (case cr_closed_block r of None \<Rightarrow> [] | Some b \<Rightarrow> [(''closed_block'', json_word b)]))"

definition counter_parse :: "libs \<Rightarrow> json \<Rightarrow> counter_fields option" where
  "counter_parse L j =
     Option.bind (json_u64 j ''count'') (\<lambda>c.
     Option.bind (json_wei L j ''wei_per_call'') (\<lambda>w.
     Option.bind (json_u64 j ''opened_block'') (\<lambda>ob.
     Option.bind (json_opt_u64 j ''closed_block'') (\<lambda>cb.
       Some \<lparr>cp_count = c, cp_wei_per_call = w, cp_opened_block = ob, cp_closed_block = cb\<rparr>))))"

definition counter_encode :: "libs \<Rightarrow> counter_record \<Rightarrow> attributes" where
  "counter_encode L r =
     encode_payload L
       (attributes_with (attributes_with (attributes_with (attributes_new KIND_COUNTER)
          ''agreement'' (Key (cr_agreement r))) ''provider'' (Addr (cr_provider r)))
          ''state'' (Str (counter_state_str (cr_state r))))
       (counter_payload L r)"

definition counter_decode_fields :: "libs \<Rightarrow> arkiv_entity \<Rightarrow> record_error + counter_record" where
  "counter_decode_fields L e =
     (let attributes = typed_attributes L e in
      rbind (attr_str attributes ''state'') (\<lambda>text.
      rbind (if text = ''open'' then Inr Open
             else if text = ''closed'' then Inr Closed
             else Inl (AttributeType ''state'' text ''open or closed'')) (\<lambda>state.
      rbind (payload_json L counter_parse e) (\<lambda>payload.
      rbind (attr_key attributes ''agreement'') (\<lambda>agreement.
      rbind (attr_addr attributes ''provider'') (\<lambda>provider.
        Inr \<lparr>cr_agreement = agreement, cr_provider = provider, cr_state = state,
          cr_count = cp_count payload, cr_wei_per_call = cp_wei_per_call payload,
          cr_opened_block = cp_opened_block payload, cr_closed_block = cp_closed_block payload\<rparr>))))))"

definition counter_fields_of :: "counter_record \<Rightarrow> counter_fields" where
  "counter_fields_of r = \<lparr>cp_count = cr_count r, cp_wei_per_call = cr_wei_per_call r,
     cp_opened_block = cr_opened_block r, cp_closed_block = cr_closed_block r\<rparr>"

lemma counter_parse_payload: "text_laws L \<Longrightarrow>
    counter_parse L (counter_payload L r) = Some (counter_fields_of r)"
  by (cases "cr_closed_block r")
    (simp_all add: counter_parse_def counter_payload_def json_read_simps counter_fields_of_def)

interpretation counter: chain_record KIND_COUNTER counter_encode counter_payload counter_decode_fields
proof unfold_locales
  fix L r e
  assume "text_laws L"
    and "json_from_slice L (json_to_vec L (counter_payload L r)) = Some (counter_payload L r)"
    and "typed_attributes L e = counter_encode L r"
  then show "counter_decode_fields L e = Inr r"
    by (cases "cr_state r") (simp_all add: counter_decode_fields_def counter_encode_def encode_simps
        payload_json_back counter_parse_payload counter_fields_of_def)
qed (simp_all add: counter_encode_def encode_simps)

section \<open>The receipt\<close>

record payout =
  po_chain_id :: u64
  po_tx :: string

record receipt =
  re_counter :: entity_key
  re_provider :: address
  re_agreement :: entity_key
  re_count :: u64
  re_wei_per_call :: wei
  re_amount_wei :: wei
  re_payout :: payout

definition payout_json :: "payout \<Rightarrow> json" where
  "payout_json p = JObj [(''chain_id'', json_word (po_chain_id p)), (''tx'', JStr (po_tx p))]"

definition payout_parse :: "json \<Rightarrow> payout option" where
  "payout_parse j =
     Option.bind (json_u64 j ''chain_id'') (\<lambda>c.
     Option.bind (json_str j ''tx'') (\<lambda>t. Some \<lparr>po_chain_id = c, po_tx = t\<rparr>))"

definition receipt_payload :: "libs \<Rightarrow> receipt \<Rightarrow> json" where
  "receipt_payload L r = JObj [
     (''agreement'', JStr (key_hex L (re_agreement r))),
     (''count'', json_word (re_count r)),
     (''wei_per_call'', wei_to_json L (re_wei_per_call r)),
     (''amount_wei'', wei_to_json L (re_amount_wei r)),
     (''payout'', payout_json (re_payout r))]"

definition receipt_parse :: "libs \<Rightarrow> json \<Rightarrow> (entity_key \<times> u64 \<times> wei \<times> wei \<times> payout) option" where
  "receipt_parse L j =
     Option.bind (Option.bind (json_str j ''agreement'') (parse_key L)) (\<lambda>a.
     Option.bind (json_u64 j ''count'') (\<lambda>c.
     Option.bind (json_wei L j ''wei_per_call'') (\<lambda>w.
     Option.bind (json_wei L j ''amount_wei'') (\<lambda>m.
     Option.bind (Option.bind (json_get j ''payout'') payout_parse) (\<lambda>p. Some (a, c, w, m, p))))))"

definition receipt_encode :: "libs \<Rightarrow> receipt \<Rightarrow> attributes" where
  "receipt_encode L r =
     encode_payload L
       (attributes_with (attributes_with (attributes_new KIND_RECEIPT)
          ''counter'' (Key (re_counter r))) ''provider'' (Addr (re_provider r)))
       (receipt_payload L r)"

definition receipt_decode_fields :: "libs \<Rightarrow> arkiv_entity \<Rightarrow> record_error + receipt" where
  "receipt_decode_fields L e =
     (let attributes = typed_attributes L e in
      rbind (payload_json L receipt_parse e) (\<lambda>(agreement, count, wei_per_call, amount_wei, payout).
      rbind (attr_key attributes ''counter'') (\<lambda>counter.
      rbind (attr_addr attributes ''provider'') (\<lambda>provider.
        Inr \<lparr>re_counter = counter, re_provider = provider, re_agreement = agreement,
          re_count = count, re_wei_per_call = wei_per_call, re_amount_wei = amount_wei,
          re_payout = payout\<rparr>))))"

lemma receipt_parse_payload: "text_laws L \<Longrightarrow> receipt_parse L (receipt_payload L r) =
    Some (re_agreement r, re_count r, re_wei_per_call r, re_amount_wei r, re_payout r)"
  by (simp add: receipt_parse_def receipt_payload_def json_read_simps text_lawsD payout_json_def
      payout_parse_def)

interpretation receipt: chain_record KIND_RECEIPT receipt_encode receipt_payload receipt_decode_fields
  by unfold_locales (simp_all add: receipt_encode_def encode_simps receipt_decode_fields_def
      payload_json_back receipt_parse_payload)

section \<open>Properties\<close>

definition stored_of :: "arkiv_entity \<Rightarrow> 'r \<Rightarrow> 'r stored" where
  "stored_of e r = \<lparr>st_key = e_key e, st_creator = e_creator e, st_created_at = e_created_at e,
     st_expires_at = e_expires_at e, st_record = r\<rparr>"


text \<open>Five records, and a JSON printer that tells their payloads apart by their number of fields.\<close>

definition sample_listing :: lb_listing where
  "sample_listing = \<lparr>ll_wei_per_call = 7, ll_tunnel_server = ''t'', ll_max_providers = 3\<rparr>"

definition sample_offer :: offer where
  "sample_offer = \<lparr>of_lb_listing = 4, of_specs = \<lparr>sp_chain_id = 1, sp_head = 2, sp_el = ''e'',
     sp_cl = ''c'', sp_hw = \<lparr>hw_cpus = 4, hw_mem_gb = 8\<rparr>\<rparr>\<rparr>"

definition sample_agreement :: agreement where
  "sample_agreement = \<lparr>ag_provider = 5, ag_offer = 6, ag_wei_per_call = 7, ag_remote_port = 7001\<rparr>"

definition sample_counter :: counter_record where
  "sample_counter = \<lparr>cr_agreement = 9, cr_provider = 5, cr_state = Closed, cr_count = 41,
     cr_wei_per_call = 7, cr_opened_block = 10, cr_closed_block = Some 20\<rparr>"

definition sample_receipt :: receipt where
  "sample_receipt = \<lparr>re_counter = 8, re_provider = 5, re_agreement = 9, re_count = 41,
     re_wei_per_call = 7, re_amount_wei = 287, re_payout = \<lparr>po_chain_id = 1, po_tx = ''0x1''\<rparr>\<rparr>"

fun field_count :: "json \<Rightarrow> bytes" where
  "field_count (JObj kvs) = [word_of_nat (length kvs)]"
| "field_count _ = []"

definition sample_libs :: libs where
  "sample_libs = std_libs\<lparr>json_to_vec := field_count, json_from_slice := (\<lambda>b.
     if b = [3] then Some (listing_payload std_libs sample_listing)
     else if b = [1] then Some (offer_payload std_libs sample_offer)
     else if b = [2] then Some (agreement_payload std_libs sample_agreement)
     else if b = [4] then Some (counter_payload std_libs sample_counter)
     else if b = [5] then Some (receipt_payload std_libs sample_receipt)
     else None)\<rparr>"

lemmas payload_defs = listing_payload_def offer_payload_def agreement_payload_def
  counter_payload_def receipt_payload_def wei_to_json_def

lemma sample_payloads:
  "listing_payload sample_libs r1 = listing_payload std_libs r1"
  "offer_payload sample_libs r2 = offer_payload std_libs r2"
  "agreement_payload sample_libs r3 = agreement_payload std_libs r3"
  "counter_payload sample_libs r4 = counter_payload std_libs r4"
  "receipt_payload sample_libs r5 = receipt_payload std_libs r5"
  by (simp_all add: payload_defs sample_libs_def cong: option.case_cong)

lemma sample_field_counts:
  "field_count (listing_payload std_libs r1) = [3]"
  "field_count (offer_payload std_libs r2) = [1]"
  "field_count (agreement_payload std_libs r3) = [2]"
  "field_count (counter_payload std_libs sample_counter) = [4]"
  "field_count (receipt_payload std_libs r5) = [5]"
  by (simp_all add: payload_defs sample_counter_def)

lemma sample_libs_prints:
  assumes "j \<in> {listing_payload sample_libs sample_listing, offer_payload sample_libs sample_offer,
        agreement_payload sample_libs sample_agreement, counter_payload sample_libs sample_counter,
        receipt_payload sample_libs sample_receipt}"
  shows "json_from_slice sample_libs (json_to_vec sample_libs j) = Some j"
  using assms unfolding sample_payloads insert_iff empty_iff
  by (elim disjE; hypsubst?) (simp_all add: sample_libs_def sample_field_counts del: field_count.simps)

lemma sample_libs_text_laws: "text_laws sample_libs"
  using std_libs_text_laws by (simp add: text_laws_def sample_libs_def)


end
