(* ===== verification/Http.thy ===== *)
theory Http
  imports Libs
begin

text \<open>
  What the load balancer sees of an HTTP exchange it started: a transport error, or a status
  line with an optional declared length and a body that arrives in chunks and may break off.
  Every reader of an untrusted body collects it under a byte cap; that loop is here once.
\<close>

datatype http_error = TimedOutError | TransportError

record http_response =
  hr_status :: nat
  hr_content_length :: "u64 option"
  hr_chunks :: "bytes list"
  hr_broken :: "http_error option"

type_synonym exchange = "http_error + http_response"

definition is_success :: "nat \<Rightarrow> bool" where
  "is_success status = (200 \<le> status \<and> status < 300)"

text \<open>
  The loop over \<open>chunk()\<close>: a chunk that would take the body past the cap stops it. What
  ended the body after the last chunk, an error or its end, is the third case.
\<close>

datatype collected = OverCap | Broken http_error | Whole bytes

fun collect_chunks :: "nat \<Rightarrow> http_error option \<Rightarrow> bytes \<Rightarrow> bytes list \<Rightarrow> collected" where
  "collect_chunks cap broken body [] = (case broken of None \<Rightarrow> Whole body | Some e \<Rightarrow> Broken e)"
| "collect_chunks cap broken body (c # cs) =
     (if length body + length c > cap then OverCap else collect_chunks cap broken (body @ c) cs)"

definition declared_over_cap :: "nat \<Rightarrow> http_response \<Rightarrow> bool" where
  "declared_over_cap cap r =
     (case hr_content_length r of None \<Rightarrow> False | Some n \<Rightarrow> n > word_of_nat cap)"

lemma collect_chunks_Whole:
  "collect_chunks cap broken body cs = Whole b \<Longrightarrow> b = body @ concat cs \<and> broken = None"
  by (induction cs arbitrary: body) (fastforce split: option.splits if_splits)+

lemma collect_chunks_le:
  "collect_chunks cap broken body cs = Whole b \<Longrightarrow> length body \<le> cap \<Longrightarrow> length b \<le> cap"
  by (induction cs arbitrary: body) (auto split: option.splits if_splits)

text \<open>Within the cap, the loop returns the body as it was sent.\<close>

lemma collect_chunks_complete:
  "length body + length (concat cs) \<le> cap \<Longrightarrow> collect_chunks cap None body cs = Whole (body @ concat cs)"
  by (induction cs arbitrary: body) auto

lemma collect_chunks_over:
  "collect_chunks cap broken body cs = OverCap \<Longrightarrow> cap < length body + length (concat cs)"
  by (induction cs arbitrary: body) (fastforce split: option.splits if_splits)+

lemma collect_chunks_over_iff:
  assumes "length body \<le> cap"
  shows "collect_chunks cap broken body cs = OverCap \<longleftrightarrow> cap < length body + length (concat cs)"
  using assms
proof (induction cs arbitrary: body)
  case Nil
  then show ?case by (auto split: option.splits)
next
  case (Cons c cs)
  then show ?case
    using Cons.IH [of "body @ c"] by (auto simp: not_less)
qed

lemma collect_chunks_eq:
  "length body \<le> cap \<Longrightarrow> collect_chunks cap broken body cs =
     (if cap < length body + length (concat cs) then OverCap
      else case broken of None \<Rightarrow> Whole (body @ concat cs) | Some e \<Rightarrow> Broken e)"
proof (induction cs arbitrary: body)
  case (Cons c cs)
  then show ?case using Cons.IH [of "body @ c"] by (auto split: option.splits)
qed (auto split: option.splits)

end
