(* ===== verification/Reader.thy ===== *)
theory Reader
  imports Records Http
begin

text \<open>
  \<open>crates/lb/src/chain/reader.rs\<close>: the queries the load balancer asks and their text, the
  blocks it compares, and the reading of an answer of the reference, from the HTTP exchange to
  the value. The exchange itself is a parameter.
\<close>

section \<open>Queries\<close>

definition PAGE_LIMIT :: u64 where
  "PAGE_LIMIT = 100"

datatype condition =
    CondKey entity_key
  | CondCreator address
  | CondAttribute string attribute_value
  | CondExpiresAfter u64
  | CondExpiresBy u64

record query =
  q_conditions :: "condition list"
  q_at_block :: "u64 option"

definition query_kind :: "string \<Rightarrow> query" where
  "query_kind kind = \<lparr>
     q_conditions = [CondAttribute ''kind'' (Str kind), CondAttribute ''v'' (I32 SCHEMA_VERSION)],
     q_at_block = None\<rparr>"

definition query_by_key :: "entity_key \<Rightarrow> query" where
  "query_by_key key = \<lparr>q_conditions = [CondKey key], q_at_block = None\<rparr>"

definition query_push :: "condition \<Rightarrow> query \<Rightarrow> query" where
  "query_push c q = q\<lparr>q_conditions := q_conditions q @ [c]\<rparr>"

definition query_at_block :: "u64 \<Rightarrow> query \<Rightarrow> query" where
  "query_at_block block q = q\<lparr>q_at_block := Some block\<rparr>"

definition query_creator :: "address \<Rightarrow> query \<Rightarrow> query" where
  "query_creator creator q = query_push (CondCreator creator) q"

definition query_key :: "entity_key \<Rightarrow> query \<Rightarrow> query" where
  "query_key key q = query_push (CondKey key) q"

definition query_attribute :: "string \<Rightarrow> attribute_value \<Rightarrow> query \<Rightarrow> query" where
  "query_attribute name v q = query_push (CondAttribute name v) q"

definition query_attr_addr :: "string \<Rightarrow> address \<Rightarrow> query \<Rightarrow> query" where
  "query_attr_addr name v q = query_attribute name (Addr v) q"

definition query_attr_str :: "string \<Rightarrow> string \<Rightarrow> query \<Rightarrow> query" where
  "query_attr_str name v q = query_attribute name (Str v) q"

definition query_attr_u64 :: "string \<Rightarrow> u64 \<Rightarrow> query \<Rightarrow> query" where
  "query_attr_u64 name v q = query_attribute name (U64 v) q"

definition query_attr_key :: "string \<Rightarrow> entity_key \<Rightarrow> query \<Rightarrow> query" where
  "query_attr_key name v q = query_attribute name (Key v) q"

definition query_expires_after :: "u64 \<Rightarrow> query \<Rightarrow> query" where
  "query_expires_after head q = query_push (CondExpiresAfter head) q"

definition query_expires_by :: "u64 \<Rightarrow> query \<Rightarrow> query" where
  "query_expires_by block q = query_push (CondExpiresBy block) q"

lemmas query_defs = query_kind_def query_by_key_def query_push_def query_at_block_def
  query_creator_def query_key_def query_attribute_def query_attr_addr_def query_attr_str_def
  query_attr_u64_def query_attr_key_def query_expires_after_def query_expires_by_def

text \<open>
  The query's text. A string literal's only escape is a quote doubled. A byte string cannot be
  filtered on: the source panics, here \<open>None\<close>.
\<close>

definition quote_char :: char where
  "quote_char = char_of (39 :: nat)"

fun double_quotes :: "string \<Rightarrow> string" where
  "double_quotes [] = []"
| "double_quotes (c # cs) =
     (if c = quote_char then quote_char # quote_char # double_quotes cs else c # double_quotes cs)"

definition dec_int :: "int \<Rightarrow> string" where
  "dec_int n = (if n < 0 then ''-'' @ dec (nat (- n)) else dec (nat n))"

fun literal_text :: "libs \<Rightarrow> attribute_value \<Rightarrow> string option" where
  "literal_text L (Str s) = Some (''str('' @ [quote_char] @ double_quotes s @ [quote_char] @ '')'')"
| "literal_text L (I32 n) = Some (''i32('' @ dec_int (sint n) @ '')'')"
| "literal_text L (U64 n) = Some (''u64('' @ dec_word n @ '')'')"
| "literal_text L (Addr a) = Some (''addr('' @ addr_hex L a @ '')'')"
| "literal_text L (Key k) = Some (''key('' @ key_hex L k @ '')'')"
| "literal_text L (Bytes _) = None"

fun condition_text :: "libs \<Rightarrow> condition \<Rightarrow> string option" where
  "condition_text L (CondKey k) = Some (''$key = key('' @ key_hex L k @ '')'')"
| "condition_text L (CondCreator a) = Some (''$creator = addr('' @ addr_hex L a @ '')'')"
| "condition_text L (CondAttribute name v) = map_option (\<lambda>t. name @ '' = '' @ t) (literal_text L v)"
| "condition_text L (CondExpiresAfter head) = Some (''$expiresAt > u64('' @ dec_word head @ '')'')"
| "condition_text L (CondExpiresBy block) = Some (''$expiresAt <= u64('' @ dec_word block @ '')'')"

fun all_some :: "'a option list \<Rightarrow> 'a list option" where
  "all_some [] = Some []"
| "all_some (None # xs) = None"
| "all_some (Some x # xs) = map_option ((#) x) (all_some xs)"

fun join_texts :: "string \<Rightarrow> string list \<Rightarrow> string" where
  "join_texts sep [] = []"
| "join_texts sep [t] = t"
| "join_texts sep (t # ts) = t @ sep @ join_texts sep ts"

definition query_text :: "libs \<Rightarrow> query \<Rightarrow> string option" where
  "query_text L q = map_option (join_texts '' AND '') (all_some (map (condition_text L) (q_conditions q)))"

text \<open>
  A string literal cannot end early: what follows the opening quote reads back as the string
  and stops at the closing quote, however many quotes the string holds.
\<close>

fun read_quoted :: "string \<Rightarrow> (string \<times> string) option" where
  "read_quoted [] = None"
| "read_quoted (c # cs) =
     (if c = quote_char then
        (case cs of
           d # ds \<Rightarrow> if d = quote_char then map_option (apfst ((#) quote_char)) (read_quoted ds)
                    else Some ([], cs)
         | [] \<Rightarrow> Some ([], []))
      else map_option (apfst ((#) c)) (read_quoted cs))"

lemma read_quoted_literal:
  assumes "rest = [] \<or> hd rest \<noteq> quote_char"
  shows "read_quoted (double_quotes s @ quote_char # rest) = Some (s, rest)"
proof (induction s)
  case Nil
  from assms show ?case by (cases rest) auto
qed auto

lemma all_some_total: "(\<forall>x \<in> set xs. x \<noteq> None) \<longleftrightarrow> (\<exists>ys. all_some xs = Some ys)"
  by (induction xs rule: all_some.induct) auto

definition filters_bytes :: "condition \<Rightarrow> bool" where
  "filters_bytes c = (case c of CondAttribute _ (Bytes _) \<Rightarrow> True | _ \<Rightarrow> False)"

lemma condition_text_total: "condition_text L c = None \<longleftrightarrow> filters_bytes c"
proof (cases c)
  case (CondAttribute name v)
  then show ?thesis by (cases v) (simp_all add: filters_bytes_def)
qed (simp_all add: filters_bytes_def)

lemma query_text_total: "(\<exists>t. query_text L q = Some t) \<longleftrightarrow> (\<forall>c \<in> set (q_conditions q). \<not> filters_bytes c)"
  by (simp add: query_text_def all_some_total [symmetric] condition_text_total del: not_None_eq)

section \<open>Blocks and pages\<close>

record page =
  pg_entities :: "arkiv_entity list"
  pg_more :: bool
  pg_block :: u64

datatype block_at = Finalized | BlockNumber u64

record block_fields =
  bf_number :: u64
  bf_hash :: u256
  bf_parent_hash :: u256
  bf_state_root :: u256
  bf_transactions_root :: u256
  bf_receipts_root :: u256
  bf_transactions :: "u256 list"

fun block_param :: "block_at \<Rightarrow> json" where
  "block_param Finalized = JStr ''finalized''"
| "block_param (BlockNumber n) = JStr (hex_quantity_text (unat n))"

datatype read_error =
    ReadTransport http_error
  | ReadStatus nat
  | ReadRpc int string
  | ReadUnexpected
  | ReadTooLarge nat

section \<open>Reading an answer\<close>

definition read_body :: "nat \<Rightarrow> http_response \<Rightarrow> read_error + bytes" where
  "read_body cap r =
     (if declared_over_cap cap r then Inl (ReadTooLarge cap)
      else case collect_chunks cap (hr_broken r) [] (hr_chunks r) of
             OverCap \<Rightarrow> Inl (ReadTooLarge cap)
           | Broken e \<Rightarrow> Inl (ReadTransport e)
           | Whole body \<Rightarrow> Inr body)"

text \<open>The JSON-RPC envelope: an optional result and an optional error, null read as absent.\<close>

definition rpc_error_parse :: "json \<Rightarrow> (int \<times> string) option" where
  "rpc_error_parse j =
     Option.bind (Option.bind (json_get j ''code'') as_i64) (\<lambda>code.
     Option.bind (json_str j ''message'') (\<lambda>message. Some (code, message)))"

definition rpc_answer :: "json \<Rightarrow> read_error + json" where
  "rpc_answer j =
     (case j of
        JObj kvs \<Rightarrow>
          (case map_of kvs ''error'' of
             None \<Rightarrow> Inr (case map_of kvs ''result'' of None \<Rightarrow> JNull | Some v \<Rightarrow> v)
           | Some JNull \<Rightarrow> Inr (case map_of kvs ''result'' of None \<Rightarrow> JNull | Some v \<Rightarrow> v)
           | Some e \<Rightarrow>
               (case rpc_error_parse e of
                  None \<Rightarrow> Inl ReadUnexpected
                | Some (code, message) \<Rightarrow> Inl (ReadRpc code message)))
      | _ \<Rightarrow> Inl ReadUnexpected)"

definition reader_call :: "libs \<Rightarrow> nat \<Rightarrow> exchange \<Rightarrow> read_error + json" where
  "reader_call L cap x =
     (case x of
        Inl e \<Rightarrow> Inl (ReadTransport e)
      | Inr r \<Rightarrow>
          if \<not> is_success (hr_status r) then Inl (ReadStatus (hr_status r))
          else rbind (read_body cap r) (\<lambda>body.
               rbind (ok_or ReadUnexpected (json_from_slice L body)) rpc_answer))"

definition read_block_number :: "libs \<Rightarrow> nat \<Rightarrow> exchange \<Rightarrow> read_error + u64" where
  "read_block_number L cap x =
     rbind (reader_call L cap x) (\<lambda>result. ok_or ReadUnexpected (parse_u64 result))"

definition json_quantity :: "json \<Rightarrow> string \<Rightarrow> u64 option" where
  "json_quantity j k = Option.bind (json_get j k) parse_u64"

definition json_key :: "libs \<Rightarrow> json \<Rightarrow> string \<Rightarrow> u256 option" where
  "json_key L j k = Option.bind (json_str j k) (parse_key L)"

definition json_list :: "(json \<Rightarrow> 'a option) \<Rightarrow> json \<Rightarrow> 'a list option" where
  "json_list f j = (case j of JArr js \<Rightarrow> all_some (map f js) | _ \<Rightarrow> None)"

definition block_parse :: "libs \<Rightarrow> json \<Rightarrow> block_fields option" where
  "block_parse L j =
     Option.bind (json_quantity j ''number'') (\<lambda>number.
     Option.bind (json_key L j ''hash'') (\<lambda>hash.
     Option.bind (json_key L j ''parentHash'') (\<lambda>parent_hash.
     Option.bind (json_key L j ''stateRoot'') (\<lambda>state_root.
     Option.bind (json_key L j ''transactionsRoot'') (\<lambda>transactions_root.
     Option.bind (json_key L j ''receiptsRoot'') (\<lambda>receipts_root.
     Option.bind (Option.bind (json_get j ''transactions'')
         (json_list (\<lambda>t. Option.bind (as_str t) (parse_key L)))) (\<lambda>transactions.
       Some \<lparr>bf_number = number, bf_hash = hash, bf_parent_hash = parent_hash,
         bf_state_root = state_root, bf_transactions_root = transactions_root,
         bf_receipts_root = receipts_root, bf_transactions = transactions\<rparr>)))))))"

definition read_block :: "libs \<Rightarrow> nat \<Rightarrow> exchange \<Rightarrow> read_error + block_fields option" where
  "read_block L cap x =
     rbind (reader_call L cap x) (\<lambda>result.
       if result = JNull then Inr None
       else rbind (ok_or ReadUnexpected (block_parse L result)) (\<lambda>b. Inr (Some b)))"

definition attribute_parse :: "json \<Rightarrow> arkiv_attribute option" where
  "attribute_parse j =
     Option.bind (json_str j ''name'') (\<lambda>name.
     Option.bind (json_str j ''type'') (\<lambda>tag.
     Option.bind (json_get j ''value'') (\<lambda>value.
       Some \<lparr>at_name = name, at_type = tag, at_value = value\<rparr>)))"

definition entity_parse :: "libs \<Rightarrow> json \<Rightarrow> arkiv_entity option" where
  "entity_parse L j =
     Option.bind (json_key L j ''key'') (\<lambda>key.
     Option.bind (Option.bind (json_str j ''creator'') (parse_addr L)) (\<lambda>creator.
     Option.bind (json_quantity j ''createdAt'') (\<lambda>created_at.
     Option.bind (json_quantity j ''updatedAt'') (\<lambda>updated_at.
     Option.bind (json_quantity j ''expiresAt'') (\<lambda>expires_at.
     Option.bind (case json_get j ''attributes'' of
                    None \<Rightarrow> Some [] | Some v \<Rightarrow> json_list attribute_parse v) (\<lambda>attributes.
       Some \<lparr>e_key = key, e_creator = creator, e_created_at = created_at,
         e_updated_at = updated_at, e_expires_at = expires_at, e_attributes = attributes\<rparr>))))))"

definition page_parse :: "libs \<Rightarrow> json \<Rightarrow> page option" where
  "page_parse L j =
     Option.bind (case json_get j ''data'' of
                    None \<Rightarrow> Some [] | Some v \<Rightarrow> json_list (entity_parse L) v) (\<lambda>data.
     Option.bind (case json_get j ''cursor'' of
                    None \<Rightarrow> Some False | Some JNull \<Rightarrow> Some False
                  | Some v \<Rightarrow> map_option (\<lambda>_. True) (as_str v)) (\<lambda>more.
     Option.bind (json_quantity j ''blockNumber'') (\<lambda>block.
       Some \<lparr>pg_entities = data, pg_more = more, pg_block = block\<rparr>)))"

definition read_query :: "libs \<Rightarrow> nat \<Rightarrow> exchange \<Rightarrow> read_error + page" where
  "read_query L cap x =
     rbind (reader_call L cap x) (\<lambda>result. ok_or ReadUnexpected (page_parse L result))"

definition read_count :: "libs \<Rightarrow> nat \<Rightarrow> exchange \<Rightarrow> read_error + u64" where
  "read_count L cap x =
     rbind (reader_call L cap x) (\<lambda>result.
       ok_or ReadUnexpected (Option.bind (json_get result ''count'') parse_u64))"

text \<open>An account's balance; \<open>quantity\<close> is alloy's reading of a hex quantity.\<close>

definition read_balance :: "libs \<Rightarrow> (json \<Rightarrow> u256 option) \<Rightarrow> nat \<Rightarrow> exchange \<Rightarrow> read_error + u256" where
  "read_balance L quantity cap x =
     rbind (reader_call L cap x) (\<lambda>result. ok_or ReadUnexpected (quantity result))"

lemma read_body_Inr:
  assumes "read_body cap r = Inr body"
  shows "body = concat (hr_chunks r) \<and> length body \<le> cap \<and> hr_broken r = None"
  using assms collect_chunks_Whole [of cap "hr_broken r" "[]" "hr_chunks r" body]
    collect_chunks_le [of cap "hr_broken r" "[]" "hr_chunks r" body]
  by (auto simp: read_body_def split: if_splits collected.splits)

lemma reader_call_Inr_capped:
  assumes "reader_call L cap (Inr r) = Inr v"
  shows "length (concat (hr_chunks r)) \<le> cap \<and> is_success (hr_status r)"
  using assms by (auto simp: reader_call_def result_simps dest: read_body_Inr split: if_splits)

text \<open>The interface a client of the chain is given; \<open>'w\<close> is everything an await may change.\<close>

record 'w chain_reader =
  rd_block_number :: "'w \<Rightarrow> 'w \<times> (read_error + u64)"
  rd_block :: "'w \<Rightarrow> block_at \<Rightarrow> 'w \<times> (read_error + block_fields option)"
  rd_balance :: "'w \<Rightarrow> address \<Rightarrow> 'w \<times> (read_error + u256)"
  rd_query :: "'w \<Rightarrow> query \<Rightarrow> 'w \<times> (read_error + page)"
  rd_count :: "'w \<Rightarrow> query \<Rightarrow> 'w \<times> (read_error + u64)"

section \<open>Properties\<close>

text \<open>
  C38. A query cannot be broken out of. Whatever string a condition compares with, its literal
  reads back as exactly that string and ends at its own closing quote, so no value adds a
  condition of its own or changes another's; and a query has a text exactly when it filters on no
  byte string.
\<close>

theorem query_literals_contained:
  "(\<exists>body. literal_text L (Str s) = Some (''str('' @ quote_char # body) \<and>
      read_quoted (body @ rest) = Some (s, CHR '')'' # rest)) \<and>
   (literal_text L (Str s) = literal_text L (Str t) \<longleftrightarrow> s = t) \<and>
   (query_text L q = None \<longleftrightarrow> (\<exists>name b. CondAttribute name (Bytes b) \<in> set (q_conditions q)))"
proof (intro conjI)
  have read: "read_quoted (double_quotes u @ quote_char # CHR '')'' # rest) = Some (u, CHR '')'' # rest)" for u
    by (rule read_quoted_literal) (simp add: quote_char_def char_of_def)
  show "\<exists>body. literal_text L (Str s) = Some (''str('' @ quote_char # body) \<and>
      read_quoted (body @ rest) = Some (s, CHR '')'' # rest)"
    using read [of s] by (intro exI [of _ "double_quotes s @ quote_char # '')''"]) simp
  have again: "read_quoted (double_quotes u @ [quote_char, CHR '')'']) = Some (u, [CHR '')''])" for u
    using read_quoted_literal [of "[CHR '')'']" u] by (simp add: quote_char_def char_of_def)
  have "s = t" if "double_quotes s @ [quote_char, CHR '')''] = double_quotes t @ [quote_char, CHR '')'']"
    using again [of s] again [of t] unfolding that by simp
  then show "literal_text L (Str s) = literal_text L (Str t) \<longleftrightarrow> s = t" by auto
  have "filters_bytes c \<longleftrightarrow> (\<exists>name b. c = CondAttribute name (Bytes b))" for c
    by (cases c) (simp_all add: filters_bytes_def split: attribute_value.split)
  with query_text_total [of L q] show "query_text L q = None \<longleftrightarrow>
      (\<exists>name b. CondAttribute name (Bytes b) \<in> set (q_conditions q))" by auto
qed

text \<open>
  What a call answers. A call succeeds exactly when a success status carries a body that
  is complete, was not declared over the cap, does not pass it, and is a JSON-RPC answer without
  an error; a body over the cap, declared or delivered, is the error that says so, whatever it
  holds.
\<close>

theorem reader_call_answers_iff:
  "(reader_call L cap x = Inr v \<longleftrightarrow>
     (\<exists>r j. x = Inr r \<and> is_success (hr_status r) \<and> \<not> declared_over_cap cap r \<and> hr_broken r = None \<and>
        length (concat (hr_chunks r)) \<le> cap \<and>
        json_from_slice L (concat (hr_chunks r)) = Some j \<and> rpc_answer j = Inr v)) \<and>
   (reader_call L cap x = Inl (ReadTooLarge n) \<longleftrightarrow>
     (\<exists>r. x = Inr r \<and> is_success (hr_status r) \<and> n = cap \<and>
        (declared_over_cap cap r \<or> cap < length (concat (hr_chunks r)))))"
proof -
  have not_large: "rpc_answer j \<noteq> Inl (ReadTooLarge n)" for j
    by (auto simp: rpc_answer_def split: json.splits option.splits)
  have parse: "rbind (ok_or ReadUnexpected p) rpc_answer = Inl (ReadTooLarge n) \<longleftrightarrow> False" for p
    using not_large by (cases p) auto
  show ?thesis
    using parse
    by (cases x) (auto simp: reader_call_def read_body_def collect_chunks_eq result_simps split: option.splits)
qed

end
