(* ===== verification/Writer.thy ===== *)
theory Writer
  imports Records Http "HOL-Library.Multiset"
begin

text \<open>
  \<open>crates/lb/src/chain/writer.rs\<close>: the operations of a write, batches and their splitting, the
  body the sidecar is sent, and the reading of its answer. \<open>'w\<close> is the state of whatever stands
  behind the sidecar: a call takes it and returns it with the answer.
\<close>

section \<open>Operations and batches\<close>

datatype expiry = Seconds u64

record create_op =
  co_attributes :: attributes
  co_expiration :: expiry

record patch_op =
  po_entity_key :: entity_key
  po_set :: attributes

record extend_op =
  eo_entity_key :: entity_key
  eo_expiration :: expiry

record delete_op =
  do_entity_key :: entity_key

datatype operation =
    Create create_op
  | Patch patch_op
  | Delete delete_op
  | Extend extend_op

type_synonym batch = "operation list"

definition create_new :: "attributes \<Rightarrow> expiry \<Rightarrow> create_op" where
  "create_new attributes expiration = \<lparr>co_attributes = attributes, co_expiration = expiration\<rparr>"

definition batch_push :: "operation \<Rightarrow> batch \<Rightarrow> batch" where
  "batch_push operation b = b @ [operation]"

definition batch_single :: "operation \<Rightarrow> batch" where
  "batch_single operation = batch_push operation []"

definition halves :: "batch \<Rightarrow> (batch \<times> batch) option" where
  "halves b = (if length b < 2 then None
               else Some (take (length b div 2) b, drop (length b div 2) b))"

text \<open>The sidecar's batch body: the operations by kind, a kind left out when it has none.\<close>

fun expiry_json :: "expiry \<Rightarrow> json" where
  "expiry_json (Seconds n) = JObj [(''seconds'', json_word n)]"

definition create_json :: "libs \<Rightarrow> create_op \<Rightarrow> json" where
  "create_json L c = JObj [(''attributes'', attributes_to_wire L (co_attributes c)),
     (''expiration'', expiry_json (co_expiration c))]"

definition patch_json :: "libs \<Rightarrow> patch_op \<Rightarrow> json" where
  "patch_json L p = JObj [(''entityKey'', JStr (key_hex L (po_entity_key p))),
     (''set'', attributes_to_wire L (po_set p))]"

definition delete_json :: "libs \<Rightarrow> delete_op \<Rightarrow> json" where
  "delete_json L d = JObj [(''entityKey'', JStr (key_hex L (do_entity_key d)))]"

definition extend_json :: "libs \<Rightarrow> extend_op \<Rightarrow> json" where
  "extend_json L e = JObj [(''entityKey'', JStr (key_hex L (eo_entity_key e))),
     (''expiration'', expiry_json (eo_expiration e))]"

definition creates :: "batch \<Rightarrow> create_op list" where
  "creates b = List.map_filter (\<lambda>x. case x of Create c \<Rightarrow> Some c | _ \<Rightarrow> None) b"

definition patches :: "batch \<Rightarrow> patch_op list" where
  "patches b = List.map_filter (\<lambda>x. case x of Patch c \<Rightarrow> Some c | _ \<Rightarrow> None) b"

definition deletes :: "batch \<Rightarrow> delete_op list" where
  "deletes b = List.map_filter (\<lambda>x. case x of Delete c \<Rightarrow> Some c | _ \<Rightarrow> None) b"

definition extensions :: "batch \<Rightarrow> extend_op list" where
  "extensions b = List.map_filter (\<lambda>x. case x of Extend c \<Rightarrow> Some c | _ \<Rightarrow> None) b"

definition body_part :: "string \<Rightarrow> ('a \<Rightarrow> json) \<Rightarrow> 'a list \<Rightarrow> (string \<times> json) list" where
  "body_part name f xs = (if xs = [] then [] else [(name, JArr (map f xs))])"

definition batch_json :: "libs \<Rightarrow> batch \<Rightarrow> json" where
  "batch_json L b = JObj (
     body_part ''creates'' (create_json L) (creates b) @
     body_part ''patches'' (patch_json L) (patches b) @
     body_part ''deletes'' (delete_json L) (deletes b) @
     body_part ''extensions'' (extend_json L) (extensions b))"

lemmas by_kind_defs = creates_def patches_def deletes_def extensions_def

lemma by_kind_simps [simp]:
  "creates [] = []" "patches [] = []" "deletes [] = []" "extensions [] = []"
  "creates (x # b) = (case x of Create c \<Rightarrow> c # creates b | _ \<Rightarrow> creates b)"
  "patches (x # b) = (case x of Patch c \<Rightarrow> c # patches b | _ \<Rightarrow> patches b)"
  "deletes (x # b) = (case x of Delete c \<Rightarrow> c # deletes b | _ \<Rightarrow> deletes b)"
  "extensions (x # b) = (case x of Extend c \<Rightarrow> c # extensions b | _ \<Rightarrow> extensions b)"
  by (simp_all add: by_kind_defs List.map_filter_def split: operation.splits)

lemma by_kind_append [simp]:
  "creates (a @ b) = creates a @ creates b" "patches (a @ b) = patches a @ patches b"
  "deletes (a @ b) = deletes a @ deletes b" "extensions (a @ b) = extensions a @ extensions b"
  by (simp_all add: by_kind_defs List.map_filter_def)

lemma by_kind_total: "length (creates b) + length (patches b) + length (deletes b) + length (extensions b) = length b"
  by (induction b) (auto split: operation.splits)

lemma batch_eq_by_kind:
  "mset b = image_mset Create (mset (creates b)) + image_mset Patch (mset (patches b))
     + image_mset Delete (mset (deletes b)) + image_mset Extend (mset (extensions b))"
  by (induction b) (auto split: operation.splits)

section \<open>Answers\<close>

record created =
  cd_entity_key :: entity_key
  cd_tx_hash :: string
  cd_expires_at :: u64

record written =
  wr_entity_key :: entity_key
  wr_tx_hash :: string

record extended =
  xd_entity_key :: entity_key
  xd_tx_hash :: string
  xd_expires_at :: u64

record batch_result =
  br_tx_hash :: string
  br_created_entities :: "entity_key list"
  br_patched_entities :: "entity_key list"
  br_deleted_entities :: "entity_key list"
  br_extended_entities :: "entity_key list"

record identity =
  id_address :: address
  id_chain_id :: u64

record error_link =
  el_name :: string
  el_message :: string
  el_details :: "string option"

datatype write_error =
    Refused "error_link list"
  | TooLarge "error_link list"
  | Failed "error_link list"
  | Unresolved string "error_link list"
  | Unexpected nat
  | WriteTransport http_error

fun is_too_large :: "write_error + 'a \<Rightarrow> bool" where
  "is_too_large (Inl (TooLarge _)) = True"
| "is_too_large _ = False"

record 'w chain_writer =
  w_identity :: "'w \<Rightarrow> 'w \<times> (write_error + identity)"
  w_create :: "'w \<Rightarrow> create_op \<Rightarrow> 'w \<times> (write_error + created)"
  w_patch :: "'w \<Rightarrow> patch_op \<Rightarrow> 'w \<times> (write_error + written)"
  w_delete :: "'w \<Rightarrow> delete_op \<Rightarrow> 'w \<times> (write_error + written)"
  w_extend :: "'w \<Rightarrow> extend_op \<Rightarrow> 'w \<times> (write_error + extended)"
  w_execute_batch :: "'w \<Rightarrow> batch \<Rightarrow> 'w \<times> (write_error + batch_result)"

section \<open>Sending a batch\<close>

record sent =
  sn_batch :: batch
  sn_result :: "write_error + batch_result"

text \<open>
  The queue loop. Its measure: a chunk of \<open>n\<close> operations costs \<open>2 n - 1\<close>, more than its two
  halves together.
\<close>

definition chunk_cost :: "batch \<Rightarrow> nat" where
  "chunk_cost b = (if b = [] then 1 else 2 * length b - 1)"

lemma chunk_cost_pos [simp]: "0 < chunk_cost b"
  by (cases b) (auto simp: chunk_cost_def)

lemma halves_Some:
  assumes "halves b = Some (first, second)"
  shows "first @ second = b" "first \<noteq> []" "second \<noteq> []" "2 \<le> length b"
  using assms by (auto simp: halves_def split: if_splits)

lemma halves_cost: "halves b = Some (first, second) \<Longrightarrow> chunk_cost first + chunk_cost second < chunk_cost b"
proof -
  assume h: "halves b = Some (first, second)"
  then have "length b = length first + length second" using halves_Some(1) [OF h] by auto
  with halves_Some(2,3) [OF h] show ?thesis
    by (cases first; cases second) (auto simp: chunk_cost_def)
qed

function send_loop ::
    "('w \<Rightarrow> batch \<Rightarrow> 'w \<times> (write_error + batch_result)) \<Rightarrow> 'w \<Rightarrow> batch list \<Rightarrow> 'w \<times> sent list" where
  "send_loop exec w [] = (w, [])"
| "send_loop exec w (chunk # queue) =
     (case exec w chunk of
        (w', result) \<Rightarrow>
          (case (if is_too_large result then halves chunk else None) of
             Some (first, second) \<Rightarrow> send_loop exec w' (first # second # queue)
           | None \<Rightarrow>
               (case send_loop exec w' queue of
                  (w'', rest) \<Rightarrow> (w'', \<lparr>sn_batch = chunk, sn_result = result\<rparr> # rest))))"
  by pat_completeness auto
termination
  by (relation "measure (\<lambda>(exec, w, queue). sum_list (map chunk_cost queue))")
    (auto dest!: halves_cost split: if_splits)

definition send :: "'w chain_writer \<Rightarrow> 'w \<Rightarrow> batch \<Rightarrow> 'w \<times> sent list" where
  "send W w b = send_loop (w_execute_batch W) w (if b = [] then [] else [b])"

declare send_loop.simps(2) [simp del]

lemma send_loop_split:
  assumes "exec w chunk = (w', result)" "is_too_large result" "halves chunk = Some (first, second)"
  shows "send_loop exec w (chunk # queue) = send_loop exec w' (first # second # queue)"
  using assms by (simp add: send_loop.simps(2))

lemma send_loop_report:
  assumes "exec w chunk = (w', result)" "is_too_large result \<Longrightarrow> length chunk < 2"
  shows "send_loop exec w (chunk # queue) =
    (fst (send_loop exec w' queue),
     \<lparr>sn_batch = chunk, sn_result = result\<rparr> # snd (send_loop exec w' queue))"
  using assms by (auto simp: send_loop.simps(2) halves_def split: prod.splits)

text \<open>The loop's own induction: a refused chunk is split, any other is reported.\<close>

lemma send_loop_rule [case_names Nil Split Report]:
  assumes nil: "\<And>w. P w []"
    and split: "\<And>w chunk queue w' result first second. \<lbrakk>exec w chunk = (w', result);
      is_too_large result; halves chunk = Some (first, second);
      P w' (first # second # queue)\<rbrakk> \<Longrightarrow> P w (chunk # queue)"
    and report: "\<And>w chunk queue w' result. \<lbrakk>exec w chunk = (w', result);
      is_too_large result \<Longrightarrow> length chunk < 2; P w' queue\<rbrakk> \<Longrightarrow> P w (chunk # queue)"
  shows "P w queue"
proof (induction "sum_list (map chunk_cost queue)" arbitrary: w queue rule: less_induct)
  case less
  show ?case
  proof (cases queue)
    case Nil
    then show ?thesis by (simp add: nil)
  next
    case (Cons chunk rest)
    obtain w' result where e: "exec w chunk = (w', result)" by fastforce
    show ?thesis
    proof (cases "is_too_large result \<and> 2 \<le> length chunk")
      case True
      then obtain first second where h: "halves chunk = Some (first, second)"
        by (simp add: halves_def)
      have "P w' (first # second # rest)"
        using halves_cost [OF h] Cons by (intro less) simp
      with e True h Cons show ?thesis by (auto intro: split)
    next
      case False
      have "P w' rest" using Cons by (intro less) simp
      with e False Cons show ?thesis by (auto intro: report)
    qed
  qed
qed

text \<open>Every operation is reported, once, in the order of the batch.\<close>

lemma send_loop_concat:
  "concat (map sn_batch (snd (send_loop exec w queue))) = concat queue"
proof (induction w queue rule: send_loop_rule [of _ exec])
  case (Split w chunk queue w' result first second)
  then show ?case using halves_Some(1) [of chunk first second] by (auto simp: send_loop_split)
qed (simp_all add: send_loop_report)

text \<open>A chunk that ends as too large is one operation; every chunk holds something.\<close>

definition sent_ok :: "sent \<Rightarrow> bool" where
  "sent_ok s \<longleftrightarrow> sn_batch s \<noteq> [] \<and> (is_too_large (sn_result s) \<longrightarrow> length (sn_batch s) = 1)"

lemma send_loop_sent_ok:
  "\<forall>c \<in> set queue. c \<noteq> [] \<Longrightarrow> \<forall>s \<in> set (snd (send_loop exec w queue)). sent_ok s"
proof (induction w queue rule: send_loop_rule [of _ exec])
  case (Split w chunk queue w' result first second)
  with halves_Some(2,3) [of chunk first second] show ?case by (simp add: send_loop_split)
next
  case (Report w chunk queue w' result)
  then have "sent_ok \<lparr>sn_batch = chunk, sn_result = result\<rparr>"
    by (cases chunk) (auto simp: sent_ok_def)
  with Report show ?case by (simp add: send_loop_report)
qed simp

text \<open>
  A node that refuses only batches of more than \<open>limit\<close> operations ends up answering every
  part: no part is reported as too large.
\<close>

lemma send_loop_fits:
  assumes "\<And>w b. is_too_large (snd (exec w b)) \<Longrightarrow> limit < length b" "0 < limit"
  shows "\<forall>c \<in> set queue. c \<noteq> [] \<Longrightarrow> s \<in> set (snd (send_loop exec w queue)) \<Longrightarrow>
    \<not> is_too_large (sn_result s)"
proof (induction w queue rule: send_loop_rule [of _ exec])
  case (Split w chunk queue w' result first second)
  with halves_Some(2,3) [of chunk first second] show ?case by (simp add: send_loop_split)
next
  case (Report w chunk queue w' result)
  then have "\<not> is_too_large result"
    using assms(1) [of w chunk] assms(2) by (cases chunk) auto
  moreover have "snd (send_loop exec w (chunk # queue)) =
      \<lparr>sn_batch = chunk, sn_result = result\<rparr> # snd (send_loop exec w' queue)"
    using Report.hyps by (simp add: send_loop_report)
  ultimately show ?case using Report.IH Report.prems by auto
qed simp

text \<open>The number of transactions one batch can cost.\<close>

fun counting :: "('w \<Rightarrow> batch \<Rightarrow> 'w \<times> (write_error + batch_result)) \<Rightarrow>
    nat \<times> 'w \<Rightarrow> batch \<Rightarrow> (nat \<times> 'w) \<times> (write_error + batch_result)" where
  "counting exec (n, w) b = (case exec w b of (w', r) \<Rightarrow> ((Suc n, w'), r))"

lemma counting_fst: "counting exec nw b = (nw', r) \<Longrightarrow> fst nw' = Suc (fst nw)"
  by (cases nw) (auto split: prod.splits)

lemma send_loop_calls:
  "fst (fst (send_loop (counting exec) nw queue)) \<le> fst nw + sum_list (map chunk_cost queue)"
proof (induction nw queue rule: send_loop_rule [of _ "counting exec"])
  case (Split w chunk queue w' result first second)
  with halves_cost [of chunk first second] counting_fst [of exec w chunk w' result]
  show ?case by (simp add: send_loop_split)
next
  case (Report w chunk queue w' result)
  have "1 \<le> chunk_cost chunk" using chunk_cost_pos [of chunk] by linarith
  with Report counting_fst [of exec w chunk w' result] show ?case by (simp add: send_loop_report)
qed simp

lemma send_sound:
  assumes "send W w b = (w', rs)"
  shows "concat (map sn_batch rs) = b" "\<forall>s \<in> set rs. sent_ok s"
proof -
  let ?q = "if b = [] then [] else [b]"
  have rs: "rs = snd (send_loop (w_execute_batch W) w ?q)" using assms by (simp add: send_def)
  show "concat (map sn_batch rs) = b" unfolding rs send_loop_concat by simp
  show "\<forall>s \<in> set rs. sent_ok s" unfolding rs by (rule send_loop_sent_ok) simp
qed

section \<open>The sidecar's answer\<close>

definition json_link :: "json \<Rightarrow> error_link option" where
  "json_link j =
     Option.bind (json_str j ''name'') (\<lambda>name.
     Option.bind (json_str j ''message'') (\<lambda>message.
     Option.bind (case json_get j ''details'' of
                    None \<Rightarrow> Some None | Some JNull \<Rightarrow> Some None
                  | Some v \<Rightarrow> map_option Some (as_str v)) (\<lambda>details.
       Some \<lparr>el_name = name, el_message = message, el_details = details\<rparr>)))"

fun all_links :: "json list \<Rightarrow> error_link list option" where
  "all_links [] = Some []"
| "all_links (j # js) =
     Option.bind (json_link j) (\<lambda>l. Option.bind (all_links js) (\<lambda>ls. Some (l # ls)))"

definition error_body :: "json \<Rightarrow> (error_link list \<times> string option) option" where
  "error_body j =
     Option.bind (case json_get j ''error'' of
                    None \<Rightarrow> Some [] | Some (JArr js) \<Rightarrow> all_links js | Some _ \<Rightarrow> None) (\<lambda>links.
     Option.bind (case json_get j ''pending'' of
                    None \<Rightarrow> Some None | Some JNull \<Rightarrow> Some None
                  | Some p \<Rightarrow> map_option Some (json_str p ''txHash'')) (\<lambda>pending.
     (case j of JObj _ \<Rightarrow> Some (links, pending) | _ \<Rightarrow> None)))"

definition writer_post :: "libs \<Rightarrow> (json \<Rightarrow> 'r option) \<Rightarrow> exchange \<Rightarrow> write_error + 'r" where
  "writer_post L parse x =
     (case x of
        Inl e \<Rightarrow> Inl (WriteTransport e)
      | Inr r \<Rightarrow>
          (case hr_broken r of
             Some e \<Rightarrow> Inl (WriteTransport e)
           | None \<Rightarrow>
               (let status = hr_status r; text = json_from_slice L (concat (hr_chunks r)) in
                if status = 200 then ok_or (Unexpected status) (Option.bind text parse)
                else
                  (case Option.bind text error_body of
                     None \<Rightarrow> Inl (Unexpected status)
                   | Some (links, pending) \<Rightarrow>
                       Inl (if status = 400 then Refused links
                            else if status = 413 then TooLarge links
                            else if status = 500 then Failed links
                            else case pending of
                                   Some tx_hash \<Rightarrow>
                                     if status = 504 then Unresolved tx_hash links else Unexpected status
                                 | None \<Rightarrow> Unexpected status)))))"

definition writer_identity :: "libs \<Rightarrow> (json \<Rightarrow> identity option) \<Rightarrow> exchange \<Rightarrow> write_error + identity" where
  "writer_identity L parse x =
     (case x of
        Inl e \<Rightarrow> Inl (WriteTransport e)
      | Inr r \<Rightarrow>
          (case hr_broken r of
             Some e \<Rightarrow> Inl (WriteTransport e)
           | None \<Rightarrow>
               if hr_status r \<noteq> 200 then Inl (Unexpected (hr_status r))
               else ok_or (Unexpected (hr_status r))
                      (Option.bind (json_from_slice L (concat (hr_chunks r))) parse)))"

text \<open>Which status decides which error, and that only a 200 is a landed write.\<close>

lemma writer_post_Inr:
  "writer_post L parse (Inr r) = Inr v \<Longrightarrow> hr_status r = 200 \<and> hr_broken r = None \<and>
     Option.bind (json_from_slice L (concat (hr_chunks r))) parse = Some v"
  by (auto simp: writer_post_def Let_def result_simps split: option.splits if_splits prod.splits)

lemma ok_or_simps [simp]:
  "is_too_large (ok_or e x) \<longleftrightarrow> x = None \<and> is_too_large (Inl e :: write_error + 'a)"
  "ok_or e x = Inl e' \<longleftrightarrow> x = None \<and> e = e'" for x :: "'a option"
  by (cases x; simp)+

lemma writer_post_unresolved:
  "writer_post L parse (Inr r) = Inl (Unresolved tx links) \<Longrightarrow> hr_status r = 504"
  by (auto simp: writer_post_def Let_def split: option.splits if_splits prod.splits)

lemma writer_post_too_large:
  "is_too_large (writer_post L parse (Inr r)) \<Longrightarrow> hr_status r = 413"
  by (auto simp: writer_post_def Let_def split: option.splits if_splits prod.splits)

section \<open>Properties\<close>

text \<open>
  C36. A batch is sent whole. However the writer answers, every operation of the batch is
  reported exactly once and in order, no part is empty, and only a single operation is ever
  reported as too large; a batch of \<open>n\<close> operations costs at most \<open>2 n - 1\<close> requests. When the
  writer refuses only batches of more than some positive size, no operation is left out as too
  large.
\<close>

theorem send_reports_every_operation:
  assumes "send W w b = (w', rs)"
  shows "concat (map sn_batch rs) = b \<and>
    (\<forall>s \<in> set rs. sn_batch s \<noteq> [] \<and> (is_too_large (sn_result s) \<longrightarrow> length (sn_batch s) = 1)) \<and>
    fst (fst (send_loop (counting (w_execute_batch W)) (0, w) [b])) \<le> (if b = [] then 1 else 2 * length b - 1) \<and>
    ((\<forall>v c. is_too_large (snd (w_execute_batch W v c)) \<longrightarrow> limit < length c) \<and> 0 < limit \<longrightarrow>
       (\<forall>s \<in> set rs. \<not> is_too_large (sn_result s)))"
proof (intro conjI impI)
  show "concat (map sn_batch rs) = b" by (rule send_sound(1) [OF assms])
  show "\<forall>s \<in> set rs. sn_batch s \<noteq> [] \<and> (is_too_large (sn_result s) \<longrightarrow> length (sn_batch s) = 1)"
    using send_sound(2) [OF assms] by (simp add: sent_ok_def)
  show "fst (fst (send_loop (counting (w_execute_batch W)) (0, w) [b])) \<le> (if b = [] then 1 else 2 * length b - 1)"
    using send_loop_calls [of "w_execute_batch W" "(0, w)" "[b]"] by (simp add: chunk_cost_def)
  assume lim: "(\<forall>v c. is_too_large (snd (w_execute_batch W v c)) \<longrightarrow> limit < length c) \<and> 0 < limit"
  have rs: "rs = snd (send_loop (w_execute_batch W) w (if b = [] then [] else [b]))"
    using assms by (simp add: send_def)
  show "\<forall>s \<in> set rs. \<not> is_too_large (sn_result s)"
  proof
    fix s assume "s \<in> set rs"
    with lim show "\<not> is_too_large (sn_result s)"
      unfolding rs by (intro send_loop_fits [of "w_execute_batch W" limit]) (auto split: if_splits)
  qed
qed

text \<open>A writer that takes at most one operation at a time.\<close>

definition one_at_a_time :: "unit chain_writer" where
  "one_at_a_time = \<lparr>
     w_identity = (\<lambda>w. (w, Inr \<lparr>id_address = 1, id_chain_id = 1\<rparr>)),
     w_create = (\<lambda>w _. (w, Inl (Unexpected 500))),
     w_patch = (\<lambda>w _. (w, Inl (Unexpected 500))),
     w_delete = (\<lambda>w _. (w, Inl (Unexpected 500))),
     w_extend = (\<lambda>w _. (w, Inl (Unexpected 500))),
     w_execute_batch = (\<lambda>w b. (w,
       if 1 < length b then Inl (TooLarge [])
       else Inr \<lparr>br_tx_hash = [], br_created_entities = [], br_patched_entities = [],
              br_deleted_entities = [], br_extended_entities = []\<rparr>))\<rparr>"

lemma send_reports_every_operation_witness:
  "\<exists>rs. send one_at_a_time () [Delete \<lparr>do_entity_key = 3\<rparr>, Delete \<lparr>do_entity_key = 4\<rparr>] = ((), rs) \<and>
     concat (map sn_batch rs) = [Delete \<lparr>do_entity_key = 3\<rparr>, Delete \<lparr>do_entity_key = 4\<rparr>] \<and>
     list_all (\<lambda>s. \<not> is_too_large (sn_result s)) rs"
proof -
  let ?b = "[Delete \<lparr>do_entity_key = 3\<rparr>, Delete \<lparr>do_entity_key = 4\<rparr>]"
  obtain rs where s: "send one_at_a_time () ?b = ((), rs)"
    by (cases "send one_at_a_time () ?b") simp
  moreover have "\<forall>v c. is_too_large (snd (w_execute_batch one_at_a_time v c)) \<longrightarrow> 1 < length c"
    by (simp add: one_at_a_time_def)
  ultimately show ?thesis
    using send_reports_every_operation [OF s, of 1] by (auto simp: list_all_iff)
qed

text \<open>
  What the writer's answer means. A write has landed exactly when a 200 came back whole and
  parses; it is unresolved exactly when a 504 names the pending transaction; a batch is too large
  exactly when a 413 says so in a body that reads as the error it is. Any other answer is an error
  of another kind.
\<close>

theorem write_answers_classified:
  "(writer_post L parse x = Inr v \<longleftrightarrow>
     (\<exists>r. x = Inr r \<and> hr_status r = 200 \<and> hr_broken r = None \<and>
        Option.bind (json_from_slice L (concat (hr_chunks r))) parse = Some v)) \<and>
   (writer_post L parse x = Inl (Unresolved tx links) \<longleftrightarrow>
     (\<exists>r. x = Inr r \<and> hr_status r = 504 \<and> hr_broken r = None \<and>
        Option.bind (json_from_slice L (concat (hr_chunks r))) error_body = Some (links, Some tx))) \<and>
   (writer_post L parse x = Inl (TooLarge links) \<longleftrightarrow>
     (\<exists>r pending. x = Inr r \<and> hr_status r = 413 \<and> hr_broken r = None \<and>
        Option.bind (json_from_slice L (concat (hr_chunks r))) error_body = Some (links, pending)))"
proof (intro conjI)
  show "writer_post L parse x = Inr v \<longleftrightarrow>
     (\<exists>r. x = Inr r \<and> hr_status r = 200 \<and> hr_broken r = None \<and>
        Option.bind (json_from_slice L (concat (hr_chunks r))) parse = Some v)"
    by (cases x) (auto simp: writer_post_def Let_def result_simps split: option.splits)
  show "writer_post L parse x = Inl (Unresolved tx links) \<longleftrightarrow>
     (\<exists>r. x = Inr r \<and> hr_status r = 504 \<and> hr_broken r = None \<and>
        Option.bind (json_from_slice L (concat (hr_chunks r))) error_body = Some (links, Some tx))"
    by (cases x) (auto simp: writer_post_def Let_def split: option.splits)
  show "writer_post L parse x = Inl (TooLarge links) \<longleftrightarrow>
     (\<exists>r pending. x = Inr r \<and> hr_status r = 413 \<and> hr_broken r = None \<and>
        Option.bind (json_from_slice L (concat (hr_chunks r))) error_body = Some (links, pending))"
    by (cases x) (auto simp: writer_post_def Let_def split: option.splits)
qed

end
