(* ===== verification/Clients.thy ===== *)
theory Clients
  imports Reader Writer
begin

text \<open>
  \<open>crates/lb/src/chain/reader.rs\<close> and \<open>crates/lb/src/chain/writer.rs\<close>: the two HTTP clients as
  implementations of the interfaces the agent is given. What is sent is built here; what comes
  back of it is the transport's, a parameter: it takes a request and returns the exchange.
\<close>

section \<open>The reader\<close>

type_synonym 'w rpc_transport = "'w \<Rightarrow> json \<Rightarrow> 'w \<times> exchange"

record reader_client =
  rc_response_cap :: nat

definition reader_new :: "nat \<Rightarrow> reader_client" where
  "reader_new usize_max = \<lparr>rc_response_cap = usize_max\<rparr>"

definition with_response_cap :: "nat \<Rightarrow> reader_client \<Rightarrow> reader_client" where
  "with_response_cap bytes c = c\<lparr>rc_response_cap := bytes\<rparr>"

text \<open>The id is random: a parameter of the request.\<close>

definition rpc_request :: "u32 \<Rightarrow> string \<Rightarrow> json list \<Rightarrow> json" where
  "rpc_request ident rpc_method params = JObj [
     (''jsonrpc'', JStr ''2.0''), (''id'', json_word ident), (''method'', JStr rpc_method),
     (''params'', JArr params)]"

definition selected_fields :: json where
  "selected_fields = JObj (map (\<lambda>name. (name, JBool True))
     [''key'', ''creator'', ''createdAt'', ''updatedAt'', ''expiresAt'', ''attributes''])"

definition query_options :: "query \<Rightarrow> json" where
  "query_options q = JObj (
     [(''select'', selected_fields), (''limit'', JStr (hex_quantity_text (unat PAGE_LIMIT)))] @
     (case q_at_block q of None \<Rightarrow> [] | Some block \<Rightarrow> [(''atBlock'', JStr (hex_quantity_text (unat block)))]))"

text \<open>
  A query whose text does not exist filters on a byte string, where the source panics; no caller
  builds one.
\<close>

definition reader_over ::
    "libs \<Rightarrow> (json \<Rightarrow> u256 option) \<Rightarrow> u32 \<Rightarrow> 'w rpc_transport \<Rightarrow> reader_client \<Rightarrow> 'w chain_reader" where
  "reader_over L quantity ident transport c =
     (let cap = rc_response_cap c;
          call = (\<lambda>w rpc_method params. transport w (rpc_request ident rpc_method params))
      in \<lparr>rd_block_number = (\<lambda>w. apsnd (read_block_number L cap) (call w ''eth_blockNumber'' [])),
          rd_block = (\<lambda>w at. apsnd (read_block L cap)
            (call w ''eth_getBlockByNumber'' [block_param at, JBool False])),
          rd_balance = (\<lambda>w account. apsnd (read_balance L quantity cap)
            (call w ''eth_getBalance'' [JStr (addr_hex L account), JStr ''latest''])),
          rd_query = (\<lambda>w q. apsnd (read_query L cap)
            (call w ''arkiv_query'' [JStr (the (query_text L q)), query_options q])),
          rd_count = (\<lambda>w q. apsnd (read_count L cap)
            (call w ''arkiv_query'' [JStr (the (query_text L q)),
               JObj [(''select'', JObj [(''count'', JBool True)])]]))\<rparr>)"

section \<open>The writer\<close>

text \<open>The answers' fields, by the names the sidecar gives them; block numbers are decimal texts.\<close>

definition json_decimal :: "json \<Rightarrow> string \<Rightarrow> u64 option" where
  "json_decimal j k = Option.bind (json_str j k) (\<lambda>text. map_option word_of_nat (parse_radix 10 (2 ^ 64) text))"

definition created_parse :: "libs \<Rightarrow> json \<Rightarrow> created option" where
  "created_parse L j =
     Option.bind (json_key L j ''entityKey'') (\<lambda>key.
     Option.bind (json_str j ''txHash'') (\<lambda>tx_hash.
     Option.bind (json_decimal j ''expiresAt'') (\<lambda>expires_at.
       Some \<lparr>cd_entity_key = key, cd_tx_hash = tx_hash, cd_expires_at = expires_at\<rparr>)))"

definition written_parse :: "libs \<Rightarrow> json \<Rightarrow> written option" where
  "written_parse L j =
     Option.bind (json_key L j ''entityKey'') (\<lambda>key.
     Option.bind (json_str j ''txHash'') (\<lambda>tx_hash.
       Some \<lparr>wr_entity_key = key, wr_tx_hash = tx_hash\<rparr>))"

definition extended_parse :: "libs \<Rightarrow> json \<Rightarrow> extended option" where
  "extended_parse L j =
     Option.bind (json_key L j ''entityKey'') (\<lambda>key.
     Option.bind (json_str j ''txHash'') (\<lambda>tx_hash.
     Option.bind (json_decimal j ''expiresAt'') (\<lambda>expires_at.
       Some \<lparr>xd_entity_key = key, xd_tx_hash = tx_hash, xd_expires_at = expires_at\<rparr>)))"

definition json_keys :: "libs \<Rightarrow> json \<Rightarrow> string \<Rightarrow> entity_key list option" where
  "json_keys L j k =
     (case json_get j k of
        None \<Rightarrow> Some []
      | Some v \<Rightarrow> json_list (\<lambda>t. Option.bind (as_str t) (parse_key L)) v)"

definition batch_result_parse :: "libs \<Rightarrow> json \<Rightarrow> batch_result option" where
  "batch_result_parse L j =
     Option.bind (json_str j ''txHash'') (\<lambda>tx_hash.
     Option.bind (json_keys L j ''createdEntities'') (\<lambda>created_entities.
     Option.bind (json_keys L j ''patchedEntities'') (\<lambda>patched_entities.
     Option.bind (json_keys L j ''deletedEntities'') (\<lambda>deleted_entities.
     Option.bind (json_keys L j ''extendedEntities'') (\<lambda>extended_entities.
       Some \<lparr>br_tx_hash = tx_hash, br_created_entities = created_entities,
         br_patched_entities = patched_entities, br_deleted_entities = deleted_entities,
         br_extended_entities = extended_entities\<rparr>)))))"

definition identity_parse :: "libs \<Rightarrow> json \<Rightarrow> identity option" where
  "identity_parse L j =
     Option.bind (Option.bind (json_str j ''address'') (parse_addr L)) (\<lambda>address.
     Option.bind (json_u64 j ''chainId'') (\<lambda>chain_id.
       Some \<lparr>id_address = address, id_chain_id = chain_id\<rparr>))"

type_synonym 'w http_transport = "'w \<Rightarrow> string \<Rightarrow> json \<Rightarrow> 'w \<times> exchange"

text \<open>The routes; \<open>identity\<close> is a \<open>GET\<close>, without a body.\<close>

definition writer_over :: "libs \<Rightarrow> 'w http_transport \<Rightarrow> 'w chain_writer" where
  "writer_over L transport =
     \<lparr>w_identity = (\<lambda>w. apsnd (writer_identity L (identity_parse L)) (transport w ''identity'' JNull)),
      w_create = (\<lambda>w c. apsnd (writer_post L (created_parse L)) (transport w ''create'' (create_json L c))),
      w_patch = (\<lambda>w p. apsnd (writer_post L (written_parse L)) (transport w ''patch'' (patch_json L p))),
      w_delete = (\<lambda>w d. apsnd (writer_post L (written_parse L)) (transport w ''delete'' (delete_json L d))),
      w_extend = (\<lambda>w e. apsnd (writer_post L (extended_parse L)) (transport w ''extend'' (extend_json L e))),
      w_execute_batch = (\<lambda>w b. apsnd (writer_post L (batch_result_parse L))
        (transport w ''execute-batch'' (batch_json L b)))\<rparr>"

text \<open>Whatever the clients do to the world, the transport does.\<close>

lemma reader_over_frame:
  assumes "\<And>w body. P w (fst (transport w body))"
  shows "P w (fst (rd_block_number (reader_over L quantity ident transport c) w))"
    "P w (fst (rd_block (reader_over L quantity ident transport c) w at))"
    "P w (fst (rd_balance (reader_over L quantity ident transport c) w account))"
    "P w (fst (rd_query (reader_over L quantity ident transport c) w q))"
    "P w (fst (rd_count (reader_over L quantity ident transport c) w q))"
  using assms by (simp_all add: reader_over_def Let_def)

lemma writer_over_frame:
  assumes "\<And>w route body. P w (fst (transport w route body))"
  shows "P w (fst (w_identity (writer_over L transport) w))"
    "P w (fst (w_create (writer_over L transport) w cr))"
    "P w (fst (w_patch (writer_over L transport) w pa))"
    "P w (fst (w_delete (writer_over L transport) w de))"
    "P w (fst (w_extend (writer_over L transport) w ex))"
    "P w (fst (w_execute_batch (writer_over L transport) w b))"
  using assms by (simp_all add: writer_over_def)

end
