(* ===== verification/Config.thy ===== *)
theory Config
  imports Reader
begin

text \<open>
  \<open>crates/lb/src/config.rs\<close>: the sections of the configuration with their defaults, the
  amounts written in GLM, and the validation every later component relies on. The toml parser is
  a parameter; a refusal keeps the values its message is rendered from.
\<close>

section \<open>The sections\<close>

definition MAX_LIFETIME :: duration where
  "MAX_LIFETIME = secs 15768000"

record integrity_config =
  ic_interval :: duration
  ic_confirm_after :: duration

definition integrity_default :: integrity_config where
  "integrity_default = \<lparr>ic_interval = secs (30 * 60), ic_confirm_after = secs 30\<rparr>"

type_synonym socket_addr = "string \<times> u16"

record listen_config =
  lc_public :: socket_addr
  lc_admin :: socket_addr

definition listen_default :: listen_config where
  "listen_default = \<lparr>lc_public = (''0.0.0.0'', 8545), lc_admin = (''127.0.0.1'', 9545)\<rparr>"

record stats_config =
  sc_file :: string
  sc_period :: "duration option"

definition stats_default :: stats_config where
  "stats_default = \<lparr>sc_file = ''/var/lib/arkiv-lb/stats.json'', sc_period = None\<rparr>"

record health_config =
  hc_probe_interval :: duration
  hc_probe_timeout :: duration
  hc_flip_after :: u32
  hc_max_probe_backoff :: duration
  hc_ref_height_interval :: duration
  hc_chainid_check_interval :: duration
  hc_chain_id :: "u64 option"
  hc_lag_tolerance_blocks :: u64
  hc_disable_probing :: bool

definition health_default :: health_config where
  "health_default = \<lparr>
     hc_probe_interval = secs 5,
     hc_probe_timeout = secs 2,
     hc_flip_after = 3,
     hc_max_probe_backoff = secs (5 * 60),
     hc_ref_height_interval = secs 60,
     hc_chainid_check_interval = secs (5 * 60),
     hc_chain_id = None,
     hc_lag_tolerance_blocks = 30,
     hc_disable_probing = False\<rparr>"

record proxy_config =
  xc_attempt_timeout :: duration
  xc_request_timeout :: duration
  xc_max_retries :: u32
  xc_max_request_size :: u64
  xc_max_response_size :: u64

definition proxy_default :: proxy_config where
  "proxy_default = \<lparr>
     xc_attempt_timeout = secs 15,
     xc_request_timeout = secs 30,
     xc_max_retries = 2,
     xc_max_request_size = 2 * 1024 * 1024,
     xc_max_response_size = 64 * 1024 * 1024\<rparr>"

record provider_config =
  pc_id :: string
  pc_url :: string

record marketplace_config =
  mc_writer_url :: string
  mc_wei_per_call :: wei
  mc_tunnel_server :: string
  mc_max_providers :: u32
  mc_remote_port_start :: u16
  mc_discovery_interval :: duration
  mc_refresh_interval :: duration
  mc_agreement_life :: duration
  mc_listing_life :: duration
  mc_counter_record_life :: duration
  mc_offer_max_lifetime :: duration
  mc_settlement_period :: duration
  mc_flush_interval :: duration
  mc_gas_warn_below :: wei

record config =
  cf_listen :: listen_config
  cf_health :: health_config
  cf_proxy :: proxy_config
  cf_marketplace :: "marketplace_config option"
  cf_integrity :: "integrity_config option"
  cf_stats :: stats_config
  cf_providers :: "provider_config list"
  cf_reference :: "string option"
  cf_reference_key :: "string option"

definition config_default :: config where
  "config_default = \<lparr>
     cf_listen = listen_default, cf_health = health_default, cf_proxy = proxy_default,
     cf_marketplace = None, cf_integrity = None, cf_stats = stats_default,
     cf_providers = [], cf_reference = None, cf_reference_key = None\<rparr>"

text \<open>The marketplace's field defaults; its price and its tunnel address have none.\<close>

definition default_writer_url :: string where
  "default_writer_url = ''http://127.0.0.1:8560/''"

definition marketplace_defaults :: "wei \<Rightarrow> string \<Rightarrow> wei \<Rightarrow> marketplace_config" where
  "marketplace_defaults wei_per_call tunnel_server gas_warn_below = \<lparr>
     mc_writer_url = default_writer_url,
     mc_wei_per_call = wei_per_call,
     mc_tunnel_server = tunnel_server,
     mc_max_providers = 90,
     mc_remote_port_start = 20000,
     mc_discovery_interval = secs (5 * 60),
     mc_refresh_interval = secs (60 * 60),
     mc_agreement_life = secs (3 * 24 * 60 * 60),
     mc_listing_life = secs (30 * 24 * 60 * 60),
     mc_counter_record_life = secs (180 * 24 * 60 * 60),
     mc_offer_max_lifetime = secs (24 * 60 * 60),
     mc_settlement_period = secs (7 * 24 * 60 * 60),
     mc_flush_interval = secs (24 * 60 * 60),
     mc_gas_warn_below = gas_warn_below\<rparr>"

text \<open>One tunnel port per slot, from the start port up to the last port at most.\<close>

definition remote_ports :: "marketplace_config \<Rightarrow> u16 list" where
  "remote_ports m =
     take (unat (mc_max_providers m)) (map word_of_nat [unat (mc_remote_port_start m)..<65536])"

section \<open>Amounts in GLM\<close>

definition GLM_DECIMALS :: nat where
  "GLM_DECIMALS = 18"

fun split_once :: "char \<Rightarrow> string \<Rightarrow> (string \<times> string) option" where
  "split_once c [] = None"
| "split_once c (x # xs) = (if x = c then Some ([], xs) else map_option (apfst ((#) x)) (split_once c xs))"

definition pad_right :: "nat \<Rightarrow> string \<Rightarrow> string" where
  "pad_right n s = s @ replicate (n - length s) (CHR ''0'')"

datatype glm_error = NotAnAmount string | AmountTooLarge string

definition parse_glm :: "libs \<Rightarrow> string \<Rightarrow> glm_error + wei" where
  "parse_glm L text =
     (let (whole, fraction) = (case split_once (CHR ''.'') text of None \<Rightarrow> (text, []) | Some p \<Rightarrow> p)
      in if whole = [] \<or> length fraction > GLM_DECIMALS
            \<or> \<not> list_all is_ascii_digit (whole @ fraction)
         then Inl (NotAnAmount text)
         else ok_or (AmountTooLarge text) (parse_wei L (whole @ pad_right GLM_DECIMALS fraction)))"

section \<open>Validation\<close>

datatype invalid =
    NotPositive string
  | ShorterThanProbe string
  | FlipAfterTooSmall u32
  | NotAHandle string
  | DuplicateId string
  | UrlUnparsed string string
  | UrlNotHttp string string
  | OddLifetime string
  | LifetimeTooLong string duration
  | OfferOutlivesAgreement duration duration
  | DiscoveryTooRare duration duration
  | LifeTooShort string duration duration
  | RefreshTooOften duration
  | FlushTooRare duration duration
  | TooManySlots u32
  | PortsRunOut u16 u32
  | ConfirmTooLate duration duration

datatype config_error = ConfigRead string | ConfigParse string | Invalid invalid

definition require :: "bool \<Rightarrow> invalid \<Rightarrow> config_error + unit" where
  "require b e = (if b then Inr () else Inl (Invalid e))"

lemma require_Inr [simp]: "require b e = Inr u \<longleftrightarrow> b"
  by (simp add: require_def)

definition validate_http_url :: "libs \<Rightarrow> string \<Rightarrow> string \<Rightarrow> config_error + unit" where
  "validate_http_url L what url =
     (case url_scheme L url of
        None \<Rightarrow> Inl (Invalid (UrlUnparsed what url))
      | Some scheme \<Rightarrow> require (scheme = ''http'' \<or> scheme = ''https'') (UrlNotHttp what url))"

definition integrity_validate :: "integrity_config \<Rightarrow> config_error + unit" where
  "integrity_validate c =
     rbind (each_ok (\<lambda>(name, d). require (d \<noteq> 0) (NotPositive name))
       [(''integrity.interval'', ic_interval c), (''integrity.confirm_after'', ic_confirm_after c)])
     (\<lambda>_. require (ic_confirm_after c < ic_interval c) (ConfirmTooLate (ic_confirm_after c) (ic_interval c)))"

definition marketplace_validate :: "libs \<Rightarrow> marketplace_config \<Rightarrow> config_error + unit" where
  "marketplace_validate L m =
     rbind (validate_http_url L ''marketplace.writer_url'' (mc_writer_url m)) (\<lambda>_.
     rbind (each_ok (\<lambda>(name, d). require (d \<noteq> 0) (NotPositive name))
       [(''discovery_interval'', mc_discovery_interval m),
        (''refresh_interval'', mc_refresh_interval m),
        (''agreement_life'', mc_agreement_life m),
        (''listing_life'', mc_listing_life m),
        (''counter_record_life'', mc_counter_record_life m),
        (''offer_max_lifetime'', mc_offer_max_lifetime m),
        (''settlement_period'', mc_settlement_period m),
        (''flush_interval'', mc_flush_interval m)]) (\<lambda>_.
     rbind (each_ok (\<lambda>(name, d).
         rbind (require (subsec_nanos d = 0 \<and> as_secs d mod 2 = 0) (OddLifetime name))
           (\<lambda>_. require (d \<le> MAX_LIFETIME) (LifetimeTooLong name d)))
       [(''agreement_life'', mc_agreement_life m),
        (''listing_life'', mc_listing_life m),
        (''counter_record_life'', mc_counter_record_life m),
        (''offer_max_lifetime'', mc_offer_max_lifetime m)]) (\<lambda>_.
     rbind (require (mc_offer_max_lifetime m < mc_agreement_life m)
         (OfferOutlivesAgreement (mc_offer_max_lifetime m) (mc_agreement_life m))) (\<lambda>_.
     rbind (require (mc_discovery_interval m < mc_refresh_interval m)
         (DiscoveryTooRare (mc_discovery_interval m) (mc_refresh_interval m))) (\<lambda>_.
     rbind (each_ok (\<lambda>(name, life).
         require (mc_refresh_interval m < life) (LifeTooShort name life (mc_refresh_interval m)))
       [(''agreement_life'', mc_agreement_life m), (''listing_life'', mc_listing_life m)]) (\<lambda>_.
     rbind (require (secs 2 \<le> mc_refresh_interval m) (RefreshTooOften (mc_refresh_interval m))) (\<lambda>_.
     rbind (require (mc_flush_interval m \<le> mc_agreement_life m)
         (FlushTooRare (mc_flush_interval m) (mc_agreement_life m))) (\<lambda>_.
     rbind (require (unat (mc_max_providers m) \<le> unat PAGE_LIMIT) (TooManySlots (mc_max_providers m))) (\<lambda>_.
     require ((ucast (mc_remote_port_start m) :: u32) + mc_max_providers m \<le> 65536)
         (PortsRunOut (mc_remote_port_start m) (mc_max_providers m)))))))))))"

definition valid_handle :: "string \<Rightarrow> bool" where
  "valid_handle s \<longleftrightarrow>
     s \<noteq> [] \<and> list_all (\<lambda>c. is_ascii_lowercase c \<or> is_ascii_digit c \<or> c = CHR ''-'') s"

fun validate_providers :: "libs \<Rightarrow> string set \<Rightarrow> provider_config list \<Rightarrow> config_error + unit" where
  "validate_providers L seen [] = Inr ()"
| "validate_providers L seen (p # ps) =
     rbind (require (valid_handle (pc_id p)) (NotAHandle (pc_id p))) (\<lambda>_.
     rbind (require (pc_id p \<notin> seen) (DuplicateId (pc_id p))) (\<lambda>_.
     rbind (validate_http_url L (''provider url of '' @ pc_id p) (pc_url p)) (\<lambda>_.
     validate_providers L (insert (pc_id p) seen) ps)))"

definition config_validate :: "libs \<Rightarrow> config \<Rightarrow> config_error + unit" where
  "config_validate L c =
     (let h = cf_health c; x = cf_proxy c in
     rbind (each_ok (\<lambda>(name, d). require (d \<noteq> 0) (NotPositive name))
       [(''health.probe_interval'', hc_probe_interval h),
        (''health.probe_timeout'', hc_probe_timeout h),
        (''proxy.attempt_timeout'', xc_attempt_timeout x),
        (''proxy.request_timeout'', xc_request_timeout x)]) (\<lambda>_.
     rbind (each_ok (\<lambda>(name, size). require (size \<noteq> 0) (NotPositive name))
       [(''proxy.max_request_size'', xc_max_request_size x),
        (''proxy.max_response_size'', xc_max_response_size x)]) (\<lambda>_.
     rbind (each_ok (\<lambda>(name, interval).
         require (interval = 0 \<or> hc_probe_interval h \<le> interval) (ShorterThanProbe name))
       [(''ref_height_interval'', hc_ref_height_interval h),
        (''chainid_check_interval'', hc_chainid_check_interval h)]) (\<lambda>_.
     rbind (require (2 \<le> hc_flip_after h) (FlipAfterTooSmall (hc_flip_after h))) (\<lambda>_.
     rbind (validate_providers L {} (cf_providers c)) (\<lambda>_.
     rbind (case cf_marketplace c of None \<Rightarrow> Inr () | Some m \<Rightarrow> marketplace_validate L m) (\<lambda>_.
     case cf_integrity c of None \<Rightarrow> Inr () | Some i \<Rightarrow> integrity_validate i)))))))"

definition config_parse :: "libs \<Rightarrow> (string \<Rightarrow> config option) \<Rightarrow> string \<Rightarrow> string \<Rightarrow> config_error + config" where
  "config_parse L toml text path =
     rbind (ok_or (ConfigParse path) (toml text)) (\<lambda>config.
     rbind (config_validate L config) (\<lambda>_. Inr config))"

definition config_load ::
    "libs \<Rightarrow> (string \<Rightarrow> config option) \<Rightarrow> (string \<Rightarrow> string option) \<Rightarrow> string \<Rightarrow> config_error + config" where
  "config_load L toml read path =
     rbind (ok_or (ConfigRead path) (read path)) (\<lambda>text. config_parse L toml text path)"

section \<open>What validation establishes\<close>

lemma marketplace_valid:
  assumes "marketplace_validate L m = Inr u"
  shows "mc_offer_max_lifetime m < mc_agreement_life m"
    and "mc_discovery_interval m < mc_refresh_interval m"
    and "mc_refresh_interval m < mc_agreement_life m" "mc_refresh_interval m < mc_listing_life m"
    and "secs 2 \<le> mc_refresh_interval m" "mc_flush_interval m \<le> mc_agreement_life m"
    and "unat (mc_max_providers m) \<le> 100"
    and "(ucast (mc_remote_port_start m) :: u32) + mc_max_providers m \<le> 65536"
    and "\<forall>d \<in> {mc_agreement_life m, mc_listing_life m, mc_counter_record_life m, mc_offer_max_lifetime m}.
           0 < d \<and> subsec_nanos d = 0 \<and> as_secs d mod 2 = 0 \<and> d \<le> MAX_LIFETIME"
    and "0 < mc_settlement_period m"
  using assms by (simp_all add: marketplace_validate_def result_simps PAGE_LIMIT_def)

lemma validate_providers_iff:
  "validate_providers L seen ps = Inr u \<longleftrightarrow>
     list_all (\<lambda>p. valid_handle (pc_id p) \<and> validate_http_url L (''provider url of '' @ pc_id p) (pc_url p) = Inr ()) ps
     \<and> distinct (map pc_id ps) \<and> set (map pc_id ps) \<inter> seen = {}"
  by (induction ps arbitrary: seen) (auto simp: result_simps)

lemma config_valid:
  assumes "config_validate L c = Inr u"
  shows "2 \<le> hc_flip_after (cf_health c)" "distinct (map pc_id (cf_providers c))"
    and "list_all (valid_handle \<circ> pc_id) (cf_providers c)"
    and "0 < hc_probe_interval (cf_health c)"
    and "cf_marketplace c = Some m \<Longrightarrow> marketplace_validate L m = Inr ()"
    and "cf_integrity c = Some i \<Longrightarrow> integrity_validate i = Inr ()"
  using assms
  by (simp_all add: config_validate_def Let_def result_simps validate_providers_iff list_all_iff)

text \<open>The ports: as many as slots, each once, starting at the start port.\<close>

lemma ports_fit:
  assumes "marketplace_validate L m = Inr u"
  shows "unat (mc_remote_port_start m) + unat (mc_max_providers m) \<le> 65536"
proof -
  let ?s = "mc_remote_port_start m" and ?n = "mc_max_providers m"
  have n: "unat ?n \<le> 100" and le: "(ucast ?s :: u32) + ?n \<le> 65536"
    using marketplace_valid [OF assms] by simp_all
  have s: "unat (ucast ?s :: u32) = unat ?s"
    using unat_bound [of ?s] by (simp add: unsigned_ucast_eq take_bit_nat_eq_self)
  have "unat (ucast ?s :: u32) + unat ?n < 2 ^ LENGTH(32)"
    using unat_bound [of ?s] n unfolding s by simp
  then have "unat ((ucast ?s :: u32) + ?n) = unat (ucast ?s :: u32) + unat ?n"
    by (rule unat_add_no_wrap)
  with le s show ?thesis by (simp add: word_le_nat_alt)
qed

lemma length_remote_ports:
  assumes "marketplace_validate L m = Inr u"
  shows "length (remote_ports m) = unat (mc_max_providers m)"
  using ports_fit [OF assms] by (simp add: remote_ports_def)

lemma distinct_remote_ports: "distinct (remote_ports m)"
proof -
  have "inj_on (word_of_nat :: nat \<Rightarrow> u16) {unat (mc_remote_port_start m)..<65536}"
    by (rule inj_onI) (simp add: word_of_nat_eq_iff take_bit_nat_eq_self)
  then show ?thesis by (simp add: remote_ports_def distinct_map inj_on_subset distinct_take)
qed

lemma remote_ports_nth:
  "i < length (remote_ports m) \<Longrightarrow> remote_ports m ! i = mc_remote_port_start m + word_of_nat i"
  by (simp add: remote_ports_def less_diff_conv add.commute [of i])

section \<open>Properties\<close>



definition default_market :: marketplace_config where
  "default_market = marketplace_defaults 1 ''tunnel'' 1"

lemma default_market_valid: "marketplace_validate std_libs default_market = Inr ()"
  by (simp add: marketplace_validate_def default_market_def marketplace_defaults_def default_writer_url_def
      validate_http_url_def std_libs_def require_def secs_def subsec_nanos_def as_secs_def MAX_LIFETIME_def
      PAGE_LIMIT_def)

lemma market_config_validates:
  "config_validate std_libs (config_default\<lparr>cf_marketplace := Some default_market\<rparr>) = Inr ()"
  by (simp add: config_validate_def Let_def default_market_valid config_default_def health_default_def
      proxy_default_def require_def secs_def)


end
