(* ===== verification/Pool.thy ===== *)
theory Pool
  imports Config
begin

text \<open>
  The provider pool (\<open>crates/lb/src/pool.rs\<close>, and the verdict type of
  \<open>integrity.rs\<close>): the pool entry with its two eligibility gates, its health streak and its
  counters, and the membership with its round robin. Every atomic of the entry is a field;
  a method is one function of the entry. \<open>p_log\<close> records the events
  \<open>set_eligibility_and_log\<close> writes. An entry shared through \<open>Arc\<close> is a cell of the pool's
  heap, so that a snapshot, an agreement and the membership see the same counters, also after
  its removal. The moment \<open>Instant::now()\<close> returns is an argument.
\<close>

section \<open>The pool entry\<close>

datatype url = Url (url_text: string)

datatype source =
    Static
  | Marketplace (src_address: address) (src_agreement: entity_key) (src_port: u16)

datatype verdict = Match | Stale | Divergence | Unknown

fun verdict_as_str :: "verdict \<Rightarrow> string" where
  "verdict_as_str Match = ''match''"
| "verdict_as_str Stale = ''stale''"
| "verdict_as_str Divergence = ''divergence''"
| "verdict_as_str Unknown = ''unknown''"

datatype gate = HealthGate | IntegrityGate

fun gate_bit :: "gate \<Rightarrow> u8" where
  "gate_bit HealthGate = 1"
| "gate_bit IntegrityGate = 2"

definition ALL_GATES :: u8 where
  "ALL_GATES = or (gate_bit HealthGate) (gate_bit IntegrityGate)"

fun encode_verdict :: "verdict \<Rightarrow> u8" where
  "encode_verdict Match = 1"
| "encode_verdict Stale = 2"
| "encode_verdict Divergence = 3"
| "encode_verdict Unknown = 4"

definition decode_verdict :: "u8 \<Rightarrow> verdict option" where
  "decode_verdict code =
     (if code = 1 then Some Match
      else if code = 2 then Some Stale
      else if code = 3 then Some Divergence
      else if code = 4 then Some Unknown
      else None)"

datatype health_signal = SProbe | STraffic | SLag | SChain | SIntegrity

fun signal_code :: "health_signal \<Rightarrow> u8" where
  "signal_code SProbe = 1"
| "signal_code STraffic = 2"
| "signal_code SLag = 3"
| "signal_code SChain = 4"
| "signal_code SIntegrity = 5"

definition from_code :: "u8 \<Rightarrow> health_signal option" where
  "from_code code =
     (if code = 1 then Some SProbe
      else if code = 2 then Some STraffic
      else if code = 3 then Some SLag
      else if code = 4 then Some SChain
      else if code = 5 then Some SIntegrity
      else None)"

fun signal_as_str :: "health_signal \<Rightarrow> string" where
  "signal_as_str SProbe = ''probe''"
| "signal_as_str STraffic = ''traffic''"
| "signal_as_str SLag = ''lag''"
| "signal_as_str SChain = ''chain''"
| "signal_as_str SIntegrity = ''integrity''"

text \<open>
  What is kept in an atomic byte comes back: the contract both codes above share, on which the
  entry's accessors rest.
\<close>

locale wire_code =
  fixes enc :: "'a \<Rightarrow> u8" and dec :: "u8 \<Rightarrow> 'a option"
  assumes dec_enc: "dec (enc x) = Some x"
    and dec_zero: "dec 0 = None"
begin

lemma enc_inj: "enc x = enc y \<longleftrightarrow> x = y"
  by (metis dec_enc option.inject)

lemma enc_nonzero: "enc x \<noteq> 0"
  using dec_enc [of x] dec_zero by auto

end

interpretation verdict_code: wire_code encode_verdict decode_verdict
proof
  show "decode_verdict (encode_verdict x) = Some x" for x
    by (cases x) (simp_all add: decode_verdict_def)
qed (simp add: decode_verdict_def)

interpretation signal: wire_code signal_code from_code
proof
  show "from_code (signal_code x) = Some x" for x
    by (cases x) (simp_all add: from_code_def)
qed (simp add: from_code_def)

record provider =
  p_id :: string
  p_url :: url
  p_source :: source
  p_eligibility :: u8
  p_verdict :: u8
  p_verdict_height :: u64
  p_streak :: int
  p_height :: u64
  p_chain_verified :: bool
  p_chain_check_due :: bool
  p_next_probe :: instant
  p_unanswered :: u32
  p_served :: u64
  p_served_total :: u64
  p_transport_failures :: u64
  p_last_source :: u8
  p_last_probe_ms :: u64
  p_created :: instant
  p_last_answer_ms :: u64
  p_log :: "(bool \<times> health_signal) list"

definition marketplace_id :: "libs \<Rightarrow> address \<Rightarrow> string" where
  "marketplace_id L address = addr_hex L address"

definition provider_new :: "string \<Rightarrow> url \<Rightarrow> source \<Rightarrow> instant \<Rightarrow> provider" where
  "provider_new ident url source now =
     \<lparr>p_id = ident, p_url = url, p_source = source,
      p_eligibility = gate_bit IntegrityGate, p_verdict = 0, p_verdict_height = 0,
      p_streak = 0, p_height = u64_max, p_chain_verified = False, p_chain_check_due = True,
      p_next_probe = now, p_unanswered = 0, p_served = 0, p_served_total = 0,
      p_transport_failures = 0, p_last_source = signal_code SProbe, p_last_probe_ms = u64_max,
      p_created = now, p_last_answer_ms = u64_max, p_log = []\<rparr>"

datatype invalid_url = InvalidUrl string string

definition from_config :: "libs \<Rightarrow> instant \<Rightarrow> provider_config \<Rightarrow> invalid_url + provider" where
  "from_config L now provider =
     (case url_scheme L (pc_url provider) of
        None \<Rightarrow> Inl (InvalidUrl (pc_id provider) (pc_url provider))
      | Some _ \<Rightarrow> Inr (provider_new (pc_id provider) (Url (pc_url provider)) Static now))"

definition from_marketplace :: "libs \<Rightarrow> instant \<Rightarrow> address \<Rightarrow> entity_key \<Rightarrow> u16 \<Rightarrow> provider" where
  "from_marketplace L now address agreement_id port =
     provider_new (marketplace_id L address)
       (Url (''http://127.0.0.1:'' @ dec_word port))
       (Marketplace address agreement_id port) now"

definition schedule_probe_now :: "instant \<Rightarrow> provider \<Rightarrow> provider" where
  "schedule_probe_now now p = p\<lparr>p_next_probe := now, p_chain_check_due := True\<rparr>"

definition take_chain_check_due :: "provider \<Rightarrow> bool \<times> provider" where
  "take_chain_check_due p = (p_chain_check_due p, p\<lparr>p_chain_check_due := False\<rparr>)"

definition record_unanswered_probe :: "provider \<Rightarrow> provider" where
  "record_unanswered_probe p = p\<lparr>p_unanswered := p_unanswered p + 1\<rparr>"

definition age_ms :: "instant \<Rightarrow> provider \<Rightarrow> u64" where
  "age_ms now p = word_of_nat (as_millis (now - p_created p))"

definition record_answer :: "instant \<Rightarrow> provider \<Rightarrow> provider" where
  "record_answer now p = p\<lparr>p_last_answer_ms := age_ms now p\<rparr>"

definition record_answered_probe :: "instant \<Rightarrow> provider \<Rightarrow> provider" where
  "record_answered_probe now p = record_answer now (p\<lparr>p_unanswered := 0\<rparr>)"

definition answered_since :: "instant \<Rightarrow> provider \<Rightarrow> bool" where
  "answered_since since p =
     (let last = p_last_answer_ms p
      in if last = u64_max then False
         else as_millis (since - p_created p) \<le> unat last)"

definition record_served :: "instant \<Rightarrow> provider \<Rightarrow> provider" where
  "record_served now p =
     record_answer now (p\<lparr>p_served := p_served p + 1, p_served_total := p_served_total p + 1\<rparr>)"

definition subtract_served :: "u64 \<Rightarrow> provider \<Rightarrow> provider" where
  "subtract_served count p = p\<lparr>p_served := sat_sub (p_served p) count\<rparr>"

definition seed_served :: "u64 \<Rightarrow> provider \<Rightarrow> provider" where
  "seed_served count p = p\<lparr>p_served := p_served p + count\<rparr>"

definition record_transport_failure :: "provider \<Rightarrow> provider" where
  "record_transport_failure p = p\<lparr>p_transport_failures := p_transport_failures p + 1\<rparr>"

definition record_probe_duration :: "duration \<Rightarrow> provider \<Rightarrow> provider" where
  "record_probe_duration d p =
     (let millis = (if as_millis d < 2 ^ 64 then word_of_nat (as_millis d) else u64_max - 1)
      in p\<lparr>p_last_probe_ms := millis\<rparr>)"

definition last_probe_ms :: "provider \<Rightarrow> u64 option" where
  "last_probe_ms p = (if p_last_probe_ms p = u64_max then None else Some (p_last_probe_ms p))"

definition record_height :: "u64 \<Rightarrow> provider \<Rightarrow> provider" where
  "record_height height p = p\<lparr>p_height := min height (u64_max - 1)\<rparr>"

definition last_height :: "provider \<Rightarrow> u64 option" where
  "last_height p = (if p_height p = u64_max then None else Some (p_height p))"

definition eligible :: "provider \<Rightarrow> bool" where
  "eligible p \<longleftrightarrow> p_eligibility p = ALL_GATES"

definition healthy :: "provider \<Rightarrow> bool" where
  "healthy p \<longleftrightarrow> and (p_eligibility p) (gate_bit HealthGate) \<noteq> 0"

definition serving_wrong_data :: "provider \<Rightarrow> bool" where
  "serving_wrong_data p \<longleftrightarrow> and (p_eligibility p) (gate_bit IntegrityGate) = 0"

definition ineligibility_reason :: "provider \<Rightarrow> string option" where
  "ineligibility_reason p =
     (if eligible p then None
      else if \<not> healthy p then map_option signal_as_str (from_code (p_last_source p))
      else Some (signal_as_str SIntegrity))"

definition record_health_source :: "health_signal \<Rightarrow> provider \<Rightarrow> provider" where
  "record_health_source source p = p\<lparr>p_last_source := signal_code source\<rparr>"

definition agreement_id :: "provider \<Rightarrow> entity_key option" where
  "agreement_id p =
     (case p_source p of Static \<Rightarrow> None | Marketplace _ agreement_id _ \<Rightarrow> Some agreement_id)"

definition set_eligibility :: "gate \<Rightarrow> bool \<Rightarrow> provider \<Rightarrow> (bool \<times> bool) \<times> provider" where
  "set_eligibility gate value p =
     (let bit = gate_bit gate;
          before = p_eligibility p;
          after = (if value then or before bit else and before (not bit))
      in ((before = ALL_GATES, after = ALL_GATES), p\<lparr>p_eligibility := after\<rparr>))"

definition set_eligibility_and_log :: "gate \<Rightarrow> bool \<Rightarrow> health_signal \<Rightarrow> provider \<Rightarrow> provider" where
  "set_eligibility_and_log gate value source p =
     (let ((was, now), p') = set_eligibility gate value p
      in if was \<noteq> now then p'\<lparr>p_log := p_log p' @ [(now, source)]\<rparr> else p')"

definition set_health :: "bool \<Rightarrow> provider \<Rightarrow> provider" where
  "set_health value p = snd (set_eligibility HealthGate value p)"

definition record_integrity :: "verdict \<Rightarrow> u64 \<Rightarrow> provider \<Rightarrow> provider" where
  "record_integrity verdict height p =
     (let p' = p\<lparr>p_verdict := encode_verdict verdict, p_verdict_height := height\<rparr>
      in case verdict of
           Divergence \<Rightarrow> set_eligibility_and_log IntegrityGate False SIntegrity p'
         | Match \<Rightarrow> set_eligibility_and_log IntegrityGate True SIntegrity p'
         | _ \<Rightarrow> p')"

definition last_verdict :: "provider \<Rightarrow> (verdict \<times> u64) option" where
  "last_verdict p = map_option (\<lambda>verdict. (verdict, p_verdict_height p)) (decode_verdict (p_verdict p))"

definition streak_step :: "bool \<Rightarrow> int \<Rightarrow> int" where
  "streak_step success streak =
     (if success then min (max streak 0 + 1) i64_max else max (min streak 0 - 1) i64_min)"

definition record_health :: "bool \<Rightarrow> u32 \<Rightarrow> health_signal \<Rightarrow> provider \<Rightarrow> provider" where
  "record_health success flip_after source p =
     (let p = record_health_source source p;
          streak = streak_step success (p_streak p);
          p = p\<lparr>p_streak := streak\<rparr>;
          flip = int (unat flip_after)
      in if flip \<le> streak then set_eligibility_and_log HealthGate True source p
         else if streak \<le> - flip then set_eligibility_and_log HealthGate False source p
         else p)"

definition quarantine :: "health_signal \<Rightarrow> provider \<Rightarrow> provider" where
  "quarantine source p =
     set_eligibility_and_log HealthGate False source (record_health_source source (p\<lparr>p_streak := 0\<rparr>))"

section \<open>The membership\<close>

type_synonym pref = nat

record lb_outcomes =
  lo_no_healthy_provider :: u64
  lo_timed_out :: u64
  lo_no_provider_answered :: u64

record pool =
  pl_members :: "pref list"
  pl_cursor :: u64
  pl_outcomes :: lb_outcomes
  pl_heap :: "pref \<Rightarrow> provider"
  pl_fresh :: pref

definition record_no_healthy_provider :: "lb_outcomes \<Rightarrow> lb_outcomes" where
  "record_no_healthy_provider out = out\<lparr>lo_no_healthy_provider := lo_no_healthy_provider out + 1\<rparr>"

definition record_timed_out :: "lb_outcomes \<Rightarrow> lb_outcomes" where
  "record_timed_out out = out\<lparr>lo_timed_out := lo_timed_out out + 1\<rparr>"

definition record_no_provider_answered :: "lb_outcomes \<Rightarrow> lb_outcomes" where
  "record_no_provider_answered out = out\<lparr>lo_no_provider_answered := lo_no_provider_answered out + 1\<rparr>"

abbreviation no_outcomes :: lb_outcomes where
  "no_outcomes \<equiv> \<lparr>lo_no_healthy_provider = 0, lo_timed_out = 0, lo_no_provider_answered = 0\<rparr>"

definition entry :: "pool \<Rightarrow> pref \<Rightarrow> provider" where
  "entry pool r = pl_heap pool r"

definition entry_update :: "pref \<Rightarrow> (provider \<Rightarrow> provider) \<Rightarrow> pool \<Rightarrow> pool" where
  "entry_update r f pool = pool\<lparr>pl_heap := (pl_heap pool)(r := f (pl_heap pool r))\<rparr>"

definition alloc :: "provider \<Rightarrow> pool \<Rightarrow> pref \<times> pool" where
  "alloc p pool =
     (pl_fresh pool, pool\<lparr>pl_heap := (pl_heap pool)(pl_fresh pool := p), pl_fresh := pl_fresh pool + 1\<rparr>)"

fun providers_from_config :: "libs \<Rightarrow> instant \<Rightarrow> provider_config list \<Rightarrow> invalid_url + provider list" where
  "providers_from_config L now [] = Inr []"
| "providers_from_config L now (c # cs) =
     rbind (from_config L now c) (\<lambda>p. rbind (providers_from_config L now cs) (\<lambda>ps. Inr (p # ps)))"

definition pool_new :: "libs \<Rightarrow> instant \<Rightarrow> provider_config list \<Rightarrow> invalid_url + pool" where
  "pool_new L now providers =
     rbind (providers_from_config L now providers)
       (\<lambda>members. Inr \<lparr>pl_members = [0..<length members], pl_cursor = 0, pl_outcomes = no_outcomes,
                       pl_heap = (\<lambda>r. if r < length members then members ! r
                                      else provider_new [] (Url []) Static now),
                       pl_fresh = length members\<rparr>)"

definition snapshot :: "pool \<Rightarrow> pref list" where
  "snapshot pool = pl_members pool"

definition pool_add :: "provider \<Rightarrow> pool \<Rightarrow> pref \<times> pool" where
  "pool_add provider pool =
     (let (r, pool) = alloc provider pool
      in (r, pool\<lparr>pl_members := pl_members pool @ [r]\<rparr>))"

definition pool_get :: "string \<Rightarrow> pool \<Rightarrow> pref option" where
  "pool_get ident pool = find (\<lambda>r. p_id (entry pool r) = ident) (snapshot pool)"

definition pool_remove :: "string \<Rightarrow> pool \<Rightarrow> pref option \<times> pool" where
  "pool_remove ident pool =
     (case pool_get ident pool of
        Some r \<Rightarrow> (Some r, pool\<lparr>pl_members := remove1 r (pl_members pool)\<rparr>)
      | None \<Rightarrow> (None, pool))"

fun lap :: "(pref \<Rightarrow> bool) \<Rightarrow> pref list \<Rightarrow> nat \<Rightarrow> u64 \<Rightarrow> pref option \<times> u64" where
  "lap el members 0 cursor = (None, cursor)"
| "lap el members (Suc n) cursor =
     (let provider = members ! (unat cursor mod length members)
      in if el provider then (Some provider, cursor + 1) else lap el members n (cursor + 1))"

definition next_eligible :: "pool \<Rightarrow> pref option \<times> pool" where
  "next_eligible pool =
     (let members = pl_members pool;
          el = (\<lambda>r. eligible (entry pool r))
      in if members = [] then (None, pool)
         else let (found, cursor) = lap el members (length members) (pl_cursor pool);
                  pool = pool\<lparr>pl_cursor := cursor\<rparr>
              in case found of
                   Some r \<Rightarrow> (Some r, pool)
                 | None \<Rightarrow> (find el members, pool))"


section \<open>The two gates\<close>

definition byte_wf :: "provider \<Rightarrow> bool" where
  "byte_wf p \<longleftrightarrow> p_eligibility p \<in> {0, 1, 2, 3}"

lemma ALL_GATES_eq: "ALL_GATES = 3"
  by (simp add: ALL_GATES_def)

lemma byte_wf_cases:
  assumes "byte_wf p"
  obtains "p_eligibility p = 0" | "p_eligibility p = 1" | "p_eligibility p = 2" | "p_eligibility p = 3"
  using assms by (auto simp: byte_wf_def)

lemma eligible_gates: "byte_wf p \<Longrightarrow> eligible p \<longleftrightarrow> healthy p \<and> \<not> serving_wrong_data p"
  by (erule byte_wf_cases) (simp_all add: eligible_def healthy_def serving_wrong_data_def ALL_GATES_eq)

lemma set_eligibility_simps:
  assumes "byte_wf p"
  shows "byte_wf (snd (set_eligibility gate value p))"
    and "healthy (snd (set_eligibility gate value p)) = (if gate = HealthGate then value else healthy p)"
    and "serving_wrong_data (snd (set_eligibility gate value p)) =
           (if gate = IntegrityGate then \<not> value else serving_wrong_data p)"
    and "fst (set_eligibility gate value p) = (eligible p, eligible (snd (set_eligibility gate value p)))"
  using assms
  by (cases gate; cases "value"; (rule byte_wf_cases [of p]);
      simp add: set_eligibility_def byte_wf_def healthy_def serving_wrong_data_def eligible_def)+

lemma set_eligibility_frame:
  "\<exists>e. snd (set_eligibility gate value p) = p\<lparr>p_eligibility := e\<rparr>"
  by (auto simp: set_eligibility_def Let_def)

lemma set_and_log_eq:
  "set_eligibility_and_log gate value source p =
     (let p' = snd (set_eligibility gate value p);
          (was, now) = fst (set_eligibility gate value p)
      in if was \<noteq> now then p'\<lparr>p_log := p_log p' @ [(now, source)]\<rparr> else p')"
  by (simp add: set_eligibility_and_log_def split: prod.splits)

lemma log_field_simps [simp]:
  "healthy (p\<lparr>p_log := l\<rparr>) = healthy p"
  "serving_wrong_data (p\<lparr>p_log := l\<rparr>) = serving_wrong_data p"
  "eligible (p\<lparr>p_log := l\<rparr>) = eligible p"
  "byte_wf (p\<lparr>p_log := l\<rparr>) = byte_wf p"
  by (simp_all add: healthy_def serving_wrong_data_def eligible_def byte_wf_def)

lemma p_log_set_eligibility [simp]: "p_log (snd (set_eligibility gate value p)) = p_log p"
  by (simp add: set_eligibility_def Let_def)

lemma set_and_log_gates:
  assumes "byte_wf p"
  shows "byte_wf (set_eligibility_and_log gate value source p)"
    and "healthy (set_eligibility_and_log gate value source p) =
           (if gate = HealthGate then value else healthy p)"
    and "serving_wrong_data (set_eligibility_and_log gate value source p) =
           (if gate = IntegrityGate then \<not> value else serving_wrong_data p)"
  using set_eligibility_simps [OF assms, of gate "value"]
  by (auto simp: set_and_log_eq Let_def)

lemma set_and_log_log:
  assumes "byte_wf p" and "p' = set_eligibility_and_log gate value source p"
  shows "p_log p' = p_log p @ (if eligible p \<noteq> eligible p' then [(eligible p', source)] else [])"
  using set_eligibility_simps [OF assms(1), of gate "value"]
  unfolding assms(2) by (auto simp: set_and_log_eq Let_def)

lemma set_and_log_frame:
  "\<exists>e l. set_eligibility_and_log gate value source p = p\<lparr>p_eligibility := e, p_log := l\<rparr>"
proof -
  obtain e where e: "snd (set_eligibility gate value p) = p\<lparr>p_eligibility := e\<rparr>"
    using set_eligibility_frame by blast
  have self: "p\<lparr>p_eligibility := e\<rparr> = p\<lparr>p_eligibility := e, p_log := p_log p\<rparr>" by simp
  show ?thesis
    by (auto simp: set_and_log_eq Let_def e split: prod.splits) (metis self)
qed

lemma set_and_log_fields [frame_simps]:
  "p_id (set_eligibility_and_log gate value source p) = p_id p"
  "p_url (set_eligibility_and_log gate value source p) = p_url p"
  "p_source (set_eligibility_and_log gate value source p) = p_source p"
  "p_streak (set_eligibility_and_log gate value source p) = p_streak p"
  "p_served (set_eligibility_and_log gate value source p) = p_served p"
  "p_served_total (set_eligibility_and_log gate value source p) = p_served_total p"
  "p_last_source (set_eligibility_and_log gate value source p) = p_last_source p"
  "p_height (set_eligibility_and_log gate value source p) = p_height p"
  "p_verdict (set_eligibility_and_log gate value source p) = p_verdict p"
  "p_verdict_height (set_eligibility_and_log gate value source p) = p_verdict_height p"
  "p_chain_verified (set_eligibility_and_log gate value source p) = p_chain_verified p"
  "p_chain_check_due (set_eligibility_and_log gate value source p) = p_chain_check_due p"
  "p_unanswered (set_eligibility_and_log gate value source p) = p_unanswered p"
  "p_next_probe (set_eligibility_and_log gate value source p) = p_next_probe p"
  "p_transport_failures (set_eligibility_and_log gate value source p) = p_transport_failures p"
  "p_last_answer_ms (set_eligibility_and_log gate value source p) = p_last_answer_ms p"
  "p_created (set_eligibility_and_log gate value source p) = p_created p"
  using set_and_log_frame [of gate "value" source p] by auto


section \<open>An entry's life\<close>

text \<open>
  What the rest of the load balancer does to an entry, one event per call, in the order the
  atomic updates take: every interleaving of probes, client traffic, integrity rounds and the
  marketplace agent is one such sequence.
\<close>

datatype provider_event =
    ScheduleProbe | TakeCheck | ProbeUnanswered | ProbeAnswered | RequestServed
  | PeriodSubtracted u64 | PeriodSeeded u64 | AttemptFailed
  | ProbeTimed duration | HeightRead u64 | Judged verdict u64
  | HealthTick bool health_signal | Quarantined health_signal | ChainMarked bool

fun provider_apply :: "u32 \<Rightarrow> instant \<Rightarrow> provider_event \<Rightarrow> provider \<Rightarrow> provider" where
  "provider_apply f now ScheduleProbe p = schedule_probe_now now p"
| "provider_apply f now TakeCheck p = snd (take_chain_check_due p)"
| "provider_apply f now ProbeUnanswered p = record_unanswered_probe p"
| "provider_apply f now ProbeAnswered p = record_answered_probe now p"
| "provider_apply f now RequestServed p = record_served now p"
| "provider_apply f now (PeriodSubtracted c) p = subtract_served c p"
| "provider_apply f now (PeriodSeeded c) p = seed_served c p"
| "provider_apply f now AttemptFailed p = record_transport_failure p"
| "provider_apply f now (ProbeTimed d) p = record_probe_duration d p"
| "provider_apply f now (HeightRead h) p = record_height h p"
| "provider_apply f now (Judged v h) p = record_integrity v h p"
| "provider_apply f now (HealthTick ok s) p = record_health ok f s p"
| "provider_apply f now (Quarantined s) p = quarantine s p"
| "provider_apply f now (ChainMarked b) p = p\<lparr>p_chain_verified := b\<rparr>"

inductive provider_run :: "u32 \<Rightarrow> provider \<Rightarrow> (instant \<times> provider_event) list \<Rightarrow> provider \<Rightarrow> bool" where
  start: "provider_run f p [] p"
| step: "provider_run f p evs q \<Longrightarrow> provider_run f p (evs @ [(now, ev)]) (provider_apply f now ev q)"

inductive_cases provider_run_snocE: "provider_run f p (evs @ [e]) q"
inductive_simps provider_run_nil [simp]: "provider_run f p [] q"

text \<open>What an event does to the gates, to the streak and to the log.\<close>

lemma touch_simps [simp]:
  "p_eligibility (schedule_probe_now now p) = p_eligibility p"
  "p_eligibility (snd (take_chain_check_due p)) = p_eligibility p"
  "p_eligibility (record_unanswered_probe p) = p_eligibility p"
  "p_eligibility (record_answered_probe now p) = p_eligibility p"
  "p_eligibility (record_served now p) = p_eligibility p"
  "p_eligibility (subtract_served c p) = p_eligibility p"
  "p_eligibility (seed_served c p) = p_eligibility p"
  "p_eligibility (record_transport_failure p) = p_eligibility p"
  "p_eligibility (record_probe_duration d p) = p_eligibility p"
  "p_eligibility (record_height h p) = p_eligibility p"
  "p_eligibility (record_health_source s p) = p_eligibility p"
  by (simp_all add: schedule_probe_now_def take_chain_check_due_def record_unanswered_probe_def
      record_answered_probe_def record_served_def record_answer_def subtract_served_def seed_served_def
      record_transport_failure_def record_probe_duration_def Let_def record_height_def
      record_health_source_def)

lemma touch_log_simps [simp]:
  "p_log (schedule_probe_now now p) = p_log p"
  "p_log (snd (take_chain_check_due p)) = p_log p"
  "p_log (record_unanswered_probe p) = p_log p"
  "p_log (record_answered_probe now p) = p_log p"
  "p_log (record_served now p) = p_log p"
  "p_log (subtract_served c p) = p_log p"
  "p_log (seed_served c p) = p_log p"
  "p_log (record_transport_failure p) = p_log p"
  "p_log (record_probe_duration d p) = p_log p"
  "p_log (record_height h p) = p_log p"
  "p_log (record_health_source s p) = p_log p"
  by (simp_all add: schedule_probe_now_def take_chain_check_due_def record_unanswered_probe_def
      record_answered_probe_def record_served_def record_answer_def subtract_served_def seed_served_def
      record_transport_failure_def record_probe_duration_def Let_def record_height_def
      record_health_source_def)

lemma touch_streak_simps [simp]:
  "p_streak (schedule_probe_now now p) = p_streak p"
  "p_streak (snd (take_chain_check_due p)) = p_streak p"
  "p_streak (record_unanswered_probe p) = p_streak p"
  "p_streak (record_answered_probe now p) = p_streak p"
  "p_streak (record_served now p) = p_streak p"
  "p_streak (subtract_served c p) = p_streak p"
  "p_streak (seed_served c p) = p_streak p"
  "p_streak (record_transport_failure p) = p_streak p"
  "p_streak (record_probe_duration d p) = p_streak p"
  "p_streak (record_height h p) = p_streak p"
  "p_streak (record_health_source s p) = p_streak p"
  by (simp_all add: schedule_probe_now_def take_chain_check_due_def record_unanswered_probe_def
      record_answered_probe_def record_served_def record_answer_def subtract_served_def seed_served_def
      record_transport_failure_def record_probe_duration_def Let_def record_height_def
      record_health_source_def)

lemma gates_cong:
  assumes "p_eligibility q = p_eligibility p"
  shows "healthy q = healthy p" "serving_wrong_data q = serving_wrong_data p"
    "eligible q = eligible p" "byte_wf q = byte_wf p"
  using assms by (simp_all add: healthy_def serving_wrong_data_def eligible_def byte_wf_def)

definition gate_write :: "u32 \<Rightarrow> provider \<Rightarrow> provider_event \<Rightarrow> (gate \<times> bool \<times> health_signal) option" where
  "gate_write f p ev =
     (case ev of
        Judged Match _ \<Rightarrow> Some (IntegrityGate, True, SIntegrity)
      | Judged Divergence _ \<Rightarrow> Some (IntegrityGate, False, SIntegrity)
      | HealthTick ok s \<Rightarrow>
          (if int (unat f) \<le> streak_step ok (p_streak p) then Some (HealthGate, True, s)
           else if streak_step ok (p_streak p) \<le> - int (unat f) then Some (HealthGate, False, s)
           else None)
      | Quarantined s \<Rightarrow> Some (HealthGate, False, s)
      | _ \<Rightarrow> None)"

text \<open>Each event writes at most one gate, through \<open>set_eligibility_and_log\<close>.\<close>

lemma provider_apply_gates:
  "\<exists>q. p_eligibility q = p_eligibility p \<and> p_log q = p_log p \<and>
     p_streak q = (case ev of HealthTick ok s \<Rightarrow> streak_step ok (p_streak p)
                            | Quarantined s \<Rightarrow> 0 | _ \<Rightarrow> p_streak p) \<and>
     provider_apply f now ev p =
       (case gate_write f p ev of None \<Rightarrow> q
        | Some (gate, v, s) \<Rightarrow> set_eligibility_and_log gate v s q)"
proof (cases ev)
  case (Judged v h)
  then show ?thesis
    by (intro exI [of _ "p\<lparr>p_verdict := encode_verdict v, p_verdict_height := h\<rparr>"])
      (cases v; simp add: gate_write_def record_integrity_def Let_def)
next
  case (HealthTick ok s)
  define q where "q = (record_health_source s p)\<lparr>p_streak := streak_step ok (p_streak p)\<rparr>"
  have "p_eligibility q = p_eligibility p" "p_log q = p_log p"
    "p_streak q = streak_step ok (p_streak p)"
    by (simp_all add: q_def)
  moreover have "provider_apply f now ev p =
       (case gate_write f p ev of None \<Rightarrow> q
        | Some (gate, v, s) \<Rightarrow> set_eligibility_and_log gate v s q)"
    using HealthTick by (simp add: gate_write_def record_health_def Let_def q_def)
  ultimately show ?thesis using HealthTick by auto
next
  case (Quarantined s)
  then show ?thesis
    by (intro exI [of _ "record_health_source s (p\<lparr>p_streak := 0\<rparr>)"])
      (simp add: gate_write_def quarantine_def)
qed (auto simp: gate_write_def)

lemma provider_apply_effects:
  assumes wf: "byte_wf p" and q: "q = provider_apply f now ev p"
  shows "byte_wf q"
    and "healthy q = (case gate_write f p ev of Some (HealthGate, v, _) \<Rightarrow> v | _ \<Rightarrow> healthy p)"
    and "serving_wrong_data q =
           (case gate_write f p ev of Some (IntegrityGate, v, _) \<Rightarrow> \<not> v | _ \<Rightarrow> serving_wrong_data p)"
    and "map fst (p_log q) = map fst (p_log p) @ (if eligible p \<noteq> eligible q then [eligible q] else [])"
    and "p_streak q = (case ev of HealthTick ok s \<Rightarrow> streak_step ok (p_streak p)
                            | Quarantined s \<Rightarrow> 0 | _ \<Rightarrow> p_streak p)"
proof -
  obtain r where r: "p_eligibility r = p_eligibility p" "p_log r = p_log p"
    "p_streak r = (case ev of HealthTick ok s \<Rightarrow> streak_step ok (p_streak p)
                            | Quarantined s \<Rightarrow> 0 | _ \<Rightarrow> p_streak p)"
    "q = (case gate_write f p ev of None \<Rightarrow> r
          | Some (gate, v, s) \<Rightarrow> set_eligibility_and_log gate v s r)"
    using provider_apply_gates [of p ev f now] q by blast
  note same = gates_cong [OF r(1)]
  from wf same have wf': "byte_wf r" by simp
  show "byte_wf q"
    using r(4) wf' set_and_log_gates(1) [OF wf'] by (auto split: option.splits)
  show "healthy q = (case gate_write f p ev of Some (HealthGate, v, _) \<Rightarrow> v | _ \<Rightarrow> healthy p)"
    using r(4) same set_and_log_gates(2) [OF wf'] by (auto split: option.splits gate.splits)
  show "serving_wrong_data q =
      (case gate_write f p ev of Some (IntegrityGate, v, _) \<Rightarrow> \<not> v | _ \<Rightarrow> serving_wrong_data p)"
    using r(4) same set_and_log_gates(3) [OF wf'] by (auto split: option.splits gate.splits)
  show "map fst (p_log q) = map fst (p_log p) @ (if eligible p \<noteq> eligible q then [eligible q] else [])"
  proof (cases "gate_write f p ev")
    case None
    with r(2,4) same show ?thesis by simp
  next
    case (Some w)
    obtain gate v s where "w = (gate, v, s)" by (cases w)
    with Some r(4) have "q = set_eligibility_and_log gate v s r" by simp
    from set_and_log_log [OF wf' this] r(2) same show ?thesis by simp
  qed
  show "p_streak q = (case ev of HealthTick ok s \<Rightarrow> streak_step ok (p_streak p)
                            | Quarantined s \<Rightarrow> 0 | _ \<Rightarrow> p_streak p)"
    using r(3,4) by (simp add: frame_simps split: option.splits prod.splits)
qed

lemma provider_run_wf: "provider_run f p evs q \<Longrightarrow> byte_wf p \<Longrightarrow> byte_wf q"
  by (induction rule: provider_run.induct) (auto intro: provider_apply_effects(1))

lemma provider_new_gates [simp]:
  "byte_wf (provider_new i u s t)" "\<not> healthy (provider_new i u s t)"
  "\<not> serving_wrong_data (provider_new i u s t)" "\<not> eligible (provider_new i u s t)"
  "p_log (provider_new i u s t) = []" "p_streak (provider_new i u s t) = 0"
  "p_id (provider_new i u s t) = i" "p_source (provider_new i u s t) = s"
  "p_url (provider_new i u s t) = u" "p_served (provider_new i u s t) = 0"
  "p_chain_verified (provider_new i u s t) = False" "p_chain_check_due (provider_new i u s t) = True"
  by (simp_all add: provider_new_def byte_wf_def healthy_def serving_wrong_data_def eligible_def
      ALL_GATES_eq)


section \<open>Hysteresis\<close>

text \<open>
  The reference for the health gate: the health results and quarantines of a life, newest
  first. The gate stands as the newest run of at least \<open>k\<close> agreeing results left it, and a
  quarantine shuts it at once.
\<close>

fun health_note :: "provider_event \<Rightarrow> bool option list" where
  "health_note (HealthTick ok _) = [Some ok]"
| "health_note (Quarantined _) = [None]"
| "health_note _ = []"

definition health_notes :: "(instant \<times> provider_event) list \<Rightarrow> bool option list" where
  "health_notes evs = rev (concat (map (health_note \<circ> snd) evs))"

definition newest_run :: "bool option list \<Rightarrow> nat" where
  "newest_run ns = length (takeWhile (\<lambda>n. n = hd ns) ns)"

fun settled :: "nat \<Rightarrow> bool option list \<Rightarrow> bool" where
  "settled k [] = False"
| "settled k (None # ns) = False"
| "settled k (Some b # ns) = (if k \<le> newest_run (Some b # ns) then b else settled k ns)"

definition streak_of :: "bool option list \<Rightarrow> int" where
  "streak_of ns =
     (case ns of
        Some True # _ \<Rightarrow> min (int (newest_run ns)) i64_max
      | Some False # _ \<Rightarrow> max (- int (newest_run ns)) i64_min
      | _ \<Rightarrow> 0)"

lemma newest_run_Cons: "newest_run (n # ns) = (if ns \<noteq> [] \<and> hd ns = n then Suc (newest_run ns) else 1)"
  by (cases ns) (auto simp: newest_run_def)

lemma streak_of_Cons: "streak_of (Some b # ns) = streak_step b (streak_of ns)"
proof (cases ns)
  case Nil
  then show ?thesis
    by (simp add: streak_of_def newest_run_def streak_step_def i64_max_def i64_min_def)
next
  case (Cons n ms)
  then show ?thesis
    by (cases n; cases b; simp split: bool.splits
        add: streak_of_def newest_run_Cons [of _ "_ # _"] streak_step_def i64_max_def i64_min_def min_def max_def)
qed

lemma health_notes_snoc: "health_notes (evs @ [(t, ev)]) = health_note ev @ health_notes evs"
  by (cases ev) (auto simp: health_notes_def)

lemma streak_reach: "k \<le> 2 ^ 32 \<Longrightarrow> int k \<le> streak_of (Some True # ns) \<longleftrightarrow> k \<le> newest_run (Some True # ns)"
  "k \<le> 2 ^ 32 \<Longrightarrow> streak_of (Some False # ns) \<le> - int k \<longleftrightarrow> k \<le> newest_run (Some False # ns)"
  by (auto simp: streak_of_def i64_max_def i64_min_def)

lemma streak_sign: "0 < streak_of (Some True # ns)" "streak_of (Some False # ns) < 0"
  by (auto simp: streak_of_def i64_max_def i64_min_def newest_run_def)

lemma hysteresis_run:
  assumes "provider_run f p evs q" and "p = provider_new i u s t"
  shows "byte_wf q \<and> p_streak q = streak_of (health_notes evs) \<and> healthy q = settled (unat f) (health_notes evs)"
  using assms
proof (induction rule: provider_run.induct)
  case (start f p)
  then show ?case by (simp add: health_notes_def streak_of_def)
next
  case (step f p evs q now ev)
  from step.IH [OF step.prems] have wf: "byte_wf q"
    and streak: "p_streak q = streak_of (health_notes evs)"
    and health: "healthy q = settled (unat f) (health_notes evs)" by simp_all
  note eff = provider_apply_effects [OF wf refl, of f now ev]
  have f: "unat f \<le> 2 ^ 32" using unat_bound [of f] by simp
  have s: "p_streak (provider_apply f now ev q) = streak_of (health_notes (evs @ [(now, ev)]))"
    unfolding eff(5)
  proof (cases ev)
    case (Quarantined sg)
    then show "(case ev of HealthTick ok s \<Rightarrow> streak_step ok (p_streak q) | Quarantined s \<Rightarrow> 0
        | _ \<Rightarrow> p_streak q) = streak_of (health_notes (evs @ [(now, ev)]))"
      by (simp add: health_notes_snoc streak_of_def)
  qed (simp_all add: health_notes_snoc streak_of_Cons streak)
  have h: "healthy (provider_apply f now ev q) = settled (unat f) (health_notes (evs @ [(now, ev)]))"
  proof (cases ev)
    case (Judged v ht)
    then show ?thesis
      unfolding eff(2) by (cases v) (simp_all add: gate_write_def health_notes_snoc health)
  next
    case (HealthTick ok sg)
    have st: "streak_step b (p_streak q) = streak_of (Some b # health_notes evs)" for b
      by (simp add: streak streak_of_Cons)
    have "\<not> int (unat f) \<le> streak_of (Some False # health_notes evs)"
      using streak_sign(2) [of "health_notes evs"] by linarith
    then show ?thesis
      unfolding eff(2) using HealthTick streak_reach [OF f, of "health_notes evs"] streak_sign [of "health_notes evs"]
      by (cases ok) (auto simp: gate_write_def st health_notes_snoc health)
  next
    case (Quarantined sg)
    then show ?thesis unfolding eff(2) by (simp add: gate_write_def health_notes_snoc)
  qed (insert health, simp_all add: healthy_def health_notes_snoc)
  from eff(1) s h show ?case by simp
qed

section \<open>Flips of eligibility\<close>

inductive eligibility_trace :: "u32 \<Rightarrow> provider \<Rightarrow> (instant \<times> provider_event) list \<Rightarrow> bool list \<Rightarrow> provider \<Rightarrow> bool" where
  nil: "eligibility_trace f p [] [] p"
| snoc: "eligibility_trace f p evs es q \<Longrightarrow> r = provider_apply f now ev q \<Longrightarrow>
     eligibility_trace f p (evs @ [(now, ev)]) (es @ [eligible r]) r"

fun flips :: "bool \<Rightarrow> bool list \<Rightarrow> bool list" where
  "flips b [] = []"
| "flips b (e # es) = (if e = b then flips b es else e # flips e es)"

lemma flips_snoc: "flips b (es @ [e]) = flips b es @ (if e = last (b # es) then [] else [e])"
  by (induction es arbitrary: b) auto

lemma flips_alternate: "i < length (flips b es) \<Longrightarrow> flips b es ! i = (b = odd i)"
proof (induction es arbitrary: b i)
  case (Cons e es)
  then show ?case by (cases i) (auto split: if_splits)
qed simp

lemma flips_last: "last (b # es) = (b = even (length (flips b es)))"
  by (induction es arbitrary: b) auto

lemma trace_log:
  assumes "eligibility_trace f p evs es q" and "byte_wf p"
  shows "byte_wf q \<and> eligible q = last (eligible p # es) \<and>
    map fst (p_log q) = map fst (p_log p) @ flips (eligible p) es"
  using assms
proof (induction rule: eligibility_trace.induct)
  case (snoc f p evs es q r now ev)
  note eff = provider_apply_effects [OF _ snoc.hyps(2)]
  from snoc.IH [OF snoc.prems] have ih: "byte_wf q" "eligible q = last (eligible p # es)"
    "map fst (p_log q) = map fst (p_log p) @ flips (eligible p) es" by simp_all
  have "map fst (p_log r) = map fst (p_log p) @ flips (eligible p) (es @ [eligible r])"
    using eff(4) [OF ih(1)] ih(2,3) by (auto simp: flips_snoc)
  with eff(1) [OF ih(1)] show ?case by simp
qed simp

section \<open>Properties of the entry\<close>

text \<open>
  C11. Hysteresis. In every life of an entry, whatever the order of probes, traffic,
  rounds and settlements, the health gate is exactly what the reference says: the value of the
  newest run of at least \<open>flip_after\<close> agreeing results, closed at birth and by a quarantine.
\<close>

theorem health_is_hysteresis:
  assumes "provider_run f (provider_new i u s t) evs p"
  shows "healthy p = settled (unat f) (health_notes evs)"
  using hysteresis_run [OF assms refl] by blast

lemma health_is_hysteresis_witness:
  "healthy (provider_apply 2 0 (HealthTick True SProbe)
     (provider_apply 2 0 (HealthTick True SProbe) (provider_new ''a'' (Url ''u'') Static 0))) =
   settled 2 [Some True, Some True]"
proof -
  have "provider_run 2 (provider_new ''a'' (Url ''u'') Static 0)
    (([] @ [(0, HealthTick True SProbe)]) @ [(0, HealthTick True SProbe)])
    (provider_apply 2 0 (HealthTick True SProbe)
     (provider_apply 2 0 (HealthTick True SProbe) (provider_new ''a'' (Url ''u'') Static 0)))"
    by (intro provider_run.intros)
  from health_is_hysteresis [OF this] show ?thesis by (simp add: health_notes_def)
qed

text \<open>
  Who can bring an entry into rotation. When an event makes an ineligible entry eligible,
  it is either a passing integrity round or a successful health result with the streak at
  \<open>flip_after\<close>; a failure of client traffic, a lag, a quarantine or a settlement never does.
\<close>

theorem only_successes_admit:
  assumes "provider_run f (provider_new i u s t) evs p"
    and "\<not> eligible p" and "eligible (provider_apply f now ev p)"
  shows "(\<exists>height. ev = Judged Match height) \<or>
    (\<exists>source. ev = HealthTick True source \<and> unat f \<le> newest_run (Some True # health_notes evs))"
proof -
  from hysteresis_run [OF assms(1) refl]
  have wf: "byte_wf p" and st: "p_streak p = streak_of (health_notes evs)" by simp_all
  note eff = provider_apply_effects [OF wf refl, of f now ev]
  from assms(2,3) eff(1-3) wf have "\<exists>g s. gate_write f p ev = Some (g, True, s)"
    by (auto simp: eligible_gates split: option.splits gate.splits)
  moreover have "unat f \<le> 2 ^ 32" using unat_bound [of f] by simp
  ultimately show ?thesis
  proof (cases ev)
    case (Judged v ht)
    with \<open>\<exists>g s. gate_write f p ev = Some (g, True, s)\<close> show ?thesis
      by (cases v) (simp_all add: gate_write_def)
  next
    case (HealthTick ok sg)
    with \<open>\<exists>g s. gate_write f p ev = Some (g, True, s)\<close>
    have "int (unat f) \<le> streak_of (Some ok # health_notes evs)"
      by (auto simp: gate_write_def st streak_of_Cons split: if_splits)
    moreover from this have "0 \<le> streak_of (Some ok # health_notes evs)"
      by (rule order_trans [OF of_nat_0_le_iff])
    then have "ok" using streak_sign(2) [of "health_notes evs"] by (cases ok) auto
    ultimately show ?thesis
      using HealthTick streak_reach(1) [OF \<open>unat f \<le> 2 ^ 32\<close>, of "health_notes evs"] by simp
  qed (auto simp: gate_write_def)
qed

lemma only_successes_admit_witness:
  "(\<exists>height. HealthTick True SProbe = Judged Match height) \<or>
    (\<exists>source. HealthTick True SProbe = HealthTick True source \<and>
       unat (1 :: u32) \<le> newest_run (Some True # health_notes []))"
proof (rule only_successes_admit [where p = "provider_new ''a'' (Url ''u'') Static 0" and now = 0])
  show "provider_run 1 (provider_new ''a'' (Url ''u'') Static 0) [] (provider_new ''a'' (Url ''u'') Static 0)"
    by (rule provider_run.start)
  show "eligible (provider_apply 1 0 (HealthTick True SProbe) (provider_new ''a'' (Url ''u'') Static 0))"
    by (simp add: provider_new_def record_health_def record_health_source_def streak_step_def i64_max_def
        set_eligibility_and_log_def set_eligibility_def eligible_def ALL_GATES_eq)
qed simp

text \<open>
  Every flip is logged once. From birth on, the events the log holds are exactly the
  changes of what \<open>eligible()\<close> answers, in order: they alternate, beginning with an
  admission, and the entry is in rotation exactly when their number is odd.
\<close>

theorem flips_logged_once:
  assumes "eligibility_trace f (provider_new i u s t) evs es p"
  shows "map fst (p_log p) = flips False es \<and>
    (\<forall>i < length (p_log p). fst (p_log p ! i) = even i) \<and>
    eligible p = odd (length (p_log p))"
proof -
  from trace_log [OF assms] have log: "map fst (p_log p) = flips False es"
    and el: "eligible p = last (False # es)" by simp_all
  from log have len: "length (p_log p) = length (flips False es)" by (metis length_map)
  have "fst (p_log p ! i) = even i" if "i < length (p_log p)" for i
    using that flips_alternate [of i False es] log len by (metis nth_map)
  with log el flips_last [of False es] len show ?thesis by auto
qed

lemma flips_logged_once_witness:
  "map fst (p_log (provider_apply 1 0 (HealthTick True SProbe) (provider_new ''a'' (Url ''u'') Static 0))) =
     flips False [True]"
proof -
  have e: "eligible (provider_apply 1 0 (HealthTick True SProbe) (provider_new ''a'' (Url ''u'') Static 0))"
    by (simp add: provider_new_def record_health_def record_health_source_def streak_step_def i64_max_def
        set_eligibility_and_log_def set_eligibility_def eligible_def ALL_GATES_eq)
  have "eligibility_trace 1 (provider_new ''a'' (Url ''u'') Static 0) ([] @ [(0, HealthTick True SProbe)])
    ([] @ [eligible (provider_apply 1 0 (HealthTick True SProbe) (provider_new ''a'' (Url ''u'') Static 0))])
    (provider_apply 1 0 (HealthTick True SProbe) (provider_new ''a'' (Url ''u'') Static 0))"
    by (rule eligibility_trace.snoc [OF eligibility_trace.nil refl])
  from flips_logged_once [OF this] e show ?thesis by simp
qed


text \<open>The integrity gate: shut while the newest decisive verdict, of those given newest first, is a divergence.\<close>

fun diverging :: "(instant \<times> provider_event) list \<Rightarrow> bool" where
  "diverging [] = False"
| "diverging ((_, Judged Match _) # evs) = False"
| "diverging ((_, Judged Divergence _) # evs) = True"
| "diverging (_ # evs) = diverging evs"

definition wrong_data :: "(instant \<times> provider_event) list \<Rightarrow> bool" where
  "wrong_data evs = diverging (rev evs)"

lemma wrong_data_snoc:
  "wrong_data (evs @ [(t, ev)]) =
     (case ev of Judged Match _ \<Rightarrow> False | Judged Divergence _ \<Rightarrow> True | _ \<Rightarrow> wrong_data evs)"
proof (cases ev)
  case (Judged v h)
  then show ?thesis by (cases v) (simp_all add: wrong_data_def)
qed (simp_all add: wrong_data_def)

lemma integrity_run:
  assumes "provider_run f p evs q" and "p = provider_new i u s t"
  shows "byte_wf q \<and> serving_wrong_data q = wrong_data evs"
  using assms
proof (induction rule: provider_run.induct)
  case (start f p)
  then show ?case by (simp add: wrong_data_def)
next
  case (step f p evs q now ev)
  from step.IH [OF step.prems] have wf: "byte_wf q" and w: "serving_wrong_data q = wrong_data evs"
    by simp_all
  note eff = provider_apply_effects [OF wf refl, of f now ev]
  have "(case gate_write f q ev of Some (IntegrityGate, v, _) \<Rightarrow> \<not> v | _ \<Rightarrow> serving_wrong_data q) =
      wrong_data (evs @ [(now, ev)])"
    unfolding wrong_data_snoc w
    by (cases ev) (auto simp: gate_write_def split: verdict.splits)
  with eff(1,3) show ?case by simp
qed

text \<open>
  Eligible is both gates. In every life of an entry \<open>eligible()\<close> holds exactly when the
  probes pass and no divergence stands since the last passing round, whatever the probes said in
  between; and while it does not hold, the admin view names the gate that is shut: the newest
  health signal when it is health, \<open>integrity\<close> when only the data is wrong.
\<close>

theorem eligible_is_both_gates:
  assumes "provider_run f (provider_new i u s t) evs p"
  shows "eligible p = (settled (unat f) (health_notes evs) \<and> \<not> wrong_data evs) \<and>
    ineligibility_reason p =
      (if eligible p then None
       else if settled (unat f) (health_notes evs) then Some ''integrity''
       else map_option signal_as_str (from_code (p_last_source p)))"
  using hysteresis_run [OF assms refl] integrity_run [OF assms refl]
  by (auto simp: eligible_gates ineligibility_reason_def)

lemma eligible_is_both_gates_witness:
  "ineligibility_reason (provider_new ''a'' (Url ''u'') Static 0) = Some ''probe''"
proof -
  have "provider_run 2 (provider_new ''a'' (Url ''u'') Static 0) [] (provider_new ''a'' (Url ''u'') Static 0)"
    by (rule provider_run.start)
  from eligible_is_both_gates [OF this] show ?thesis
    by (simp add: health_notes_def) (simp add: provider_new_def signal.dec_enc del: signal_code.simps)
qed

section \<open>Settled counts\<close>

lemma served_simps [simp]:
  "p_served (record_served now p) = p_served p + 1"
  "p_served (subtract_served c p) = sat_sub (p_served p) c"
  "p_served (seed_served c p) = p_served p + c"
  by (simp_all add: record_served_def record_answer_def subtract_served_def seed_served_def)

lemma pool_id_simps [simp]:
  "p_id (record_served now p) = p_id p" "p_source (record_served now p) = p_source p"
  "p_id (subtract_served c p) = p_id p" "p_source (subtract_served c p) = p_source p"
  "p_id (seed_served c p) = p_id p" "p_source (seed_served c p) = p_source p"
  "p_served_total (subtract_served c p) = p_served_total p"
  "p_served_total (seed_served c p) = p_served_total p"
  "p_served_total (record_served now p) = p_served_total p + 1"
  by (simp_all add: record_served_def record_answer_def subtract_served_def seed_served_def)

text \<open>What is read back of a height, a probe time and a verdict.\<close>

lemma last_height_record: "last_height (record_height h p) = Some (min h (u64_max - 1))"
proof -
  have "min h (u64_max - 1) \<noteq> u64_max"
    by (auto simp: min_def word_le_nat_alt unsigned_minus_1_eq_mask mask_eq_exp_minus_1)
  then show ?thesis by (simp add: last_height_def record_height_def)
qed

lemma last_verdict_record: "last_verdict (record_integrity v h p) = Some (v, h)"
proof -
  have "decode_verdict (p_verdict (record_integrity v h p)) = Some v"
    "p_verdict_height (record_integrity v h p) = h"
    by (cases v; simp add: record_integrity_def Let_def frame_simps verdict_code.dec_enc
        del: encode_verdict.simps)+
  then show ?thesis by (simp add: last_verdict_def)
qed

lemma answered_since_record:
  assumes "p_created p \<le> now" "since \<le> now" "as_millis (now - p_created p) < 2 ^ 64 - 1"
  shows "answered_since since (record_answer now p)"
proof -
  have n: "unat (age_ms now p) = as_millis (now - p_created p)"
    using assms(3) by (simp add: age_ms_def unat_of_nat)
  have "age_ms now p \<noteq> u64_max"
    using n assms(3) by (auto simp: unsigned_minus_1_eq_mask mask_eq_exp_minus_1)
  moreover have "as_millis (since - p_created p) \<le> as_millis (now - p_created p)"
    using assms(2) by (simp add: as_millis_def div_le_mono diff_le_mono)
  ultimately show ?thesis by (simp add: answered_since_def record_answer_def n)
qed

text \<open>
  A provider that answered is not down. After an answer at \<open>now\<close>, to a client or to
  a probe, \<open>answered_since\<close> holds for every earlier moment, so a request that times out later
  is not charged to it; a provider that never answered has not answered since any moment. The
  process must have run less than 2 to the 64 milliseconds.
\<close>

theorem an_answer_is_seen:
  assumes "p_created p \<le> now" and "since \<le> now" and "as_millis (now - p_created p) < 2 ^ 64 - 1"
  shows "answered_since since (record_served now p) \<and> answered_since since (record_answered_probe now p) \<and>
    \<not> answered_since since (provider_new i u s t)"
proof -
  have "answered_since since (record_served now p)"
    unfolding record_served_def by (rule answered_since_record) (use assms in simp_all)
  moreover have "answered_since since (record_answered_probe now p)"
    unfolding record_answered_probe_def by (rule answered_since_record) (use assms in simp_all)
  moreover have "\<not> answered_since since (provider_new i u s t)"
    by (simp add: answered_since_def provider_new_def)
  ultimately show ?thesis by simp
qed

lemma an_answer_is_seen_witness:
  "answered_since 3000000 (record_served 5000000 (provider_new ''a'' (Url ''u'') Static 1000000))"
  using an_answer_is_seen [of "provider_new ''a'' (Url ''u'') Static 1000000" 5000000 3000000
      "''a''" "Url ''u''" Static 0]
  by (simp add: provider_new_def as_millis_def)

section \<open>Failures and health results\<close>

lemma failing_step_negative: "streak_step False s < 0"
  by (simp add: streak_step_def i64_min_def)

lemma set_and_log_false_not_eligible: "\<not> eligible (set_eligibility_and_log HealthGate False s p)"
proof -
  have "and (p_eligibility p) (not 1) \<noteq> 3"
  proof
    assume "and (p_eligibility p) (not 1) = 3"
    then have "and (and (p_eligibility p) (not 1)) 1 = and 3 1" by simp
    then show False by (simp add: and.assoc)
  qed
  then show ?thesis
    by (simp add: set_eligibility_and_log_def set_eligibility_def eligible_def ALL_GATES_eq Let_def)
qed

text \<open>A failure can close the health gate and never opens a gate.\<close>

lemma failure_never_admits: "eligible (record_health False f s p) \<Longrightarrow> eligible p"
proof -
  assume e: "eligible (record_health False f s p)"
  let ?q = "(record_health_source s p)\<lparr>p_streak := streak_step False (p_streak p)\<rparr>"
  have n: "\<not> int (unat f) \<le> streak_step False (p_streak p)"
    using failing_step_negative [of "p_streak p"] by linarith
  then have "record_health False f s p = ?q \<or>
      record_health False f s p = set_eligibility_and_log HealthGate False s ?q"
    by (simp add: record_health_def Let_def)
  with e set_and_log_false_not_eligible have "eligible ?q" by metis
  then show "eligible p" by (simp add: eligible_def)
qed

lemma served_eligible [simp]:
  "eligible (record_served now p) = eligible p"
  "eligible (record_transport_failure p) = eligible p"
  by (simp_all add: eligible_def)

lemma record_health_fields [simp]:
  "p_served (record_health ok f s p) = p_served p"
  "p_served_total (record_health ok f s p) = p_served_total p"
  "p_transport_failures (record_health ok f s p) = p_transport_failures p"
  "p_id (record_health ok f s p) = p_id p"
  "p_url (record_health ok f s p) = p_url p"
  "p_source (record_health ok f s p) = p_source p"
  "p_streak (record_health ok f s p) = streak_step ok (p_streak p)"
  "p_last_answer_ms (record_health ok f s p) = p_last_answer_ms p"
  by (simp_all add: record_health_def Let_def frame_simps record_health_source_def)

lemma transport_failure_fields [simp]:
  "p_served (record_transport_failure p) = p_served p"
  "p_served_total (record_transport_failure p) = p_served_total p"
  "p_transport_failures (record_transport_failure p) = p_transport_failures p + 1"
  "p_streak (record_transport_failure p) = p_streak p"
  "p_transport_failures (record_served now p) = p_transport_failures p"
  by (simp_all add: record_transport_failure_def record_served_def record_answer_def)

end
