(* ===== verification/Rotation.thy ===== *)
theory Rotation
  imports Pool
begin

text \<open>
  The membership's proofs: what \<open>add\<close>, \<open>remove\<close> and \<open>get\<close> keep, that a selection finds an
  eligible member whenever there is one, also when concurrent selections move the cursor between
  its samples, and that undisturbed selections go round the eligible members in order.
\<close>

section \<open>Membership\<close>

definition pool_wf :: "pool \<Rightarrow> bool" where
  "pool_wf pool \<longleftrightarrow> distinct (pl_members pool) \<and> (\<forall>r \<in> set (pl_members pool). r < pl_fresh pool)"

definition member_ids :: "pool \<Rightarrow> string list" where
  "member_ids pool = map (\<lambda>r. p_id (entry pool r)) (pl_members pool)"

lemma pool_new_wf: "pool_new L now cs = Inr pool \<Longrightarrow> pool_wf pool"
  by (auto simp: pool_new_def rbind_Inr_iff pool_wf_def)

lemma pool_add_simps:
  assumes "pool_add p pool = (r, pool')"
  shows "r = pl_fresh pool" "pl_members pool' = pl_members pool @ [r]" "entry pool' r = p"
    "\<And>s. s \<noteq> r \<Longrightarrow> entry pool' s = entry pool s" "pl_fresh pool' = Suc (pl_fresh pool)"
    "pl_cursor pool' = pl_cursor pool" "pl_outcomes pool' = pl_outcomes pool"
  using assms by (auto simp: pool_add_def alloc_def entry_def)

lemma pool_add_wf [step_intros]: "pool_wf pool \<Longrightarrow> pool_add p pool = (r, pool') \<Longrightarrow> pool_wf pool'"
  using pool_add_simps [of p pool r pool'] by (auto simp: pool_wf_def less_Suc_eq)

lemma pool_add_ids:
  assumes "pool_wf pool" and "pool_add p pool = (r, pool')"
  shows "member_ids pool' = member_ids pool @ [p_id p]"
proof -
  note a = pool_add_simps [OF assms(2)]
  have "s \<noteq> r" if "s \<in> set (pl_members pool)" for s
    using that assms(1) a(1) by (auto simp: pool_wf_def)
  then have "map (\<lambda>s. p_id (entry pool' s)) (pl_members pool) = map (\<lambda>s. p_id (entry pool s)) (pl_members pool)"
    using a(4) by simp
  with a(2,3) show ?thesis by (simp add: member_ids_def)
qed

lemma pool_get_Some:
  "pool_get ident pool = Some r \<Longrightarrow> r \<in> set (pl_members pool) \<and> p_id (entry pool r) = ident"
  by (auto simp: pool_get_def snapshot_def find_Some_iff)

lemma pool_get_None: "pool_get ident pool = None \<longleftrightarrow> ident \<notin> set (member_ids pool)"
  by (auto simp: pool_get_def snapshot_def find_None_iff member_ids_def)

lemma pool_remove_simps:
  assumes "pool_remove ident pool = (found, pool')"
  shows "found = pool_get ident pool" "pl_heap pool' = pl_heap pool"
    "pl_members pool' = (case found of None \<Rightarrow> pl_members pool | Some r \<Rightarrow> remove1 r (pl_members pool))"
    "pl_fresh pool' = pl_fresh pool" "pl_outcomes pool' = pl_outcomes pool" "entry pool' = entry pool"
  using assms by (auto simp: pool_remove_def entry_def fun_eq_iff split: option.splits)

lemma pool_remove_wf [step_intros]:
  "pool_wf pool \<Longrightarrow> pool_remove ident pool = (found, pool') \<Longrightarrow> pool_wf pool'"
  using pool_remove_simps [of ident pool found pool']
  by (auto simp: pool_wf_def split: option.splits dest: in_set_remove1 notin_set_remove1)

lemma entry_update_simps [simp]:
  "entry (entry_update r f pool) s = (if s = r then f (entry pool r) else entry pool s)"
  "pl_members (entry_update r f pool) = pl_members pool"
  "pl_fresh (entry_update r f pool) = pl_fresh pool"
  "pl_cursor (entry_update r f pool) = pl_cursor pool"
  "pl_outcomes (entry_update r f pool) = pl_outcomes pool"
  "snapshot (entry_update r f pool) = snapshot pool"
  by (simp_all add: entry_update_def entry_def snapshot_def)

lemma entry_update_wf [step_intros]: "pool_wf pool \<Longrightarrow> pool_wf (entry_update r f pool)"
  by (simp add: pool_wf_def)

section \<open>Selection\<close>

text \<open>
  A selection while others advance the cursor: its samples are any positions. \<open>next_eligible\<close>
  is the undisturbed case.
\<close>

definition select_sampled :: "(pref \<Rightarrow> bool) \<Rightarrow> pref list \<Rightarrow> u64 list \<Rightarrow> pref option" where
  "select_sampled el members samples =
     (if members = [] then None
      else case find el (map (\<lambda>c. members ! (unat c mod length members)) samples) of
             Some r \<Rightarrow> Some r
           | None \<Rightarrow> find el members)"

lemma lap_samples:
  "fst (lap el members n c) =
     find el (map (\<lambda>c. members ! (unat c mod length members)) (map (\<lambda>i. c + word_of_nat i) [0..<n]))"
proof (induction n arbitrary: c)
  case (Suc n)
  have "[0..<Suc n] = 0 # map Suc [0..<n]" by (simp only: upt_conv_Cons map_Suc_upt zero_less_Suc)
  then show ?case
    using Suc [of "c + 1"] by (simp add: Let_def o_def add_ac del: upt_Suc)
qed simp

lemma next_eligible_select:
  "fst (next_eligible pool) =
     select_sampled (\<lambda>r. eligible (entry pool r)) (pl_members pool)
       (map (\<lambda>i. pl_cursor pool + word_of_nat i) [0..<length (pl_members pool)])"
proof -
  obtain found c where l: "lap (\<lambda>r. eligible (entry pool r)) (pl_members pool) (length (pl_members pool))
      (pl_cursor pool) = (found, c)" by fastforce
  with lap_samples [of "\<lambda>r. eligible (entry pool r)" "pl_members pool" "length (pl_members pool)" "pl_cursor pool"]
  show ?thesis by (auto simp: next_eligible_def select_sampled_def Let_def l split: option.splits)
qed

lemma select_sampled_Some: "select_sampled el members samples = Some r \<Longrightarrow> r \<in> set members \<and> el r"
  by (auto simp: select_sampled_def find_Some_iff split: option.splits if_splits)

lemma select_sampled_None: "select_sampled el members samples = None \<longleftrightarrow> (\<forall>r \<in> set members. \<not> el r)"
proof (cases "select_sampled el members samples")
  case None
  then show ?thesis by (auto simp: select_sampled_def find_None_iff split: option.splits if_splits)
next
  case (Some r)
  with select_sampled_Some [OF Some] show ?thesis by auto
qed

lemma next_eligible_frame:
  "\<exists>c. snd (next_eligible pool) = pool\<lparr>pl_cursor := c\<rparr>"
proof -
  have "\<exists>c. pool = pool\<lparr>pl_cursor := c\<rparr>" by (intro exI [of _ "pl_cursor pool"]) simp
  then show ?thesis by (auto simp: next_eligible_def Let_def split: prod.splits option.splits)
qed

lemma next_eligible_fields [simp]:
  "pl_members (snd (next_eligible pool)) = pl_members pool"
  "pl_heap (snd (next_eligible pool)) = pl_heap pool"
  "entry (snd (next_eligible pool)) = entry pool"
  "pl_outcomes (snd (next_eligible pool)) = pl_outcomes pool"
  "pl_fresh (snd (next_eligible pool)) = pl_fresh pool"
  "snapshot (snd (next_eligible pool)) = snapshot pool"
  using next_eligible_frame [of pool] by (auto simp: entry_def snapshot_def fun_eq_iff)

lemma next_eligible_Some:
  "fst (next_eligible pool) = Some r \<Longrightarrow> r \<in> set (pl_members pool) \<and> eligible (entry pool r)"
  using next_eligible_select [of pool] select_sampled_Some by metis

lemma next_eligible_None:
  "fst (next_eligible pool) = None \<longleftrightarrow> (\<forall>r \<in> set (pl_members pool). \<not> eligible (entry pool r))"
  using next_eligible_select [of pool] select_sampled_None by metis


section \<open>Round robin\<close>

fun turns :: "nat \<Rightarrow> pool \<Rightarrow> pref option list \<times> pool" where
  "turns 0 pool = ([], pool)"
| "turns (Suc k) pool =
     (let (r, pool) = next_eligible pool;
          (rs, pool) = turns k pool
      in (r # rs, pool))"

definition at_position :: "pref list \<Rightarrow> nat \<Rightarrow> pref" where
  "at_position members i = members ! (i mod length members)"

lemma lap_walk:
  assumes "unat c + n < 2 ^ 64" and "\<exists>i \<in> {unat c ..< unat c + n}. el (at_position members i)"
  obtains j where "unat c \<le> j" "j < unat c + n" "el (at_position members j)"
    "filter (\<lambda>i. el (at_position members i)) [unat c ..< Suc j] = [j]"
    "lap el members n c = (Some (at_position members j), word_of_nat (Suc j))"
  using assms
proof (induction n arbitrary: c thesis)
  case (Suc n)
  have c1: "unat (c + 1) = Suc (unat c)" using Suc.prems(2) by (intro unat_Suc_no_wrap) simp
  show ?case
  proof (cases "el (at_position members (unat c))")
    case True
    have w: "word_of_nat (Suc (unat c)) = c + 1" by simp
    from True have f: "filter (\<lambda>i. el (at_position members i)) [unat c ..< Suc (unat c)] = [unat c]"
      by simp
    from True have lap: "lap el members (Suc n) c = (Some (at_position members (unat c)), word_of_nat (Suc (unat c)))"
      unfolding w by (simp add: at_position_def)
    show ?thesis by (rule Suc.prems(1) [OF _ _ True f lap]) simp_all
  next
    case False
    with Suc.prems(3) obtain i where i: "i \<in> {unat c ..< unat c + Suc n}" "el (at_position members i)" by blast
    with False have "i \<noteq> unat c" by metis
    with i have "\<exists>i \<in> {unat (c + 1) ..< unat (c + 1) + n}. el (at_position members i)"
      unfolding c1 by (intro bexI [of _ i]) simp_all
    from Suc.IH [OF _ _ this] Suc.prems(2) c1 obtain j where j: "Suc (unat c) \<le> j" "j < unat c + Suc n"
      "el (at_position members j)" "filter (\<lambda>i. el (at_position members i)) [Suc (unat c) ..< Suc j] = [j]"
      "lap el members n (c + 1) = (Some (at_position members j), word_of_nat (Suc j))"
      by auto
    moreover have "filter (\<lambda>i. el (at_position members i)) [unat c ..< Suc j] = [j]"
      using j(1,4) False by (simp add: upt_rec [of "unat c"] del: upt_Suc)
    moreover have "lap el members (Suc n) c = (Some (at_position members j), word_of_nat (Suc j))"
      using False j(5) by (simp add: at_position_def Let_def)
    ultimately show ?thesis by (intro Suc.prems(1) [of j]) auto
  qed
qed simp

lemma positions_cover:
  assumes "r \<in> set members"
  shows "\<exists>i \<in> {c ..< c + length members}. at_position members i = r"
proof -
  obtain i where "i < length members" "rotate c members ! i = r"
    using assms by (metis in_set_conv_nth set_rotate length_rotate)
  then show ?thesis
    by (intro bexI [of _ "c + i"]) (auto simp: at_position_def nth_rotate)
qed

lemma positions_rotate: "map (at_position members) [c ..< c + length members] = rotate c members"
  by (rule nth_equalityI) (simp_all add: at_position_def nth_rotate)

lemma turn:
  assumes "\<exists>r \<in> set (pl_members pool). eligible (entry pool r)"
    and "unat (pl_cursor pool) + length (pl_members pool) < 2 ^ 64"
  obtains j where "unat (pl_cursor pool) \<le> j" "j < unat (pl_cursor pool) + length (pl_members pool)"
    "filter (\<lambda>i. eligible (entry pool (at_position (pl_members pool) i))) [unat (pl_cursor pool) ..< Suc j] = [j]"
    "next_eligible pool = (Some (at_position (pl_members pool) j), pool\<lparr>pl_cursor := word_of_nat (Suc j)\<rparr>)"
proof -
  from assms(1) have "\<exists>i \<in> {unat (pl_cursor pool) ..< unat (pl_cursor pool) + length (pl_members pool)}.
      eligible (entry pool (at_position (pl_members pool) i))"
    using positions_cover [of _ "pl_members pool" "unat (pl_cursor pool)"] by metis
  from lap_walk [OF assms(2) this] obtain j where j: "unat (pl_cursor pool) \<le> j"
    "j < unat (pl_cursor pool) + length (pl_members pool)"
    "filter (\<lambda>i. eligible (entry pool (at_position (pl_members pool) i))) [unat (pl_cursor pool) ..< Suc j] = [j]"
    "lap (\<lambda>r. eligible (entry pool r)) (pl_members pool) (length (pl_members pool)) (pl_cursor pool) =
       (Some (at_position (pl_members pool) j), word_of_nat (Suc j))" by metis
  from assms(1) have "pl_members pool \<noteq> []" by auto
  with j(4) have "next_eligible pool =
      (Some (at_position (pl_members pool) j), pool\<lparr>pl_cursor := word_of_nat (Suc j)\<rparr>)"
    by (simp add: next_eligible_def)
  with j that show ?thesis by blast
qed

lemma turns_walk:
  assumes "\<exists>r \<in> set (pl_members pool). eligible (entry pool r)"
    and "unat (pl_cursor pool) + k * length (pl_members pool) < 2 ^ 64"
  shows "\<exists>c'. unat (pl_cursor pool) \<le> c' \<and>
     fst (turns k pool) = map (\<lambda>i. Some (at_position (pl_members pool) i))
       (filter (\<lambda>i. eligible (entry pool (at_position (pl_members pool) i))) [unat (pl_cursor pool) ..< c']) \<and>
     length (filter (\<lambda>i. eligible (entry pool (at_position (pl_members pool) i))) [unat (pl_cursor pool) ..< c']) = k \<and>
     (if k = 0 then c' = unat (pl_cursor pool)
      else unat (pl_cursor pool) < c' \<and> eligible (entry pool (at_position (pl_members pool) (c' - 1))))"
  using assms
proof (induction k arbitrary: pool)
  case (Suc k)
  from Suc.prems(2) have "unat (pl_cursor pool) + length (pl_members pool) < 2 ^ 64" by simp
  from turn [OF Suc.prems(1) this] obtain j where j: "unat (pl_cursor pool) \<le> j"
    "j < unat (pl_cursor pool) + length (pl_members pool)"
    "filter (\<lambda>i. eligible (entry pool (at_position (pl_members pool) i))) [unat (pl_cursor pool) ..< Suc j] = [j]"
    "next_eligible pool = (Some (at_position (pl_members pool) j), pool\<lparr>pl_cursor := word_of_nat (Suc j)\<rparr>)"
    by metis
  let ?p = "pool\<lparr>pl_cursor := word_of_nat (Suc j)\<rparr>"
  have e: "entry ?p = entry pool" by (simp add: entry_def fun_eq_iff)
  from j(2) Suc.prems(2) have "Suc j < 2 ^ 64" by simp
  then have c: "unat (pl_cursor ?p) = Suc j" by (simp add: unat_of_nat del: of_nat_Suc)
  have b: "unat (pl_cursor ?p) + k * length (pl_members ?p) < 2 ^ 64"
    using c j(2) Suc.prems(2) by simp
  from Suc.prems(1) e have x: "\<exists>r \<in> set (pl_members ?p). eligible (entry ?p r)" by simp
  have mp: "pl_members ?p = pl_members pool" by simp
  from Suc.IH [OF x b, unfolded c e mp] obtain c' where c': "Suc j \<le> c'"
    "fst (turns k ?p) = map (\<lambda>i. Some (at_position (pl_members pool) i))
       (filter (\<lambda>i. eligible (entry pool (at_position (pl_members pool) i))) [Suc j ..< c'])"
    "length (filter (\<lambda>i. eligible (entry pool (at_position (pl_members pool) i))) [Suc j ..< c']) = k"
    "if k = 0 then c' = Suc j else Suc j < c' \<and> eligible (entry pool (at_position (pl_members pool) (c' - 1)))"
    by (elim exE conjE)
  have split: "[unat (pl_cursor pool) ..< c'] = [unat (pl_cursor pool) ..< Suc j] @ [Suc j ..< c']"
    using j(1) c'(1) by (metis le_SucI le_add_diff_inverse upt_add_eq_append)
  have el: "eligible (entry pool (at_position (pl_members pool) j))"
  proof -
    have "j \<in> set (filter (\<lambda>i. eligible (entry pool (at_position (pl_members pool) i)))
        [unat (pl_cursor pool) ..< Suc j])"
      unfolding j(3) by simp
    then show ?thesis by simp
  qed
  have last: "unat (pl_cursor pool) < c' \<and> eligible (entry pool (at_position (pl_members pool) (c' - 1)))"
    using c'(1,4) el j(1) by (auto split: if_splits)
  have "fst (turns (Suc k) pool) = Some (at_position (pl_members pool) j) # fst (turns k ?p)"
    by (simp add: j(4) split: prod.splits)
  then have "fst (turns (Suc k) pool) = map (\<lambda>i. Some (at_position (pl_members pool) i))
      (filter (\<lambda>i. eligible (entry pool (at_position (pl_members pool) i))) [unat (pl_cursor pool) ..< c'])"
    unfolding split filter_append j(3) c'(2) by simp
  moreover have "length (filter (\<lambda>i. eligible (entry pool (at_position (pl_members pool) i)))
      [unat (pl_cursor pool) ..< c']) = Suc k"
    unfolding split filter_append j(3) length_append c'(3) by simp
  ultimately show ?case using last by (intro exI [of _ c']) simp
qed auto

text \<open>
  C10. Round robin. Undisturbed, as many selections as there are eligible members
  return exactly the eligible members, each once, in the order of the list from the cursor on.
  The cursor, a word, must not wrap within them.
\<close>

theorem round_robin:
  assumes "unat (pl_cursor pool) +
      length (filter (\<lambda>r. eligible (entry pool r)) (pl_members pool)) * length (pl_members pool) < 2 ^ 64"
  shows "fst (turns (length (filter (\<lambda>r. eligible (entry pool r)) (pl_members pool))) pool) =
    map Some (filter (\<lambda>r. eligible (entry pool r)) (rotate (unat (pl_cursor pool)) (pl_members pool)))"
proof -
  define ms where "ms = pl_members pool"
  define el where "el = (\<lambda>r. eligible (entry pool r))"
  define c where "c = unat (pl_cursor pool)"
  define P where "P a b = filter (\<lambda>i. el (at_position ms i)) [a ..< b]" for a b
  have whole: "map (at_position ms) (P c (c + length ms)) = filter el (rotate c ms)"
    by (simp add: P_def flip: positions_rotate filter_map [unfolded o_def])
  have count: "length (P c (c + length ms)) = length (filter el ms)"
  proof -
    have "length (P c (c + length ms)) = length (filter el (rotate c ms))"
      by (metis whole length_map)
    also have "\<dots> = length (filter el (take (c mod length ms) ms @ drop (c mod length ms) ms))"
      by (simp only: rotate_drop_take filter_append length_append add.commute)
    also have "\<dots> = length (filter el ms)" by simp
    finally show ?thesis .
  qed
  show ?thesis
  proof (cases "\<exists>r \<in> set ms. el r")
    case False
    then have "filter el ms = []" "filter el (rotate c ms) = []" by (auto simp: filter_empty_conv)
    then show ?thesis by (simp flip: ms_def el_def c_def)
  next
    case True
    then have "filter el ms \<noteq> []" by (auto simp: filter_empty_conv)
    with turns_walk [of pool "length (filter el ms)"] True assms obtain c' where c': "c \<le> c'"
      "fst (turns (length (filter el ms)) pool) = map (\<lambda>i. Some (at_position ms i)) (P c c')"
      "length (P c c') = length (filter el ms)" "c < c'" "el (at_position ms (c' - 1))"
      unfolding ms_def el_def c_def P_def by auto
    have "c' \<le> c + length ms"
    proof (rule ccontr)
      assume "\<not> c' \<le> c + length ms"
      then obtain d where d: "c' = Suc (c + length ms + d)" by (metis less_iff_Suc_add not_le)
      have "P c c' = P c (c + length ms) @ P (c + length ms) (c + length ms + d) @ [c' - 1]"
        using c'(5) unfolding P_def d by (simp add: upt_add_eq_append [of c "c + length ms" d])
      with c'(3) count show False by simp
    qed
    then have "P c (c + length ms) = P c c' @ P c' (c + length ms)"
      using c'(1) by (metis P_def filter_append le_add_diff_inverse upt_add_eq_append)
    with c'(3) count have "P c c' = P c (c + length ms)" by simp
    with c'(2) whole show ?thesis by (simp flip: ms_def el_def c_def whole)
  qed
qed

text \<open>A pool of three static entries, the second with its health gate shut.\<close>

definition three_entries :: pool where
  "three_entries =
     \<lparr>pl_members = [0, 1, 2], pl_cursor = 2, pl_outcomes = no_outcomes,
      pl_heap = (\<lambda>r. (provider_new (dec r) (Url []) Static 0)\<lparr>p_eligibility := (if r = 1 then 2 else 3)\<rparr>),
      pl_fresh = 3\<rparr>"

lemma three_entries_eligible: "eligible (entry three_entries r) \<longleftrightarrow> r \<noteq> 1"
  by (simp add: three_entries_def entry_def eligible_def ALL_GATES_eq)

lemma three_entries_fields:
  "pl_members three_entries = [0, 1, 2]" "unat (pl_cursor three_entries) = 2"
  by (simp_all add: three_entries_def)

lemma round_robin_witness: "fst (turns 2 three_entries) = [Some 2, Some 0]"
proof -
  have two: "length (filter (\<lambda>r. eligible (entry three_entries r)) (pl_members three_entries)) = 2"
    by (simp add: three_entries_eligible three_entries_fields)
  have "fst (turns 2 three_entries) =
      map Some (filter (\<lambda>r. eligible (entry three_entries r)) (rotate 2 [0, 1, 2]))"
    by (rule round_robin [of three_entries, unfolded two, unfolded three_entries_fields]) simp
  also have "\<dots> = [Some 2, Some 0]" by (simp add: three_entries_eligible rotate_drop_take)
  finally show ?thesis .
qed

text \<open>
  A selection finds an eligible member. \<open>next_eligible\<close> returns a member that is
  eligible, and returns none only when no member is, and so does a selection whose samples of
  the cursor are disturbed by any number of concurrent ones; of the pool it changes the cursor
  alone.
\<close>

theorem selection_total:
  "(case fst (next_eligible pool) of
      Some r \<Rightarrow> r \<in> set (pl_members pool) \<and> eligible (entry pool r)
    | None \<Rightarrow> \<not> list_ex (\<lambda>r. eligible (entry pool r)) (pl_members pool)) \<and>
   (case select_sampled (\<lambda>r. eligible (entry pool r)) (pl_members pool) samples of
      Some r \<Rightarrow> r \<in> set (pl_members pool) \<and> eligible (entry pool r)
    | None \<Rightarrow> \<not> list_ex (\<lambda>r. eligible (entry pool r)) (pl_members pool)) \<and>
   snd (next_eligible pool) = pool\<lparr>pl_cursor := pl_cursor (snd (next_eligible pool))\<rparr>"
proof (intro conjI)
  show "snd (next_eligible pool) = pool\<lparr>pl_cursor := pl_cursor (snd (next_eligible pool))\<rparr>"
    using next_eligible_frame [of pool] by auto
  show "case fst (next_eligible pool) of
      Some r \<Rightarrow> r \<in> set (pl_members pool) \<and> eligible (entry pool r)
    | None \<Rightarrow> \<not> list_ex (\<lambda>r. eligible (entry pool r)) (pl_members pool)"
    by (auto simp: list_ex_iff next_eligible_None split: option.split dest: next_eligible_Some)
  show "case select_sampled (\<lambda>r. eligible (entry pool r)) (pl_members pool) samples of
      Some r \<Rightarrow> r \<in> set (pl_members pool) \<and> eligible (entry pool r)
    | None \<Rightarrow> \<not> list_ex (\<lambda>r. eligible (entry pool r)) (pl_members pool)"
    by (auto simp: list_ex_iff select_sampled_None split: option.split dest: select_sampled_Some)
qed

section \<open>Removal\<close>

lemma remove_ids:
  assumes "distinct (member_ids pool)" and "pool_remove ident pool = (found, pool')"
  shows "member_ids pool' = filter (\<lambda>i. i \<noteq> ident) (member_ids pool)"
proof -
  note r = pool_remove_simps [OF assms(2)]
  show ?thesis
  proof (cases found)
    case None
    with r(1) have "ident \<notin> set (member_ids pool)" by (metis pool_get_None)
    then have "filter (\<lambda>i. i \<noteq> ident) (member_ids pool) = member_ids pool"
      by (intro filter_True) auto
    with None r(3,6) show ?thesis by (simp add: member_ids_def)
  next
    case (Some x)
    with r(1) have x: "x \<in> set (pl_members pool)" "p_id (entry pool x) = ident"
      by (simp_all add: pool_get_Some)
    from assms(1) have inj: "inj_on (\<lambda>r. p_id (entry pool r)) (set (pl_members pool))"
      and d: "distinct (pl_members pool)"
      by (simp_all add: member_ids_def distinct_map)
    have "pl_members pool' = filter (\<lambda>y. y \<noteq> x) (pl_members pool)"
      using Some r(3) d by (simp add: distinct_remove1_removeAll removeAll_filter_not_eq) (metis)
    also have "\<dots> = filter (\<lambda>y. p_id (entry pool y) \<noteq> ident) (pl_members pool)"
      using inj x by (intro filter_cong) (auto dest: inj_onD)
    finally show ?thesis by (simp add: member_ids_def r(6) filter_map o_def)
  qed
qed

text \<open>
  Once \<open>remove\<close> returns, no selection picks the provider, while whoever holds the
  entry keeps it: with distinct ids, exactly the members of that id are gone, the others keep
  their order, every entry keeps its state, and no later selection or lookup answers with it.
\<close>

theorem removed_is_never_selected:
  assumes "distinct (member_ids pool)" and "pool_remove ident pool = (found, pool')"
  shows "found = pool_get ident pool \<and> entry pool' = entry pool \<and>
    member_ids pool' = filter (\<lambda>i. i \<noteq> ident) (member_ids pool) \<and>
    pool_get ident pool' = None \<and>
    (case fst (next_eligible pool') of Some r \<Rightarrow> p_id (entry pool r) \<noteq> ident | None \<Rightarrow> True)"
proof -
  note r = pool_remove_simps [OF assms(2)]
  have ids: "member_ids pool' = filter (\<lambda>i. i \<noteq> ident) (member_ids pool)"
    by (rule remove_ids [OF assms])
  have "p_id (entry pool q) \<noteq> ident" if "fst (next_eligible pool') = Some q" for q
  proof -
    from next_eligible_Some [OF that] have "p_id (entry pool' q) \<in> set (member_ids pool')"
      by (simp add: member_ids_def)
    with ids r(6) show ?thesis by auto
  qed
  with r ids show ?thesis by (auto simp: pool_get_None split: option.splits)
qed

lemma removed_is_never_selected_witness:
  "pool_get ''0'' (snd (pool_remove ''0'' three_entries)) = None"
proof -
  have "distinct (member_ids three_entries)"
    by (simp add: member_ids_def three_entries_def entry_def) (simp add: radix_text.simps digit_char_def)
  from removed_is_never_selected [OF this prod.collapse [symmetric]] show ?thesis by blast
qed

end
