(* ===== verification/Forwarder.thy ===== *)
theory Forwarder
  imports Config
begin

text \<open>
  What happens to one client request before and at one provider: the method denylist
  (\<open>denylist.rs\<close>), the error envelopes (\<open>jsonrpc.rs\<close>), one forwarding attempt
  (\<open>forwarder.rs\<close>), and the refusals answered before any provider is involved
  (\<open>check_request\<close> of \<open>proxy.rs\<close>).
\<close>

section \<open>The method denylist\<close>

definition text_bytes :: "string \<Rightarrow> bytes" where
  "text_bytes s = map (\<lambda>c. word_of_nat (of_char c)) s"

definition bytes_text :: "bytes \<Rightarrow> string" where
  "bytes_text b = map (\<lambda>w. char_of (unat w)) b"

definition to_ascii_lowercase :: "u8 \<Rightarrow> u8" where
  "to_ascii_lowercase b = (if 65 \<le> b \<and> b \<le> 90 then b + 32 else b)"

definition eq_ignore_ascii_case :: "bytes \<Rightarrow> bytes \<Rightarrow> bool" where
  "eq_ignore_ascii_case a b = (map to_ascii_lowercase a = map to_ascii_lowercase b)"

definition DENIED :: "string list" where
  "DENIED =
     [''admin_'', ''engine_'', ''miner_'',
      ''debug_set'', ''debug_verbosity'', ''debug_vmodule'', ''debug_freezeclient'',
      ''eth_sendtransaction'', ''eth_sign'', ''eth_accounts'', ''personal_'',
      ''eth_newfilter'', ''eth_newblockfilter'', ''eth_newpendingtransactionfilter'',
      ''eth_getfilterchanges'', ''eth_getfilterlogs'', ''eth_uninstallfilter'',
      ''eth_subscribe'', ''eth_unsubscribe'']"

definition windows :: "nat \<Rightarrow> 'a list \<Rightarrow> 'a list list" where
  "windows n xs = map (\<lambda>i. take n (drop i xs)) [0..<length xs + 1 - n]"

definition contains_ignore_case :: "bytes \<Rightarrow> bytes \<Rightarrow> bool" where
  "contains_ignore_case haystack needle =
     (if length needle > length haystack then False
      else list_ex (\<lambda>window. eq_ignore_ascii_case window needle) (windows (length needle) haystack))"

definition denied :: "bytes \<Rightarrow> string option" where
  "denied body = find (\<lambda>name. contains_ignore_case body (text_bytes name)) DENIED"

lemma contains_iff:
  "contains_ignore_case h n \<longleftrightarrow>
     (\<exists>pre mid post. h = pre @ mid @ post \<and> map to_ascii_lowercase mid = map to_ascii_lowercase n)"
proof
  assume "contains_ignore_case h n"
  then obtain i where i: "length n \<le> length h" "i < length h + 1 - length n"
    "map to_ascii_lowercase (take (length n) (drop i h)) = map to_ascii_lowercase n"
    by (auto simp: contains_ignore_case_def windows_def list_ex_iff eq_ignore_ascii_case_def split: if_splits)
  have "h = take i h @ take (length n) (drop i h) @ drop (length n) (drop i h)"
    by (simp only: append_take_drop_id)
  with i(3) show "\<exists>pre mid post. h = pre @ mid @ post \<and> map to_ascii_lowercase mid = map to_ascii_lowercase n"
    by blast
next
  assume "\<exists>pre mid post. h = pre @ mid @ post \<and> map to_ascii_lowercase mid = map to_ascii_lowercase n"
  then obtain pre mid post where h: "h = pre @ mid @ post"
    and m: "map to_ascii_lowercase mid = map to_ascii_lowercase n" by blast
  from m have l: "length mid = length n" by (metis length_map)
  have "take (length n) (drop (length pre) h) = mid" by (simp add: h l)
  with m have "eq_ignore_ascii_case (take (length n) (drop (length pre) h)) n"
    by (simp add: eq_ignore_ascii_case_def)
  with h l show "contains_ignore_case h n"
    by (auto simp: contains_ignore_case_def windows_def list_ex_iff intro!: bexI [of _ "length pre"])
qed

lemma lowercase_idem [simp]: "to_ascii_lowercase (to_ascii_lowercase b) = to_ascii_lowercase b"
proof (cases "65 \<le> b \<and> b \<le> 90")
  case True
  then have "unat (b + 32) = unat b + 32"
    by (intro unat_add_no_wrap [of b 32, simplified]) (simp add: word_le_nat_alt)
  with True have "\<not> b + 32 \<le> 90" by (simp add: word_le_nat_alt)
  with True show ?thesis by (simp add: to_ascii_lowercase_def)
qed (auto simp: to_ascii_lowercase_def)

lemma contains_lowercase:
  "contains_ignore_case (map to_ascii_lowercase h) n = contains_ignore_case h n"
  by (simp add: contains_ignore_case_def windows_def list_ex_iff eq_ignore_ascii_case_def drop_map take_map o_def)

section \<open>Error envelopes\<close>

definition METHOD_DENIED :: int where "METHOD_DENIED = -32050"
definition NO_HEALTHY_PROVIDER :: int where "NO_HEALTHY_PROVIDER = -32051"
definition REQUEST_TIMED_OUT :: int where "REQUEST_TIMED_OUT = -32052"
definition RESPONSE_TOO_LARGE :: int where "RESPONSE_TOO_LARGE = -32053"
definition REQUEST_TOO_LARGE :: int where "REQUEST_TOO_LARGE = -32054"

definition error_response :: "int \<Rightarrow> string \<Rightarrow> json \<Rightarrow> json" where
  "error_response code message ident =
     JObj [(''jsonrpc'', JStr ''2.0''), (''id'', ident),
           (''error'', JObj [(''code'', JNum code), (''message'', JStr (''lb: '' @ message))])]"

definition extract_id :: "libs \<Rightarrow> bytes \<Rightarrow> json" where
  "extract_id L body =
     (case json_from_slice L body of
        None \<Rightarrow> JNull
      | Some request \<Rightarrow> (case json_get request ''id'' of None \<Rightarrow> JNull | Some i \<Rightarrow> i))"

text \<open>What the client is sent: a status and a body, which is bytes, JSON, or a text.\<close>

datatype reply_body = RawBody bytes | JsonBody json | TextBody string

record response =
  rs_status :: nat
  rs_body :: reply_body

definition lb_error :: "libs \<Rightarrow> nat \<Rightarrow> int \<Rightarrow> string \<Rightarrow> bytes \<Rightarrow> response" where
  "lb_error L status code message request_body =
     \<lparr>rs_status = status, rs_body = JsonBody (error_response code message (extract_id L request_body))\<rparr>"

section \<open>One attempt\<close>

datatype outcome = Answer response | NoAnswer | TimedOut | TooLargeAnswer

definition is_ascii_whitespace :: "u8 \<Rightarrow> bool" where
  "is_ascii_whitespace b = (b \<in> {9, 10, 12, 13, 32})"

definition looks_like_json :: "bytes \<Rightarrow> bool" where
  "looks_like_json body =
     (case find (\<lambda>byte. \<not> is_ascii_whitespace byte) body of
        None \<Rightarrow> False
      | Some byte \<Rightarrow> byte = 123 \<or> byte = 91)"

definition REFUSAL_MAX :: nat where
  "REFUSAL_MAX = 4096"

definition is_json_rpc_response :: "libs \<Rightarrow> bytes \<Rightarrow> bool" where
  "is_json_rpc_response L body =
     (if length body > REFUSAL_MAX then False
      else case json_from_slice L body of
             Some (JObj entries) \<Rightarrow> map_of entries ''jsonrpc'' \<noteq> None
           | Some (JArr batch) \<Rightarrow>
               batch \<noteq> [] \<and> list_all (\<lambda>item. json_get item ''jsonrpc'' \<noteq> None) batch
           | _ \<Rightarrow> False)"

fun failure :: "http_error \<Rightarrow> outcome" where
  "failure TimedOutError = TimedOut"
| "failure TransportError = NoAnswer"

definition attempt :: "libs \<Rightarrow> nat \<Rightarrow> exchange \<Rightarrow> outcome" where
  "attempt L cap sent =
     (case sent of
        Inl e \<Rightarrow> failure e
      | Inr response \<Rightarrow>
          (let status = hr_status response;
               refused = (status = 400);
               answered = (is_success status \<or> refused)
           in if \<not> answered then NoAnswer
              else if declared_over_cap cap response then TooLargeAnswer
              else case collect_chunks cap (hr_broken response) [] (hr_chunks response) of
                     OverCap \<Rightarrow> TooLargeAnswer
                   | Broken e \<Rightarrow> failure e
                   | Whole collected \<Rightarrow>
                       if \<not> looks_like_json collected then NoAnswer
                       else if refused \<and> \<not> is_json_rpc_response L collected then NoAnswer
                       else Answer \<lparr>rs_status = status, rs_body = RawBody collected\<rparr>))"

section \<open>Refusals before any provider\<close>

definition not_json_text :: string where
  "not_json_text =
     ''Request body is not a JSON-RPC request: expected a JSON object or a batch array.'' @ [CHR 0x0A]"

text \<open>The framework's rejection of a body is the response it answers with.\<close>

definition check_request :: "libs \<Rightarrow> response + bytes \<Rightarrow> response + bytes" where
  "check_request L body =
     (case body of
        Inl rejection \<Rightarrow>
          (if rs_status rejection = 413
           then Inl (lb_error L 413 REQUEST_TOO_LARGE ''request too large'' [])
           else Inl rejection)
      | Inr body \<Rightarrow>
          (if \<not> looks_like_json body
           then Inl \<lparr>rs_status = 400, rs_body = TextBody not_json_text\<rparr>
           else case denied body of
                  Some name \<Rightarrow>
                    Inl (lb_error L 200 METHOD_DENIED (''method not supported: '' @ name) body)
                | None \<Rightarrow> Inr body))"

definition not_found :: response where
  "not_found = \<lparr>rs_status = 404,
     rs_body = TextBody (''Nothing here: the JSON-RPC endpoint is the root path.'' @ [CHR 0x0A])\<rparr>"

definition method_not_allowed :: response where
  "method_not_allowed = \<lparr>rs_status = 405,
     rs_body = TextBody (''This is a JSON-RPC endpoint: send requests with HTTP POST.'' @ [CHR 0x0A])\<rparr>"

section \<open>Properties\<close>

text \<open>
  The denylist is the case-insensitive substring search it claims to be: a request is
  denied exactly when some name of the list occurs in its raw body, in any letter case and at
  any position, so neither a batch nor upper case evades it; and the name answered occurs.
\<close>

theorem denied_iff_occurs:
  "(denied body = None \<longleftrightarrow>
     \<not> (\<exists>name \<in> set DENIED. \<exists>pre mid post. body = pre @ mid @ post \<and>
          map to_ascii_lowercase mid = map to_ascii_lowercase (text_bytes name))) \<and>
   (\<forall>name. denied body = Some name \<longrightarrow> name \<in> set DENIED \<and> contains_ignore_case body (text_bytes name)) \<and>
   denied (map to_ascii_lowercase body) = denied body"
proof (intro conjI allI impI)
  show "denied body = None \<longleftrightarrow>
     \<not> (\<exists>name \<in> set DENIED. \<exists>pre mid post. body = pre @ mid @ post \<and>
          map to_ascii_lowercase mid = map to_ascii_lowercase (text_bytes name))"
    by (simp only: denied_def find_None_iff contains_iff) blast
  show "denied (map to_ascii_lowercase body) = denied body"
    by (simp add: denied_def contains_lowercase)
qed (auto simp: denied_def find_Some_iff)

lemma denied_iff_occurs_witness:
  "\<exists>name. denied (text_bytes ''[{admin_peers}]'') = Some name \<and> name \<in> set DENIED"
proof -
  have "''admin_'' \<in> set DENIED" by (simp add: DENIED_def)
  moreover have "text_bytes ''[{admin_peers}]'' = text_bytes ''[{'' @ text_bytes ''admin_'' @ text_bytes ''peers}]''"
    by (simp add: text_bytes_def)
  ultimately have "denied (text_bytes ''[{admin_peers}]'') \<noteq> None"
    using denied_iff_occurs [of "text_bytes ''[{admin_peers}]''"] by blast
  with denied_iff_occurs [of "text_bytes ''[{admin_peers}]''"] show ?thesis by auto
qed

text \<open>
  What counts as a provider's answer. An attempt answers exactly when a whole body
  within the cap came, in chunks of any size, that starts as a JSON object or array, with a
  success status, or with a 400 whose short body is a JSON-RPC response; the client then gets
  that status and exactly the bytes the provider sent. A transport timeout is told apart
  from every other failure.
\<close>

theorem attempt_answers_iff:
  "(attempt L cap sent = Answer resp \<longleftrightarrow>
     (\<exists>r. sent = Inr r \<and> \<not> declared_over_cap cap r \<and> hr_broken r = None \<and>
        length (concat (hr_chunks r)) \<le> cap \<and> looks_like_json (concat (hr_chunks r)) \<and>
        (is_success (hr_status r) \<or> hr_status r = 400 \<and> is_json_rpc_response L (concat (hr_chunks r))) \<and>
        resp = \<lparr>rs_status = hr_status r, rs_body = RawBody (concat (hr_chunks r))\<rparr>)) \<and>
   (attempt L cap sent = TimedOut \<longleftrightarrow>
     sent = Inl TimedOutError \<or>
     (\<exists>r. sent = Inr r \<and> \<not> declared_over_cap cap r \<and> hr_broken r = Some TimedOutError \<and>
        length (concat (hr_chunks r)) \<le> cap \<and> (is_success (hr_status r) \<or> hr_status r = 400)))"
proof (cases sent)
  case (Inl e)
  then show ?thesis by (cases e) (simp_all add: attempt_def)
next
  case (Inr r)
  show ?thesis
    by (cases "hr_broken r"; cases "is_success (hr_status r)")
      (auto simp: Inr attempt_def Let_def collect_chunks_eq is_success_def elim: failure.elims)
qed

lemma attempt_answers_iff_witness:
  "attempt std_libs 8 (Inr \<lparr>hr_status = 200, hr_content_length = None, hr_chunks = [[32], [123, 125]],
     hr_broken = None\<rparr>) = Answer \<lparr>rs_status = 200, rs_body = RawBody [32, 123, 125]\<rparr>"
  using attempt_answers_iff [of std_libs 8 "Inr \<lparr>hr_status = 200, hr_content_length = None,
      hr_chunks = [[32], [123, 125]], hr_broken = None\<rparr>" "\<lparr>rs_status = 200, rs_body = RawBody [32, 123, 125]\<rparr>"]
  by (simp add: declared_over_cap_def looks_like_json_def is_ascii_whitespace_def is_success_def)

text \<open>
  Which requests reach a provider. A body passes the check exactly when it was read
  whole, starts as a JSON object or array, and names no denied method, and then it is the body
  as it came. Every refusal is the load balancer's own answer: the size limit and the denylist
  in an envelope of its own code, whose message starts with \<open>lb: \<close> and which echoes the
  request's id.
\<close>

theorem check_request_passes_iff:
  "(check_request L read = Inr body \<longleftrightarrow>
     read = Inr body \<and> looks_like_json body \<and> denied body = None) \<and>
   (\<forall>b name. read = Inr b \<and> looks_like_json b \<and> denied b = Some name \<longrightarrow>
     check_request L read = Inl \<lparr>rs_status = 200, rs_body = JsonBody (JObj
       [(''jsonrpc'', JStr ''2.0''), (''id'', extract_id L b),
        (''error'', JObj [(''code'', JNum (-32050)),
                         (''message'', JStr (''lb: method not supported: '' @ name))])])\<rparr>)"
  by (cases "read")
    (auto simp: check_request_def lb_error_def error_response_def METHOD_DENIED_def split: option.splits)

lemma check_request_passes_iff_witness:
  "check_request std_libs (Inr [91, 93]) = Inr [91, 93]"
proof -
  have "denied [91, 93] = None"
    by (simp add: denied_def find_None_iff DENIED_def text_bytes_def contains_ignore_case_def)
  moreover have "looks_like_json [91, 93]" by (simp add: looks_like_json_def is_ascii_whitespace_def)
  ultimately show ?thesis
    using check_request_passes_iff [of std_libs "Inr [91, 93]" "[91, 93]"] by simp
qed

end
