(* ===== verification/Proxy.thy ===== *)
theory Proxy
  imports Forwarder Rotation
begin

text \<open>
  The public listener (\<open>proxy.rs\<close>): one client request, from its checks through the attempts
  across providers to the answer. An attempt waits, and while it does the rest of the load
  balancer runs: a \<open>moment\<close> holds what the environment supplies around one attempt, the clock
  readings, the provider's exchange, and what happened to the pool meanwhile. The result
  carries the attempts made, beside the response and the pool.
\<close>

section \<open>A request\<close>

record moment =
  mo_checked :: instant
  mo_started :: instant
  mo_exchange :: "url \<Rightarrow> bytes \<Rightarrow> duration \<Rightarrow> exchange"
  mo_meanwhile :: "pool \<Rightarrow> pool"
  mo_ended :: instant

type_synonym tried = "pref \<times> outcome \<times> duration"

datatype loop_end = Returned response | Spent

definition count_outcome :: "(lb_outcomes \<Rightarrow> lb_outcomes) \<Rightarrow> pool \<Rightarrow> pool" where
  "count_outcome f pool = pool\<lparr>pl_outcomes := f (pl_outcomes pool)\<rparr>"

definition traffic_failed :: "u32 \<Rightarrow> provider \<Rightarrow> provider" where
  "traffic_failed flip_after p = record_transport_failure (record_health False flip_after STraffic p)"

fun attempts_loop ::
  "libs \<Rightarrow> proxy_config \<Rightarrow> u32 \<Rightarrow> bytes \<Rightarrow> instant \<Rightarrow> (nat \<Rightarrow> moment) \<Rightarrow> nat \<Rightarrow> nat \<Rightarrow> pool \<Rightarrow>
     loop_end \<times> pool \<times> tried list" where
  "attempts_loop L cfg flip_after body deadline env 0 i pool = (Spent, pool, [])"
| "attempts_loop L cfg flip_after body deadline env (Suc n) i pool =
     (let (found, pool) = next_eligible pool
      in case found of
           None \<Rightarrow> (Returned (lb_error L 503 NO_HEALTHY_PROVIDER ''no healthy provider'' body),
                    count_outcome record_no_healthy_provider pool, [])
         | Some r \<Rightarrow>
             (let m = env i;
                  remaining = deadline - mo_checked m
              in if remaining = 0 then (Spent, pool, [])
                 else
                   let timeout = min remaining (xc_attempt_timeout cfg);
                       out = attempt L (unat (xc_max_response_size cfg))
                               (mo_exchange m (p_url (entry pool r)) body timeout);
                       pool = mo_meanwhile m pool;
                       tr = (r, out, timeout)
                   in case out of
                        Answer response \<Rightarrow>
                          (Returned response, entry_update r (record_served (mo_ended m)) pool, [tr])
                      | TooLargeAnswer \<Rightarrow>
                          (Returned (lb_error L 502 RESPONSE_TOO_LARGE ''response too large'' body), pool, [tr])
                      | NoAnswer \<Rightarrow>
                          (let (result, pool, rest) =
                             attempts_loop L cfg flip_after body deadline env n (Suc i)
                               (entry_update r (traffic_failed flip_after) pool)
                           in (result, pool, tr # rest))
                      | TimedOut \<Rightarrow>
                          (let pool =
                             (if answered_since (mo_started m) (entry pool r)
                              then entry_update r record_transport_failure pool
                              else entry_update r (traffic_failed flip_after) pool);
                               (result, pool, rest) =
                                 attempts_loop L cfg flip_after body deadline env n (Suc i) pool
                           in (result, pool, tr # rest))))"

definition forward_with_failover ::
  "libs \<Rightarrow> proxy_config \<Rightarrow> u32 \<Rightarrow> bytes \<Rightarrow> instant \<Rightarrow> (nat \<Rightarrow> moment) \<Rightarrow> instant \<Rightarrow> pool \<Rightarrow>
     response \<times> pool \<times> tried list" where
  "forward_with_failover L cfg flip_after body started env ended pool =
     (let deadline = started + xc_request_timeout cfg;
          max_attempts = 1 + xc_max_retries cfg
      in case attempts_loop L cfg flip_after body deadline env (unat max_attempts) 0 pool of
           (Returned response, pool, trace) \<Rightarrow> (response, pool, trace)
         | (Spent, pool, trace) \<Rightarrow>
             (if deadline \<le> ended
              then (lb_error L 504 REQUEST_TIMED_OUT ''request timed out'' body,
                    count_outcome record_timed_out pool, trace)
              else (lb_error L 503 NO_HEALTHY_PROVIDER ''no provider answered'' body,
                    count_outcome record_no_provider_answered pool, trace)))"

definition handle ::
  "libs \<Rightarrow> proxy_config \<Rightarrow> u32 \<Rightarrow> response + bytes \<Rightarrow> instant \<Rightarrow> (nat \<Rightarrow> moment) \<Rightarrow> instant \<Rightarrow> pool \<Rightarrow>
     response \<times> pool \<times> tried list" where
  "handle L cfg flip_after body started env ended pool =
     (case check_request L body of
        Inr body \<Rightarrow> forward_with_failover L cfg flip_after body started env ended pool
      | Inl refusal \<Rightarrow> (refusal, pool, []))"

section \<open>Lemmas\<close>

lemma count_outcome_simps [simp]:
  "entry (count_outcome f pool) = entry pool" "pl_members (count_outcome f pool) = pl_members pool"
  "pl_outcomes (count_outcome f pool) = f (pl_outcomes pool)"
  by (simp_all add: count_outcome_def entry_def fun_eq_iff)

lemma traffic_failed_eligible: "eligible (traffic_failed f p) \<Longrightarrow> eligible p"
  using failure_never_admits [of f STraffic p]
  by (simp add: traffic_failed_def record_transport_failure_def eligible_def)

lemma traffic_failed_fields [simp]:
  "p_served (traffic_failed f p) = p_served p"
  "p_served_total (traffic_failed f p) = p_served_total p"
  "p_transport_failures (traffic_failed f p) = p_transport_failures p + 1"
  "p_id (traffic_failed f p) = p_id p"
  "p_streak (traffic_failed f p) = streak_step False (p_streak p)"
  by (simp_all add: traffic_failed_def record_transport_failure_def)

text \<open>The turns of the loop: no provider, no time, a last attempt, or a failed one.\<close>

definition failed :: "outcome \<Rightarrow> bool" where
  "failed out \<longleftrightarrow> out = NoAnswer \<or> out = TimedOut"

definition charge :: "u32 \<Rightarrow> instant \<Rightarrow> outcome \<Rightarrow> provider \<Rightarrow> provider" where
  "charge flip_after since out p =
     (if out = TimedOut \<and> answered_since since p then record_transport_failure p
      else traffic_failed flip_after p)"

lemma charge_fields [simp]:
  "p_served (charge f since out p) = p_served p"
  "p_served_total (charge f since out p) = p_served_total p"
  "p_transport_failures (charge f since out p) = p_transport_failures p + 1"
  by (simp_all add: charge_def)

lemma charge_eligible: "eligible (charge f since out p) \<Longrightarrow> eligible p"
  by (auto simp: charge_def dest: traffic_failed_eligible split: if_splits)

lemma entry_update_cong: "f (entry pool r) = g (entry pool r) \<Longrightarrow> entry_update r f pool = entry_update r g pool"
  by (simp add: entry_update_def entry_def)

definition attempt_at ::
  "libs \<Rightarrow> proxy_config \<Rightarrow> bytes \<Rightarrow> instant \<Rightarrow> moment \<Rightarrow> pool \<Rightarrow> pref \<Rightarrow> duration \<times> outcome" where
  "attempt_at L cfg body deadline m pool r =
     (let timeout = min (deadline - mo_checked m) (xc_attempt_timeout cfg)
      in (timeout, attempt L (unat (xc_max_response_size cfg))
                     (mo_exchange m (p_url (entry pool r)) body timeout)))"

lemma attempts_loop_cases:
  assumes "attempts_loop L cfg f body deadline env (Suc n) i pool = (res, pool', trace)"
  obtains (none) "fst (next_eligible pool) = None" "trace = []"
      "res = Returned (lb_error L 503 NO_HEALTHY_PROVIDER ''no healthy provider'' body)"
      "pool' = count_outcome record_no_healthy_provider (snd (next_eligible pool))"
  | (late) r where "fst (next_eligible pool) = Some r" "deadline \<le> mo_checked (env i)" "trace = []"
      "res = Spent" "pool' = snd (next_eligible pool)"
  | (answered) r response timeout where "fst (next_eligible pool) = Some r"
      "attempt_at L cfg body deadline (env i) pool r = (timeout, Answer response)"
      "trace = [(r, Answer response, timeout)]" "res = Returned response"
      "pool' = entry_update r (record_served (mo_ended (env i))) (mo_meanwhile (env i) (snd (next_eligible pool)))"
  | (large) r timeout where "fst (next_eligible pool) = Some r"
      "attempt_at L cfg body deadline (env i) pool r = (timeout, TooLargeAnswer)"
      "trace = [(r, TooLargeAnswer, timeout)]"
      "res = Returned (lb_error L 502 RESPONSE_TOO_LARGE ''response too large'' body)"
      "pool' = mo_meanwhile (env i) (snd (next_eligible pool))"
  | (again) r out timeout rest where "fst (next_eligible pool) = Some r"
      "attempt_at L cfg body deadline (env i) pool r = (timeout, out)" "failed out"
      "trace = (r, out, timeout) # rest"
      "attempts_loop L cfg f body deadline env n (Suc i)
         (entry_update r (charge f (mo_started (env i)) out) (mo_meanwhile (env i) (snd (next_eligible pool))))
           = (res, pool', rest)"
proof (cases "fst (next_eligible pool)")
  case None
  then obtain pool1 where "next_eligible pool = (None, pool1)" by (cases "next_eligible pool") simp
  with assms have "trace = []" "res = Returned (lb_error L 503 NO_HEALTHY_PROVIDER ''no healthy provider'' body)"
    "pool' = count_outcome record_no_healthy_provider (snd (next_eligible pool))" by auto
  with None show ?thesis by (rule none)
next
  case (Some r)
  then obtain pool1 where ne: "next_eligible pool = (Some r, pool1)"
    by (cases "next_eligible pool") simp
  have url: "entry pool1 r = entry pool r" using next_eligible_fields(3) [of pool] ne by simp
  show ?thesis
  proof (cases "deadline \<le> mo_checked (env i)")
    case True
    with assms ne have "trace = []" "res = Spent" "pool' = snd (next_eligible pool)" by auto
    with Some True show ?thesis by (rule late)
  next
    case False
    obtain timeout out where a: "attempt_at L cfg body deadline (env i) pool r = (timeout, out)"
      by fastforce
    let ?q = "mo_meanwhile (env i) pool1"
    from a have t: "min (deadline - mo_checked (env i)) (xc_attempt_timeout cfg) = timeout"
      by (simp add: attempt_at_def Let_def)
    from a have out: "attempt L (unat (xc_max_response_size cfg))
        (mo_exchange (env i) (p_url (entry pool1 r)) body timeout) = out"
      by (simp add: attempt_at_def Let_def url t)
    have q: "snd (next_eligible pool) = pool1" by (simp add: ne)
    have late: "deadline - mo_checked (env i) \<noteq> 0" using False by simp
    note turn = assms [unfolded attempts_loop.simps ne Let_def prod.case option.case if_not_P [OF late] t out]
    show ?thesis
    proof (cases out)
      case (Answer response)
      show ?thesis
        using turn Answer a Some by (intro answered [of r timeout response]) (auto simp: q)
    next
      case TooLargeAnswer
      show ?thesis
        using turn TooLargeAnswer a Some by (intro large [of r timeout]) (auto simp: q)
    next
      case NoAnswer
      have c: "entry_update r (charge f (mo_started (env i)) NoAnswer) ?q = entry_update r (traffic_failed f) ?q"
        by (intro entry_update_cong) (simp add: charge_def)
      obtain res2 pool2 rest where rec: "attempts_loop L cfg f body deadline env n (Suc i)
          (entry_update r (traffic_failed f) ?q) = (res2, pool2, rest)" by (metis prod_cases3)
      show ?thesis
        using turn rec NoAnswer a Some
        by (intro again [of r timeout NoAnswer rest]) (auto simp: q c failed_def)
    next
      case TimedOut
      have c: "entry_update r (charge f (mo_started (env i)) TimedOut) ?q =
          (if answered_since (mo_started (env i)) (entry ?q r) then entry_update r record_transport_failure ?q
           else entry_update r (traffic_failed f) ?q)"
        by (auto simp: charge_def intro: entry_update_cong)
      obtain res2 pool2 rest where rec: "attempts_loop L cfg f body deadline env n (Suc i)
          (entry_update r (charge f (mo_started (env i)) TimedOut) ?q) = (res2, pool2, rest)" by (metis prod_cases3)
      show ?thesis
        using turn rec TimedOut a Some
        by (intro again [of r timeout TimedOut rest]) (auto simp: q c failed_def)
    qed
  qed
qed

section \<open>What a request does\<close>

definition outcome_of :: "tried \<Rightarrow> outcome" where
  "outcome_of tr = fst (snd tr)"

definition timeout_of :: "tried \<Rightarrow> duration" where
  "timeout_of tr = snd (snd tr)"

definition answers_by :: "pref \<Rightarrow> tried list \<Rightarrow> nat" where
  "answers_by r trace = length (filter (\<lambda>(r', out, _). r' = r \<and> (case out of Answer _ \<Rightarrow> True | _ \<Rightarrow> False)) trace)"

definition failures_by :: "pref \<Rightarrow> tried list \<Rightarrow> nat" where
  "failures_by r trace = length (filter (\<lambda>(r', out, _). r' = r \<and> failed out) trace)"

lemma attempts_loop_shape:
  assumes "attempts_loop L cfg f body deadline env n i pool = (res, pool', trace)"
  shows "length trace \<le> n \<and> (\<forall>tr \<in> set trace. timeout_of tr \<le> xc_attempt_timeout cfg) \<and>
    (\<forall>tr \<in> set (butlast trace). failed (outcome_of tr)) \<and>
    (case res of
       Spent \<Rightarrow> list_all (\<lambda>tr. failed (outcome_of tr)) trace
     | Returned resp \<Rightarrow>
         trace \<noteq> [] \<and> outcome_of (last trace) = Answer resp \<or>
         trace \<noteq> [] \<and> outcome_of (last trace) = TooLargeAnswer \<and>
           resp = lb_error L 502 RESPONSE_TOO_LARGE ''response too large'' body \<or>
         list_all (\<lambda>tr. failed (outcome_of tr)) trace \<and>
           resp = lb_error L 503 NO_HEALTHY_PROVIDER ''no healthy provider'' body)"
  using assms
proof (induction n arbitrary: i pool trace)
  case (Suc n)
  from Suc.prems show ?case
  proof (cases rule: attempts_loop_cases)
    case (again r out timeout rest)
    from Suc.IH [OF again(5)] again(2,3,4) show ?thesis
      by (auto simp: attempt_at_def Let_def timeout_of_def outcome_of_def list_all_iff split: loop_end.splits)
  qed (auto simp: attempt_at_def Let_def timeout_of_def outcome_of_def)
qed simp

definition additive :: "(nat \<Rightarrow> moment) \<Rightarrow> (provider \<Rightarrow> u64) \<Rightarrow> (nat \<Rightarrow> pref \<Rightarrow> u64) \<Rightarrow> bool" where
  "additive env count d \<longleftrightarrow>
     (\<forall>i pool r. count (entry (mo_meanwhile (env i) pool) r) = count (entry pool r) + d i r)"

lemma sum_upt_Suc: "sum_list (map g [i ..< Suc (i + k)]) = g i + sum_list (map g [Suc i ..< Suc (i + k)])"
  for g :: "nat \<Rightarrow> u64"
  by (simp add: upt_conv_Cons del: upt_Suc)

lemma attempts_loop_served:
  assumes "attempts_loop L cfg f body deadline env n i pool = (res, pool', trace)"
    and "additive env p_served d"
  shows "p_served (entry pool' r) =
    p_served (entry pool r) + word_of_nat (answers_by r trace) +
    sum_list (map (\<lambda>j. d j r) [i ..< i + length trace])"
  using assms(1)
proof (induction n arbitrary: i pool trace)
  case 0
  then show ?case by (simp add: answers_by_def)
next
  case (Suc n)
  have m: "p_served (entry (mo_meanwhile (env i) (snd (next_eligible pool))) x) = p_served (entry pool x) + d i x" for x
    using assms(2) by (simp add: additive_def)
  from Suc.prems show ?case
  proof (cases rule: attempts_loop_cases)
    case (again q out timeout rest)
    have "answers_by r trace = answers_by r rest"
      using again(3,4) by (auto simp: answers_by_def failed_def)
    with Suc.IH [OF again(5)] again(4) show ?thesis
      by (simp add: m sum_upt_Suc del: upt_Suc)
  qed (simp_all add: answers_by_def m)
qed

lemma attempts_loop_failures:
  assumes "attempts_loop L cfg f body deadline env n i pool = (res, pool', trace)"
    and "additive env p_transport_failures d"
  shows "p_transport_failures (entry pool' r) =
    p_transport_failures (entry pool r) + word_of_nat (failures_by r trace) +
    sum_list (map (\<lambda>j. d j r) [i ..< i + length trace])"
  using assms(1)
proof (induction n arbitrary: i pool trace)
  case 0
  then show ?case by (simp add: failures_by_def)
next
  case (Suc n)
  have m: "p_transport_failures (entry (mo_meanwhile (env i) (snd (next_eligible pool))) x) =
      p_transport_failures (entry pool x) + d i x" for x
    using assms(2) by (simp add: additive_def)
  from Suc.prems show ?case
  proof (cases rule: attempts_loop_cases)
    case (again q out timeout rest)
    have "failures_by r trace = failures_by r rest + (if q = r then 1 else 0)"
      using again(3,4) by (auto simp: failures_by_def)
    with Suc.IH [OF again(5)] again(4) show ?thesis
      by (simp add: m sum_upt_Suc del: upt_Suc)
  qed (simp_all add: failures_by_def failed_def m)
qed

lemma attempts_loop_never_admits:
  assumes "attempts_loop L cfg f body deadline env n i pool = (res, pool', trace)"
    and "\<And>j q. eligible (entry (mo_meanwhile (env j) q) r) \<Longrightarrow> eligible (entry q r)"
    and "eligible (entry pool' r)"
  shows "eligible (entry pool r)"
  using assms(1)
proof (induction n arbitrary: i pool trace)
  case 0
  then show ?case using assms(3) by simp
next
  case (Suc n)
  have m: "eligible (entry (mo_meanwhile (env i) (snd (next_eligible pool))) r) \<Longrightarrow> eligible (entry pool r)"
    using assms(2) [of i "snd (next_eligible pool)"] by simp
  from Suc.prems show ?case
  proof (cases rule: attempts_loop_cases)
    case (answered q response timeout)
    with assms(3) m show ?thesis by (auto split: if_splits)
  next
    case (large q timeout)
    with assms(3) m show ?thesis by auto
  next
    case (again q out timeout rest)
    from Suc.IH [OF again(5)] m show ?thesis by (auto dest: charge_eligible split: if_splits)
  qed (use assms(3) in auto)
qed

lemma attempts_loop_members:
  assumes "attempts_loop L cfg f body deadline env n i pool = (res, pool', trace)"
    and "\<And>j q. pl_outcomes (mo_meanwhile (env j) q) = pl_outcomes q"
  shows "pl_outcomes pool' =
    (if (\<exists>resp. res = Returned resp) \<and> list_all (\<lambda>tr. failed (outcome_of tr)) trace
     then record_no_healthy_provider (pl_outcomes pool) else pl_outcomes pool)"
  using assms(1)
proof (induction n arbitrary: i pool trace)
  case (Suc n)
  from Suc.prems show ?case
  proof (cases rule: attempts_loop_cases)
    case (again q out timeout rest)
    from Suc.IH [OF again(5)] again(3,4) show ?thesis by (simp add: assms(2) outcome_of_def)
  qed (simp_all add: assms(2) outcome_of_def failed_def)
qed simp

section \<open>Properties\<close>

text \<open>
  C7. How a request ends. At most one plus \<open>max_retries\<close> attempts are made, none longer than
  \<open>attempt_timeout\<close>, and all but the last failed to produce an answer. The client gets the
  last attempt's answer unchanged; the too-large error exactly when the last attempt breached the
  cap; and, when every attempt failed, one of the three errors the load balancer makes itself,
  \<open>timed out\<close> only when the deadline has passed.
\<close>

theorem forward_ends:
  assumes "forward_with_failover L cfg f body started env ended pool = (resp, pool', trace)"
  shows "length trace \<le> unat (1 + xc_max_retries cfg) \<and>
    (\<forall>tr \<in> set trace. timeout_of tr \<le> xc_attempt_timeout cfg) \<and>
    (\<forall>tr \<in> set (butlast trace). failed (outcome_of tr)) \<and>
    (if list_all (\<lambda>tr. failed (outcome_of tr)) trace
     then resp = lb_error L 503 NO_HEALTHY_PROVIDER ''no healthy provider'' body \<or>
          resp = lb_error L 503 NO_HEALTHY_PROVIDER ''no provider answered'' body \<and>
            ended < started + xc_request_timeout cfg \<or>
          resp = lb_error L 504 REQUEST_TIMED_OUT ''request timed out'' body \<and>
            started + xc_request_timeout cfg \<le> ended
     else outcome_of (last trace) = Answer resp \<or>
          outcome_of (last trace) = TooLargeAnswer \<and>
            resp = lb_error L 502 RESPONSE_TOO_LARGE ''response too large'' body)"
proof -
  obtain res pool1 trace1 where l: "attempts_loop L cfg f body (started + xc_request_timeout cfg) env
      (unat (1 + xc_max_retries cfg)) 0 pool = (res, pool1, trace1)" by (metis prod_cases3)
  have t: "trace1 = trace"
    using assms by (auto simp: forward_with_failover_def l Let_def split: loop_end.splits if_splits)
  have last: "\<not> list_all (\<lambda>tr. failed (outcome_of tr)) trace"
    if "trace \<noteq> []" "\<not> failed (outcome_of (last trace))"
    using that by (auto simp: list_all_iff)
  show ?thesis
    using attempts_loop_shape [OF l] assms last
    unfolding forward_with_failover_def Let_def l t
    by (cases res) (auto simp: failed_def split: if_splits)
qed

text \<open>A request over \<open>three_entries\<close>: the first attempt times out, the second answers.\<close>

definition slow_then_fine :: "nat \<Rightarrow> moment" where
  "slow_then_fine i =
     \<lparr>mo_checked = 0, mo_started = 0,
      mo_exchange = (\<lambda>_ _ _. if i = 0 then Inl TimedOutError
        else Inr \<lparr>hr_status = 200, hr_content_length = None, hr_chunks = [[123, 125]], hr_broken = None\<rparr>),
      mo_meanwhile = (\<lambda>pool. pool), mo_ended = 0\<rparr>"

definition slow_then_fine_run :: "response \<times> pool \<times> tried list" where
  "slow_then_fine_run =
     forward_with_failover std_libs proxy_default 3 [123, 125] 0 slow_then_fine 0 three_entries"

lemma forward_ends_witness: "length (snd (snd slow_then_fine_run)) \<le> 3"
proof -
  have "forward_with_failover std_libs proxy_default 3 [123, 125] 0 slow_then_fine 0 three_entries =
      (fst slow_then_fine_run, fst (snd slow_then_fine_run), snd (snd slow_then_fine_run))"
    by (simp add: slow_then_fine_run_def)
  from forward_ends [OF this] show ?thesis by (simp add: proxy_default_def)
qed

text \<open>
  C8. The billing basis. Whatever other requests add to the counters while the
  attempts wait, a request adds exactly one to \<open>served\<close> of the provider that answered it and
  nothing to any other, and one to \<open>transport_failures\<close> of each failed attempt's provider: the
  counts are answers, not attempts.
\<close>

theorem forward_bills_answers:
  assumes "forward_with_failover L cfg f body started env ended pool = (resp, pool', trace)"
    and "additive env p_served d" and "additive env p_transport_failures e"
  shows "p_served (entry pool' r) = p_served (entry pool r) + word_of_nat (answers_by r trace) +
      sum_list (map (\<lambda>j. d j r) [0..<length trace]) \<and>
    p_transport_failures (entry pool' r) = p_transport_failures (entry pool r) +
      word_of_nat (failures_by r trace) + sum_list (map (\<lambda>j. e j r) [0..<length trace]) \<and>
    answers_by r trace \<le> 1"
proof -
  obtain res pool1 trace1 where l: "attempts_loop L cfg f body (started + xc_request_timeout cfg) env
      (unat (1 + xc_max_retries cfg)) 0 pool = (res, pool1, trace1)" by (metis prod_cases3)
  have t: "trace1 = trace" and en: "entry pool' = entry pool1"
    using assms(1) by (auto simp: forward_with_failover_def l Let_def split: loop_end.splits if_splits)
  have "filter (\<lambda>(r', out, _). r' = r \<and> (case out of Answer _ \<Rightarrow> True | _ \<Rightarrow> False)) (butlast trace) = []"
    using attempts_loop_shape [OF l] t
    by (auto simp: filter_empty_conv failed_def outcome_of_def split: outcome.splits)
  then have "answers_by r trace \<le> 1"
    by (cases trace rule: rev_cases) (auto simp: answers_by_def)
  with attempts_loop_served [OF l assms(2), of r] attempts_loop_failures [OF l assms(3), of r] t en
  show ?thesis by simp
qed

lemma forward_bills_answers_witness:
  "p_served (entry (fst (snd slow_then_fine_run)) 1) =
     p_served (entry three_entries 1) + word_of_nat (answers_by 1 (snd (snd slow_then_fine_run)))"
proof -
  have "forward_with_failover std_libs proxy_default 3 [123, 125] 0 slow_then_fine 0 three_entries =
      (fst slow_then_fine_run, fst (snd slow_then_fine_run), snd (snd slow_then_fine_run))"
    by (simp add: slow_then_fine_run_def)
  moreover have "additive slow_then_fine p_served (\<lambda>_ _. 0)"
    "additive slow_then_fine p_transport_failures (\<lambda>_ _. 0)"
    by (simp_all add: additive_def slow_then_fine_def)
  ultimately show ?thesis
    using forward_bills_answers [of std_libs proxy_default 3 "[123, 125]" 0 slow_then_fine 0 three_entries
        "fst slow_then_fine_run" "fst (snd slow_then_fine_run)" "snd (snd slow_then_fine_run)"
        "\<lambda>_ _. 0" "\<lambda>_ _. 0" 1]
    by (simp add: sum_list_0)
qed



text \<open>
  What the load balancer answers itself it counts, once and under one heading. While
  other requests leave the three counters alone, a request changes them exactly when no attempt
  of it produced an answer or breached the cap, and then adds one to the one that names the
  error the client got.
\<close>

theorem lb_outcomes_counted_once:
  assumes "forward_with_failover L cfg f body started env ended pool = (resp, pool', trace)"
    and "\<And>j q. pl_outcomes (mo_meanwhile (env j) q) = pl_outcomes q"
  shows "if list_all (\<lambda>tr. failed (outcome_of tr)) trace
    then (resp, pl_outcomes pool') \<in>
      {(lb_error L 503 NO_HEALTHY_PROVIDER ''no healthy provider'' body, record_no_healthy_provider (pl_outcomes pool)),
       (lb_error L 504 REQUEST_TIMED_OUT ''request timed out'' body, record_timed_out (pl_outcomes pool)),
       (lb_error L 503 NO_HEALTHY_PROVIDER ''no provider answered'' body, record_no_provider_answered (pl_outcomes pool))}
    else pl_outcomes pool' = pl_outcomes pool"
proof -
  obtain res pool1 trace1 where l: "attempts_loop L cfg f body (started + xc_request_timeout cfg) env
      (unat (1 + xc_max_retries cfg)) 0 pool = (res, pool1, trace1)" by (metis prod_cases3)
  have t: "trace1 = trace"
    using assms(1) by (auto simp: forward_with_failover_def l Let_def split: loop_end.splits if_splits)
  have last: "\<not> list_all (\<lambda>tr. failed (outcome_of tr)) trace"
    if "trace \<noteq> []" "\<not> failed (outcome_of (last trace))"
    using that by (auto simp: list_all_iff)
  show ?thesis
    using attempts_loop_shape [OF l] attempts_loop_members [OF l assms(2)] assms(1) last
    unfolding forward_with_failover_def Let_def l t
    by (cases res) (auto simp: failed_def split: if_splits)
qed

lemma lb_outcomes_counted_once_witness:
  "\<exists>resp pool' trace. forward_with_failover std_libs proxy_default 3 [123, 125] 0 slow_then_fine 0
      (three_entries\<lparr>pl_members := []\<rparr>) = (resp, pool', trace) \<and>
    trace = [] \<and> pl_outcomes pool' \<noteq> no_outcomes"
proof -
  let ?pool = "three_entries\<lparr>pl_members := []\<rparr>"
  obtain resp pool' trace where f: "forward_with_failover std_libs proxy_default 3 [123, 125] 0 slow_then_fine 0
      ?pool = (resp, pool', trace)" by (metis prod_cases3)
  have "fst (next_eligible ?pool) = None" by (simp add: next_eligible_None)
  then have "snd (snd (attempts_loop std_libs proxy_default 3 [123, 125] d slow_then_fine n 0 ?pool)) = []" for d n
    by (cases n) (auto split: prod.splits)
  with f have t: "trace = []"
    by (simp add: forward_with_failover_def Let_def split: prod.splits loop_end.splits if_splits)
      (metis snd_conv)+
  have "pl_outcomes pool' \<noteq> no_outcomes"
    using lb_outcomes_counted_once [OF f] t
    by (auto simp: slow_then_fine_def three_entries_def record_no_healthy_provider_def record_timed_out_def
        record_no_provider_answered_def)
  with f t show ?thesis by blast
qed

text \<open>
  A slow provider is not a dead one. An attempt that times out costs its provider's
  health streak a tick only when the provider answered nothing, to any request or probe, since
  the attempt started; a provider that answered meanwhile keeps its streak and its place, and
  either way the failure is counted. An answer, and an answer over the cap, tick no health.
\<close>

theorem timeout_ticks_only_silence:
  assumes "fst (next_eligible pool) = Some r"
    and "mo_checked (env i) < deadline"
    and "q = mo_meanwhile (env i) (snd (next_eligible pool))"
    and "attempts_loop L cfg f body deadline env 1 i pool = (res, pool', [(r, out, timeout)])"
  shows "p_streak (entry pool' r) =
      (if out = NoAnswer \<or> out = TimedOut \<and> \<not> answered_since (mo_started (env i)) (entry q r)
       then streak_step False (p_streak (entry q r)) else p_streak (entry q r)) \<and>
    p_transport_failures (entry pool' r) =
      p_transport_failures (entry q r) + (if failed out then 1 else 0)"
proof -
  from assms(4) have "attempts_loop L cfg f body deadline env (Suc 0) i pool = (res, pool', [(r, out, timeout)])"
    by simp
  then show ?thesis
  proof (cases rule: attempts_loop_cases)
    case (answered r' response timeout')
    with assms(1,3) show ?thesis
      by (auto simp: failed_def record_served_def record_answer_def)
  next
    case (large r' timeout')
    with assms(1,3) show ?thesis by (auto simp: failed_def)
  next
    case (again r' out' timeout' rest)
    with assms(1,3) show ?thesis by (auto simp: charge_def failed_def)
  qed simp_all
qed

lemma timeout_ticks_only_silence_witness:
  "\<exists>pool' res. attempts_loop std_libs proxy_default 3 [123, 125] 30 slow_then_fine 1 0 three_entries =
      (res, pool', [(2, TimedOut, 30)]) \<and>
    p_streak (entry pool' 2) = -1 \<and> p_transport_failures (entry pool' 2) = 1"
proof -
  have sel: "fst (next_eligible three_entries) = Some 2"
    by (simp add: next_eligible_select select_sampled_def three_entries_eligible)
      (simp add: three_entries_def three_entries_eligible upt_rec)
  obtain res pool' trace where l: "attempts_loop std_libs proxy_default 3 [123, 125] 30 slow_then_fine (Suc 0) 0
      three_entries = (res, pool', trace)" by (metis prod_cases3)
  from l have trace: "trace = [(2, TimedOut, 30)]"
  proof (cases rule: attempts_loop_cases)
    case (again r out timeout rest)
    with sel show ?thesis
      by (simp add: attempt_at_def Let_def slow_then_fine_def attempt_def proxy_default_def secs_def)
  qed (use sel in \<open>simp_all add: attempt_at_def Let_def slow_then_fine_def attempt_def\<close>)
  have "\<not> answered_since 0 (entry (snd (next_eligible three_entries)) 2)"
    by (simp add: three_entries_def entry_def provider_new_def answered_since_def)
  moreover have "p_streak (entry (snd (next_eligible three_entries)) 2) = 0"
    "p_transport_failures (entry (snd (next_eligible three_entries)) 2) = 0"
    by (simp_all add: three_entries_def entry_def provider_new_def)
  ultimately have "p_streak (entry pool' 2) = -1 \<and> p_transport_failures (entry pool' 2) = 1"
    using timeout_ticks_only_silence [of three_entries 2 slow_then_fine 0 30 "snd (next_eligible three_entries)"
        std_libs proxy_default 3 "[123, 125]" res pool' TimedOut 30] l sel trace
    by (simp add: slow_then_fine_def streak_step_def i64_min_def failed_def)
  with l trace show ?thesis by auto
qed

end
