(* ===== verification/Stats.thy ===== *)
theory Stats
  imports Rotation
begin

text \<open>
  The hourly buckets (\<open>stats.rs\<close>): a ring of closed hours per counter, the rings of every
  provider and of the load balancer itself, the hour the tick task closes, and the report. The
  file keeps the rings without their last readings; reading it back is \<open>reloaded\<close>. The RFC 3339
  printer is a parameter.
\<close>

section \<open>A ring\<close>

definition HOURS :: nat where
  "HOURS = 31 * 24"

definition HOUR :: u64 where
  "HOUR = 3600"

record bucket =
  bk_start :: u64
  bk_count :: u64
  bk_partial :: bool

record ring =
  rg_buckets :: "bucket list"
  rg_last :: "u64 option"

definition ring_default :: ring where
  "ring_default = \<lparr>rg_buckets = [], rg_last = None\<rparr>"

definition ring_close :: "u64 \<Rightarrow> u64 \<Rightarrow> bool \<Rightarrow> ring \<Rightarrow> ring" where
  "ring_close start reading stopping ring =
     (let count = sat_sub reading (case rg_last ring of None \<Rightarrow> 0 | Some prev \<Rightarrow> prev);
          partial = (stopping \<or> rg_last ring = None);
          buckets = rg_buckets ring
      in if buckets \<noteq> [] \<and> bk_start (last buckets) = start
         then \<lparr>rg_buckets = butlast buckets @
                  [(last buckets)\<lparr>bk_count := bk_count (last buckets) + count, bk_partial := True\<rparr>],
               rg_last = Some reading\<rparr>
         else let buckets = (if length buckets = HOURS then tl buckets else buckets)
              in \<lparr>rg_buckets = buckets @ [\<lparr>bk_start = start, bk_count = count, bk_partial = partial\<rparr>],
                  rg_last = Some reading\<rparr>)"

definition ring_tick :: "u64 \<Rightarrow> u64 \<Rightarrow> ring \<Rightarrow> ring" where
  "ring_tick start reading ring = ring_close start reading False ring"

definition ring_stop :: "u64 \<Rightarrow> u64 \<Rightarrow> ring \<Rightarrow> ring" where
  "ring_stop start reading ring = ring_close start reading True ring"

definition newest :: "ring \<Rightarrow> u64 option" where
  "newest ring = (if rg_buckets ring = [] then None else Some (bk_start (last (rg_buckets ring))))"

definition ring_since :: "u64 \<Rightarrow> ring \<Rightarrow> bucket list" where
  "ring_since since ring = filter (\<lambda>bucket. since \<le> bk_start bucket) (rg_buckets ring)"

section \<open>All rings\<close>

record provider_rings =
  pr_agreement_id :: "string option"
  pr_served :: ring
  pr_transport_failures :: ring

definition provider_rings_default :: provider_rings where
  "provider_rings_default =
     \<lparr>pr_agreement_id = None, pr_served = ring_default, pr_transport_failures = ring_default\<rparr>"

record lb_rings =
  lr_no_healthy_provider :: ring
  lr_timed_out :: ring
  lr_no_provider_answered :: ring

record stats =
  ss_providers :: "(string \<times> provider_rings) list"
  ss_lb :: lb_rings

definition stats_empty :: stats where
  "stats_empty = \<lparr>ss_providers = [], ss_lb =
     \<lparr>lr_no_healthy_provider = ring_default, lr_timed_out = ring_default, lr_no_provider_answered = ring_default\<rparr>\<rparr>"

definition close_provider :: "libs \<Rightarrow> u64 \<Rightarrow> bool \<Rightarrow> provider \<Rightarrow> provider_rings \<Rightarrow> provider_rings" where
  "close_provider L start stopping p rings =
     \<lparr>pr_agreement_id = map_option (key_hex L) (agreement_id p),
      pr_served = ring_close start (p_served_total p) stopping (pr_served rings),
      pr_transport_failures = ring_close start (p_transport_failures p) stopping (pr_transport_failures rings)\<rparr>"

definition close_entry ::
  "libs \<Rightarrow> u64 \<Rightarrow> bool \<Rightarrow> provider \<Rightarrow> (string \<times> provider_rings) list \<Rightarrow> (string \<times> provider_rings) list" where
  "close_entry L start stopping p rings =
     bt_insert (p_id p)
       (close_provider L start stopping p
          (case map_of rings (p_id p) of None \<Rightarrow> provider_rings_default | Some r \<Rightarrow> r)) rings"

definition stats_close :: "libs \<Rightarrow> u64 \<Rightarrow> pool \<Rightarrow> bool \<Rightarrow> stats \<Rightarrow> stats" where
  "stats_close L start pool stopping stats =
     (let outcomes = pl_outcomes pool; lb = ss_lb stats
      in \<lparr>ss_providers =
            fold (\<lambda>r. close_entry L start stopping (entry pool r)) (snapshot pool) (ss_providers stats),
          ss_lb =
            \<lparr>lr_no_healthy_provider =
               ring_close start (lo_no_healthy_provider outcomes) stopping (lr_no_healthy_provider lb),
             lr_timed_out = ring_close start (lo_timed_out outcomes) stopping (lr_timed_out lb),
             lr_no_provider_answered =
               ring_close start (lo_no_provider_answered outcomes) stopping (lr_no_provider_answered lb)\<rparr>\<rparr>)"

definition stats_tick :: "libs \<Rightarrow> u64 \<Rightarrow> pool \<Rightarrow> stats \<Rightarrow> stats" where
  "stats_tick L start pool stats =
     (let stats = stats_close L start pool False stats;
          oldest_kept = sat_sub start (of_nat HOURS * HOUR)
      in stats\<lparr>ss_providers :=
           filter (\<lambda>(_, rings). case newest (pr_served rings) of Some n \<Rightarrow> oldest_kept \<le> n | None \<Rightarrow> False)
             (ss_providers stats)\<rparr>)"

definition stats_stop :: "libs \<Rightarrow> u64 \<Rightarrow> pool \<Rightarrow> stats \<Rightarrow> stats" where
  "stats_stop L start pool stats = stats_close L start pool True stats"

definition ring_reloaded :: "ring \<Rightarrow> ring" where
  "ring_reloaded ring = ring\<lparr>rg_last := None\<rparr>"

text \<open>What \<open>load\<close> returns: the saved rings, or none when the file is absent or does not parse.\<close>

definition reloaded :: "stats option \<Rightarrow> stats" where
  "reloaded saved =
     (case saved of
        None \<Rightarrow> stats_empty
      | Some s \<Rightarrow>
          \<lparr>ss_providers = map (\<lambda>(i, r). (i, r\<lparr>pr_served := ring_reloaded (pr_served r),
               pr_transport_failures := ring_reloaded (pr_transport_failures r)\<rparr>)) (ss_providers s),
           ss_lb = \<lparr>lr_no_healthy_provider = ring_reloaded (lr_no_healthy_provider (ss_lb s)),
             lr_timed_out = ring_reloaded (lr_timed_out (ss_lb s)),
             lr_no_provider_answered = ring_reloaded (lr_no_provider_answered (ss_lb s))\<rparr>\<rparr>)"

section \<open>The tick task\<close>

text \<open>The start of the bucket a tick closes, for a wait begun at \<open>at\<close>, and the wait; and of the bucket a stop closes.\<close>

definition tick_bucket :: "u64 \<Rightarrow> u64 \<Rightarrow> u64 \<times> u64" where
  "tick_bucket period at = (let nxt = (at div period + 1) * period in (nxt - period, nxt - at))"

definition stop_bucket :: "u64 \<Rightarrow> u64 \<Rightarrow> u64" where
  "stop_bucket period at = at div period * period"

section \<open>The report\<close>

record provider_row =
  pw_hour :: string
  pw_served :: u64
  pw_transport_failures :: u64
  pw_partial :: bool

record lb_row =
  lw_hour :: string
  lw_no_healthy_provider :: u64
  lw_timed_out :: u64
  lw_no_provider_answered :: u64
  lw_partial :: bool

record provider_report =
  pp_id :: string
  pp_agreement_id :: "string option"
  pp_buckets :: "provider_row list"

record report =
  rp_lb :: "string option"
  rp_generated_at :: string
  rp_bucket :: string
  rp_since :: string
  rp_providers :: "provider_report list"
  rp_lb_outcomes :: "lb_row list"

definition provider_rows :: "(u64 \<Rightarrow> string) \<Rightarrow> u64 \<Rightarrow> provider_rings \<Rightarrow> provider_row list" where
  "provider_rows iso_text since rings =
     map (\<lambda>(served, failures). \<lparr>pw_hour = iso_text (bk_start served), pw_served = bk_count served,
            pw_transport_failures = bk_count failures, pw_partial = bk_partial served\<rparr>)
       (zip (ring_since since (pr_served rings)) (ring_since since (pr_transport_failures rings)))"

definition lb_rows :: "(u64 \<Rightarrow> string) \<Rightarrow> u64 \<Rightarrow> lb_rings \<Rightarrow> lb_row list" where
  "lb_rows iso_text since lb =
     map (\<lambda>((no_healthy, timed_out), unanswered).
            \<lparr>lw_hour = iso_text (bk_start no_healthy), lw_no_healthy_provider = bk_count no_healthy,
             lw_timed_out = bk_count timed_out, lw_no_provider_answered = bk_count unanswered,
             lw_partial = bk_partial no_healthy\<rparr>)
       (zip (zip (ring_since since (lr_no_healthy_provider lb)) (ring_since since (lr_timed_out lb)))
          (ring_since since (lr_no_provider_answered lb)))"

definition report :: "(u64 \<Rightarrow> string) \<Rightarrow> u64 \<Rightarrow> u64 \<Rightarrow> string option \<Rightarrow> stats \<Rightarrow> report" where
  "report iso_text since now lb stats =
     \<lparr>rp_lb = lb, rp_generated_at = iso_text now, rp_bucket = ''1h'', rp_since = iso_text since,
      rp_providers = map (\<lambda>(ident, rings). \<lparr>pp_id = ident, pp_agreement_id = pr_agreement_id rings,
         pp_buckets = provider_rows iso_text since rings\<rparr>) (ss_providers stats),
      rp_lb_outcomes = lb_rows iso_text since (ss_lb stats)\<rparr>"

section \<open>Lemmas\<close>

definition total :: "ring \<Rightarrow> u64" where
  "total ring = sum_list (map bk_count (rg_buckets ring))"

definition growth :: "u64 option \<Rightarrow> u64 \<Rightarrow> u64" where
  "growth before reading = sat_sub reading (case before of None \<Rightarrow> 0 | Some prev \<Rightarrow> prev)"

lemma ring_close_last [simp]: "rg_last (ring_close start reading stopping ring) = Some reading"
  by (simp add: ring_close_def Let_def)

lemma ring_close_length:
  "length (rg_buckets ring) \<le> HOURS \<Longrightarrow> length (rg_buckets (ring_close start reading stopping ring)) \<le> HOURS"
  by (auto simp: ring_close_def Let_def HOURS_def)

lemma ring_close_grows:
  "length (rg_buckets (ring_close start reading stopping ring)) \<le> Suc (length (rg_buckets ring))"
  by (auto simp: ring_close_def Let_def)

lemma ring_close_total:
  assumes "length (rg_buckets ring) < HOURS"
  shows "total (ring_close start reading stopping ring) = total ring + growth (rg_last ring) reading"
proof (cases "rg_buckets ring \<noteq> [] \<and> bk_start (last (rg_buckets ring)) = start")
  case True
  then obtain bs b where "rg_buckets ring = bs @ [b]" by (cases "rg_buckets ring" rule: rev_cases) auto
  with True show ?thesis by (simp add: ring_close_def Let_def total_def growth_def add_ac)
next
  case False
  with assms show ?thesis by (auto simp: ring_close_def Let_def total_def growth_def)
qed

text \<open>The shape of a ring: which hours it holds, and whether each was whole.\<close>

definition ring_shape :: "ring \<Rightarrow> (u64 \<times> bool) list \<times> bool" where
  "ring_shape ring = (map (\<lambda>b. (bk_start b, bk_partial b)) (rg_buckets ring), rg_last ring = None)"

lemma ring_close_shape:
  assumes "ring_shape a = ring_shape b"
  shows "ring_shape (ring_close start x stopping a) = ring_shape (ring_close start y stopping b)"
proof -
  from assms have m: "map (\<lambda>b. (bk_start b, bk_partial b)) (rg_buckets a) =
      map (\<lambda>b. (bk_start b, bk_partial b)) (rg_buckets b)" and n: "(rg_last a = None) = (rg_last b = None)"
    by (simp_all add: ring_shape_def)
  let ?f = "\<lambda>b. (bk_start b, bk_partial b)"
  have len: "length (rg_buckets a) = length (rg_buckets b)" using arg_cong [OF m, of length] by simp
  then have emp: "(rg_buckets a = []) = (rg_buckets b = [])" by auto
  have last: "bk_start (last (rg_buckets a)) = bk_start (last (rg_buckets b))" if "rg_buckets a \<noteq> []"
    using arg_cong [OF m, of last] that emp by (simp add: last_map)
  have but: "map ?f (butlast (rg_buckets a)) = map ?f (butlast (rg_buckets b))" by (simp only: map_butlast m)
  have tl: "map ?f (tl (rg_buckets a)) = map ?f (tl (rg_buckets b))" by (simp only: map_tl m)
  show ?thesis
  proof (cases "rg_buckets a = []")
    case True
    with emp n show ?thesis by (simp add: ring_shape_def ring_close_def Let_def HOURS_def)
  next
    case False
    with m n len emp last [OF False] but tl show ?thesis
      by (simp add: ring_shape_def ring_close_def Let_def)
  qed
qed

lemma ring_shape_since:
  assumes "ring_shape a = ring_shape b"
  shows "map (\<lambda>b. (bk_start b, bk_partial b)) (ring_since s a) = map (\<lambda>b. (bk_start b, bk_partial b)) (ring_since s b)"
proof -
  have "map (\<lambda>b. (bk_start b, bk_partial b)) (ring_since s r) =
      filter (\<lambda>(h, _). s \<le> h) (fst (ring_shape r))" for r
    by (simp add: ring_since_def ring_shape_def filter_map o_def)
  with assms show ?thesis by simp
qed

lemma ring_reloaded_shape:
  "ring_shape a = ring_shape b \<Longrightarrow> ring_shape (ring_reloaded a) = ring_shape (ring_reloaded b)"
  by (simp add: ring_shape_def ring_reloaded_def)

section \<open>The life of a ring\<close>

type_synonym closing = "u64 \<times> u64 \<times> bool"

definition ring_run :: "closing list \<Rightarrow> ring \<Rightarrow> ring" where
  "ring_run closings = fold (\<lambda>(start, reading, stopping). ring_close start reading stopping) closings"

fun total_growth :: "u64 option \<Rightarrow> closing list \<Rightarrow> u64" where
  "total_growth before [] = 0"
| "total_growth before ((_, reading, _) # cs) = growth before reading + total_growth (Some reading) cs"

lemma ring_run_total:
  assumes "length (rg_buckets ring) + length closings \<le> HOURS"
  shows "total (ring_run closings ring) = total ring + total_growth (rg_last ring) closings"
  using assms
proof (induction closings arbitrary: ring)
  case (Cons c cs)
  obtain start reading stopping where c: "c = (start, reading, stopping)" by (cases c)
  let ?r = "ring_close start reading stopping ring"
  have "length (rg_buckets ?r) + length cs \<le> HOURS"
    using ring_close_grows [of start reading stopping ring] Cons.prems by simp
  from Cons.IH [OF this] ring_close_total [of ring start reading stopping] Cons.prems
  show ?case by (simp add: ring_run_def c add_ac)
qed (simp add: ring_run_def)

lemma total_growth_monotone:
  assumes "sorted (map (\<lambda>(_, r, _). unat r) cs)" and "\<forall>(_, r, _) \<in> set cs. prev \<le> r" and "cs \<noteq> []"
  shows "total_growth (Some prev) cs = fst (snd (last cs)) - prev"
  using assms
proof (induction cs arbitrary: prev)
  case (Cons c cs)
  obtain start reading stopping where c: "c = (start, reading, stopping)" by (cases c)
  from Cons.prems(2) c have g: "growth (Some prev) reading = reading - prev"
    by (simp add: growth_def sat_sub_def)
  show ?case
  proof (cases "cs = []")
    case True
    with c g show ?thesis by simp
  next
    case False
    have "\<forall>(_, r, _) \<in> set cs. reading \<le> r" using Cons.prems(1) c by (auto simp: word_le_nat_alt)
    with Cons.IH [of reading] Cons.prems(1) False c g show ?thesis by simp
  qed
qed simp

text \<open>
  Nothing counted is lost between buckets. Over any closings of one process, ticks and
  stops, on time or late, within the hours a ring holds, the buckets together grow by what the
  readings grew from closing to closing; so for a counter that only grows, from its start in this
  process, they hold exactly its last reading. A reading below the one before counts as nothing.
\<close>

theorem ring_conserves:
  assumes "length (rg_buckets ring) + length closings \<le> HOURS"
  shows "total (ring_run closings ring) = total ring + total_growth (rg_last ring) closings \<and>
    (rg_last ring = None \<and> closings \<noteq> [] \<and> sorted (map (\<lambda>(_, r, _). unat r) closings) \<longrightarrow>
       total (ring_run closings ring) = total ring + fst (snd (last closings)))"
proof -
  have "total_growth None closings = fst (snd (last closings))"
    if "closings \<noteq> []" "sorted (map (\<lambda>(_, r, _). unat r) closings)"
  proof -
    have "total_growth None closings = total_growth (Some 0) closings"
      by (cases closings) (auto simp: growth_def)
    also have "\<dots> = fst (snd (last closings)) - 0"
      by (rule total_growth_monotone) (use that in auto)
    finally show ?thesis by simp
  qed
  with ring_run_total [OF assms] show ?thesis by simp
qed

lemma ring_conserves_witness:
  "total (ring_run [(0, 5, False), (3600, 5, False), (7200, 9, True)] ring_default) = 9"
  using ring_conserves [of ring_default "[(0, 5, False), (3600, 5, False), (7200, 9, True)]"]
  by (simp add: ring_default_def HOURS_def growth_def sat_sub_def) (simp add: total_def)

text \<open>
  A restart inside an hour leaves one bucket for it. What the stop closed and what the
  next process counted until its first tick in that hour, from a counter that began at zero again,
  are added in one bucket marked partial, and no other bucket changes.
\<close>

theorem restart_merges_the_hour:
  assumes "length (rg_buckets ring) < HOURS" and "newest ring \<noteq> Some start"
  shows "rg_buckets (ring_tick start reading' (ring_reloaded (ring_stop start reading ring))) =
    rg_buckets ring @ [\<lparr>bk_start = start, bk_count = growth (rg_last ring) reading + reading', bk_partial = True\<rparr>]"
  using assms
  by (auto simp: ring_tick_def ring_stop_def ring_reloaded_def ring_close_def Let_def newest_def growth_def sat_sub_def)

lemma restart_merges_the_hour_witness:
  "rg_buckets (ring_tick 3600 2 (ring_reloaded (ring_stop 3600 7 ring_default))) =
     [\<lparr>bk_start = 3600, bk_count = 9, bk_partial = True\<rparr>]"
  using restart_merges_the_hour [of ring_default 3600 2 7]
  by (simp add: ring_default_def HOURS_def newest_def growth_def sat_sub_def)

section \<open>The life of the statistics\<close>

inductive stats_history :: "libs \<Rightarrow> stats \<Rightarrow> bool" where
  fresh: "stats_history L (reloaded None)"
| ticked: "stats_history L s \<Longrightarrow> stats_history L (stats_tick L start pool s)"
| stopped: "stats_history L s \<Longrightarrow> stats_history L (stats_stop L start pool s)"
| restarted: "stats_history L s \<Longrightarrow> stats_history L (reloaded (Some s))"

definition paired :: "stats \<Rightarrow> bool" where
  "paired s \<longleftrightarrow> bt_wf (ss_providers s) \<and>
     (\<forall>(_, r) \<in> set (ss_providers s). ring_shape (pr_served r) = ring_shape (pr_transport_failures r)) \<and>
     ring_shape (lr_no_healthy_provider (ss_lb s)) = ring_shape (lr_timed_out (ss_lb s)) \<and>
     ring_shape (lr_no_healthy_provider (ss_lb s)) = ring_shape (lr_no_provider_answered (ss_lb s))"

definition rings_paired :: "(string \<times> provider_rings) list \<Rightarrow> bool" where
  "rings_paired m \<longleftrightarrow> bt_wf m \<and>
     (\<forall>(_, r) \<in> set m. ring_shape (pr_served r) = ring_shape (pr_transport_failures r))"

lemma set_bt_insert: "set (bt_insert k v m) \<subseteq> insert (k, v) (set m)"
  by (induction k v m rule: bt_insert.induct) auto

lemma close_entry_paired:
  assumes "rings_paired m"
  shows "rings_paired (close_entry L start stopping p m)"
proof -
  let ?old = "case map_of m (p_id p) of None \<Rightarrow> provider_rings_default | Some r \<Rightarrow> r"
  have "ring_shape (pr_served ?old) = ring_shape (pr_transport_failures ?old)"
    using assms by (auto simp: rings_paired_def provider_rings_default_def split: option.splits dest: map_of_SomeD)
  then have "ring_shape (pr_served (close_provider L start stopping p ?old)) =
      ring_shape (pr_transport_failures (close_provider L start stopping p ?old))"
    by (simp add: close_provider_def ring_close_shape)
  with assms set_bt_insert [of "p_id p" "close_provider L start stopping p ?old" m] show ?thesis
    by (auto simp: rings_paired_def close_entry_def)
qed

lemma stats_close_paired:
  assumes "paired s"
  shows "paired (stats_close L start pool stopping s)"
proof -
  have "rings_paired m \<Longrightarrow> rings_paired (fold (\<lambda>r. close_entry L start stopping (entry pool r)) rs m)" for rs m
    by (induction rs arbitrary: m) (simp_all add: close_entry_paired)
  moreover have "rings_paired (ss_providers s)" using assms by (simp add: paired_def rings_paired_def)
  ultimately have "rings_paired (ss_providers (stats_close L start pool stopping s))"
    by (simp add: stats_close_def Let_def)
  with assms show ?thesis
    by (auto simp: paired_def rings_paired_def stats_close_def Let_def ring_close_shape)
qed

lemma history_paired: "stats_history L s \<Longrightarrow> paired s"
proof (induction rule: stats_history.induct)
  case (ticked L s start pool)
  from stats_close_paired [OF ticked.IH, of L start pool False] show ?case
    by (auto simp: stats_tick_def Let_def paired_def intro: bt_wf_filter)
next
  case (stopped L s start pool)
  then show ?case by (simp add: stats_stop_def stats_close_paired)
next
  case (restarted L s)
  define f where "f r = r\<lparr>pr_served := ring_reloaded (pr_served r),
      pr_transport_failures := ring_reloaded (pr_transport_failures r)\<rparr>" for r :: provider_rings
  have p: "ss_providers (reloaded (Some s)) = map (\<lambda>(i, r). (i, f r)) (ss_providers s)"
    by (simp add: reloaded_def f_def)
  have k: "map fst (map (\<lambda>(i, r). (i, f r)) m) = map fst m" for m :: "(string \<times> provider_rings) list"
    by (induction m) auto
  have "ring_shape (pr_served (f r)) = ring_shape (pr_transport_failures (f r))"
    if "ring_shape (pr_served r) = ring_shape (pr_transport_failures r)" for r
    using ring_reloaded_shape [OF that] by (simp add: f_def)
  then have "\<forall>(_, r) \<in> set (ss_providers (reloaded (Some s))). ring_shape (pr_served r) = ring_shape (pr_transport_failures r)"
    using restarted.IH unfolding p paired_def by fastforce
  moreover have "bt_wf (ss_providers (reloaded (Some s)))"
    unfolding p k using restarted.IH by (simp add: paired_def)
  moreover from restarted.IH have
    one: "ring_shape (lr_no_healthy_provider (ss_lb s)) = ring_shape (lr_timed_out (ss_lb s))" and
    two: "ring_shape (lr_no_healthy_provider (ss_lb s)) = ring_shape (lr_no_provider_answered (ss_lb s))"
    unfolding paired_def by blast+
  have "ring_shape (lr_no_healthy_provider (ss_lb (reloaded (Some s)))) =
      ring_shape (lr_timed_out (ss_lb (reloaded (Some s))))"
    using ring_reloaded_shape [OF one] by (simp add: reloaded_def)
  moreover have "ring_shape (lr_no_healthy_provider (ss_lb (reloaded (Some s)))) =
      ring_shape (lr_no_provider_answered (ss_lb (reloaded (Some s))))"
    using ring_reloaded_shape [OF two] by (simp add: reloaded_def)
  ultimately show ?case unfolding paired_def by (intro conjI)
qed (simp add: reloaded_def stats_empty_def paired_def)


definition one_provider_stats :: stats where
  "one_provider_stats = stats_stop std_libs 3600 \<lparr>pl_members = [0], pl_cursor = 0, pl_outcomes = no_outcomes,
     pl_heap = (\<lambda>_. provider_new ''a'' (Url ''u'') Static 0), pl_fresh = 1\<rparr> (reloaded None)"


text \<open>
  The hour a tick closes is the one its wait began in: it starts at a whole multiple of
  the period, contains the moment the wait began, and the wait ends exactly at its end; a stop
  closes the hour it falls in. The period is not zero and the clock is below the last period of
  its range.
\<close>

theorem tick_closes_the_hour_it_waited_in:
  assumes "tick_bucket period at = (start, wait)" and "0 < period" and "unat at + unat period < 2 ^ 64"
  shows "unat start = unat at div unat period * unat period \<and> start \<le> at \<and>
    unat at < unat start + unat period \<and> unat at + unat wait = unat start + unat period \<and>
    stop_bucket period at = start"
proof -
  let ?a = "unat at" and ?p = "unat period"
  have p: "0 < ?p" using assms(2) by (simp add: word_less_nat_alt)
  have d: "?a div ?p * ?p \<le> ?a" by simp
  have lt: "?a < ?a div ?p * ?p + ?p"
    using p by (metis add.commute div_mult_mod_eq mod_less_divisor nat_add_left_cancel_less)
  have st: "unat (at div period * period) = ?a div ?p * ?p"
  proof -
    have "?a div ?p * ?p < 2 ^ 64" using le_less_trans [OF d unat_bound [of at]] by simp
    moreover have "?a div ?p < 2 ^ 64" using le_less_trans [OF div_le_dividend unat_bound [of at]] by simp
    ultimately show ?thesis by (simp add: unat_word_ariths)
  qed
  have nx: "(at div period + 1) * period = at div period * period + period" by (simp add: algebra_simps)
  have start: "start = at div period * period" and wait: "wait = at div period * period + period - at"
    using assms(1) by (auto simp: tick_bucket_def Let_def nx)
  have e: "unat (at div period * period + period) = ?a div ?p * ?p + ?p"
  proof -
    have "?a div ?p * ?p + ?p < 2 ^ 64" using d assms(3) by linarith
    with st show ?thesis by (intro trans [OF unat_add_no_wrap]) simp_all
  qed
  have "at \<le> at div period * period + period" using e lt by (simp add: word_le_nat_alt)
  then have "unat wait = ?a div ?p * ?p + ?p - ?a" unfolding wait using e by (simp add: unat_sub)
  with st start d lt show ?thesis by (simp add: word_le_nat_alt stop_bucket_def)
qed

lemma tick_closes_the_hour_it_waited_in_witness: "stop_bucket 3600 7300 = 7200"
  using tick_closes_the_hour_it_waited_in [of 3600 7300 "fst (tick_bucket 3600 7300)" "snd (tick_bucket 3600 7300)"]
  by (simp add: tick_bucket_def)

text \<open>
  A provider that rejoins is undercounted. A fresh entry counts from zero while its
  rings, kept by its id, hold the old entry's last reading; what it answered until the first close
  after, when that is no more than the old reading, is in no bucket: the bucket of that hour
  counts nothing of it, though the billing count has it.
\<close>

theorem rejoined_provider_undercounted:
  assumes "map_of (ss_providers s) ident = Some rings" and "rg_last (pr_served rings) = Some before"
    and "pl_members pool = [r]" and "p_id (entry pool r) = ident" and "p_served_total (entry pool r) \<le> before"
    and "newest (pr_served rings) \<noteq> Some start" and "bt_wf (ss_providers s)"
  shows "\<exists>rings'. map_of (ss_providers (stats_close L start pool False s)) ident = Some rings' \<and>
    last (rg_buckets (pr_served rings')) = \<lparr>bk_start = start, bk_count = 0, bk_partial = False\<rparr>"
proof -
  have "sat_sub (p_served_total (entry pool r)) before = 0"
    using assms(5) by (auto simp: sat_sub_def)
  then have "last (rg_buckets (ring_close start (p_served_total (entry pool r)) False (pr_served rings))) =
      \<lparr>bk_start = start, bk_count = 0, bk_partial = False\<rparr>"
    using assms(2,6) by (auto simp: ring_close_def Let_def newest_def)
  with assms(1,3,4) show ?thesis
    by (simp add: stats_close_def Let_def snapshot_def close_entry_def close_provider_def)
qed

lemma rejoined_provider_undercounted_witness:
  "\<exists>rings'. map_of (ss_providers (stats_close std_libs 3600
      \<lparr>pl_members = [0], pl_cursor = 0, pl_outcomes = no_outcomes,
       pl_heap = (\<lambda>_. (provider_new ''a'' (Url ''u'') Static 0)\<lparr>p_served_total := 5\<rparr>), pl_fresh = 1\<rparr> False
      (stats_empty\<lparr>ss_providers := [(''a'', provider_rings_default\<lparr>pr_served := \<lparr>rg_buckets = [], rg_last = Some 9\<rparr>\<rparr>)]\<rparr>)))
      ''a'' = Some rings' \<and>
    last (rg_buckets (pr_served rings')) = \<lparr>bk_start = 3600, bk_count = 0, bk_partial = False\<rparr>"
  by (rule rejoined_provider_undercounted [where before = 9 and r = 0
      and rings = "provider_rings_default\<lparr>pr_served := \<lparr>rg_buckets = [], rg_last = Some 9\<rparr>\<rparr>"])
    (simp_all add: stats_empty_def provider_rings_default_def entry_def provider_new_def newest_def word_le_nat_alt)

end
