(* ===== verification/Monitor.thy ===== *)
theory Monitor
  imports Forwarder Rotation
begin

text \<open>
  The probe loop (\<open>monitor.rs\<close>). A sweep asks the reference for its height when that is due,
  then probes every due member of the pool's snapshot. The probes of one sweep run together, each
  on its own entry; a \<open>sight\<close> is what the environment supplies to one of them: the provider's
  answers, and what the rest of the load balancer did to the entry while the Monitor waited.
\<close>

section \<open>Answers to a probe\<close>

definition PROBE_RESPONSE_CAP :: nat where
  "PROBE_RESPONSE_CAP = 4 * 1024"

definition hex_quantity :: "json \<Rightarrow> u64 option" where
  "hex_quantity v =
     Option.bind (as_str v) (\<lambda>s.
     Option.bind (strip_prefix ''0x'' s) (\<lambda>hex.
     map_option word_of_nat (parse_radix 16 (2 ^ 64) hex)))"

definition query_probe :: "libs \<Rightarrow> exchange \<Rightarrow> u64 option" where
  "query_probe L sent =
     (case sent of
        Inl _ \<Rightarrow> None
      | Inr response \<Rightarrow>
          (if \<not> is_success (hr_status response) then None
           else case collect_chunks PROBE_RESPONSE_CAP (hr_broken response) [] (hr_chunks response) of
                  Whole body \<Rightarrow>
                    Option.bind (json_from_slice L body) (\<lambda>body.
                    Option.bind (json_get body ''result'') hex_quantity)
                | _ \<Rightarrow> None))"

definition probe_delay :: "health_config \<Rightarrow> u32 \<Rightarrow> duration" where
  "probe_delay config failures =
     (let excess = sat_sub failures (hc_flip_after config);
          factor = (if unat excess < 32 then push_bit (unat excess) 1 else - 1 :: u32)
      in min (duration_saturating_mul (hc_probe_interval config) (unat factor)) (hc_max_probe_backoff config))"

section \<open>One entry in a sweep\<close>

record sight =
  si_chain :: exchange
  si_during_chain :: "provider \<Rightarrow> provider"
  si_block :: exchange
  si_during_block :: "provider \<Rightarrow> provider"
  si_elapsed :: duration
  si_ended :: instant

definition verify_chain :: "u64 option \<Rightarrow> u64 \<Rightarrow> provider \<Rightarrow> provider" where
  "verify_chain answer expected p =
     (case answer of
        Some actual \<Rightarrow>
          (if actual = expected then p\<lparr>p_chain_verified := True\<rparr>
           else quarantine SChain (p\<lparr>p_chain_verified := False\<rparr>))
      | None \<Rightarrow> p)"

definition chain_cleared :: "libs \<Rightarrow> health_config \<Rightarrow> bool \<Rightarrow> sight \<Rightarrow> provider \<Rightarrow> bool \<times> provider" where
  "chain_cleared L config chain_round s p =
     (case hc_chain_id config of
        None \<Rightarrow> (True, p)
      | Some expected \<Rightarrow>
          (let (asked, p) = take_chain_check_due p;
               p = (if chain_round \<or> asked
                    then verify_chain (query_probe L (si_chain s)) expected (si_during_chain s p)
                    else p)
           in (p_chain_verified p, p)))"

definition probe :: "libs \<Rightarrow> health_config \<Rightarrow> u64 option \<Rightarrow> sight \<Rightarrow> provider \<Rightarrow> bool \<times> provider" where
  "probe L config reference_height s p =
     (let p = record_probe_duration (si_elapsed s) (si_during_block s p)
      in case query_probe L (si_block s) of
           None \<Rightarrow> (False, record_health False (hc_flip_after config) SProbe (record_unanswered_probe p))
         | Some height \<Rightarrow>
             (let p = record_height height (record_answered_probe (si_ended s) p)
              in (True,
                  case reference_height of
                    Some reference \<Rightarrow>
                      (if sat_add height (hc_lag_tolerance_blocks config) < reference
                       then record_health False (hc_flip_after config) SLag p
                       else record_health True (hc_flip_after config) SProbe p)
                  | None \<Rightarrow> record_health True (hc_flip_after config) SProbe p)))"

definition reschedule_unanswered :: "health_config \<Rightarrow> instant \<Rightarrow> provider \<Rightarrow> provider" where
  "reschedule_unanswered config now p =
     p\<lparr>p_next_probe := now + probe_delay config (p_unanswered p)\<rparr>"

definition probe_entry :: "libs \<Rightarrow> health_config \<Rightarrow> u64 option \<Rightarrow> bool \<Rightarrow> instant \<Rightarrow> sight \<Rightarrow> provider \<Rightarrow> provider" where
  "probe_entry L config reference_height chain_round now s p =
     (if p_next_probe p \<le> now
      then let (cleared, p) = chain_cleared L config chain_round s p
           in if cleared
              then let (answered, p) = probe L config reference_height s p
                   in if \<not> answered then reschedule_unanswered config now p else p
              else p
      else p)"

definition probe_all :: "libs \<Rightarrow> health_config \<Rightarrow> u64 option \<Rightarrow> bool \<Rightarrow> instant \<Rightarrow> (pref \<Rightarrow> sight) \<Rightarrow> pool \<Rightarrow> pool" where
  "probe_all L config reference_height chain_round now sights pool =
     fold (\<lambda>r. entry_update r (probe_entry L config reference_height chain_round now (sights r)))
       (snapshot pool) pool"

section \<open>The loop\<close>

record reference_height =
  rh_height :: "u64 option"
  rh_asked :: "instant option"

record monitor =
  mn_reference_height :: reference_height
  mn_last_chain_round :: "instant option"
  mn_rounds :: u32
  mn_ready :: bool

definition monitor_start :: monitor where
  "monitor_start =
     \<lparr>mn_reference_height = \<lparr>rh_height = None, rh_asked = None\<rparr>, mn_last_chain_round = None,
      mn_rounds = 0, mn_ready = False\<rparr>"

definition elapsed_since :: "instant \<Rightarrow> instant option \<Rightarrow> duration \<Rightarrow> bool" where
  "elapsed_since now since interval =
     (case since of None \<Rightarrow> True | Some at \<Rightarrow> interval \<le> now - at)"

text \<open>\<open>reader\<close> is what the reference client would answer now, when there is one.\<close>

definition refresh_reference_height ::
  "health_config \<Rightarrow> (read_error + u64) option \<Rightarrow> instant \<Rightarrow> reference_height \<Rightarrow> reference_height" where
  "refresh_reference_height config reader now rh =
     (case reader of
        None \<Rightarrow> rh
      | Some asked \<Rightarrow>
          (if \<not> elapsed_since now (rh_asked rh) (hc_ref_height_interval config) then rh
           else rh\<lparr>rh_asked := Some now,
                   rh_height := (case asked of Inr height \<Rightarrow> Some height | Inl _ \<Rightarrow> None)\<rparr>))"

record tick =
  tk_reader :: "(read_error + u64) option"
  tk_asked_at :: instant
  tk_now :: instant
  tk_sights :: "pref \<Rightarrow> sight"

definition sweep :: "libs \<Rightarrow> health_config \<Rightarrow> tick \<Rightarrow> monitor \<times> pool \<Rightarrow> monitor \<times> pool" where
  "sweep L config t st =
     (let (m, pool) = st;
          rh = refresh_reference_height config (tk_reader t) (tk_asked_at t) (mn_reference_height m);
          chain_round = elapsed_since (tk_now t) (mn_last_chain_round m) (hc_chainid_check_interval config);
          last = (if chain_round then Some (tk_now t) else mn_last_chain_round m);
          pool = probe_all L config (rh_height rh) chain_round (tk_now t) (tk_sights t) pool;
          rounds = sat_add (mn_rounds m) 1
      in (\<lparr>mn_reference_height = rh, mn_last_chain_round = last, mn_rounds = rounds,
           mn_ready = (mn_ready m \<or> rounds = hc_flip_after config)\<rparr>, pool))"

section \<open>Lemmas\<close>

lemma probe_all_entries:
  assumes "distinct rs"
  shows "entry (fold (\<lambda>r. entry_update r (F r)) rs pool) r =
      (if r \<in> set rs then F r (entry pool r) else entry pool r) \<and>
    pl_members (fold (\<lambda>r. entry_update r (F r)) rs pool) = pl_members pool"
  using assms by (induction rs arbitrary: pool) auto

lemma unat_factor: "k < 32 \<Longrightarrow> unat ((2::u32) ^ k) = 2 ^ k"
proof -
  assume "k < 32"
  then have "(2::nat) ^ k < 2 ^ 32" by (intro power_strict_increasing) simp_all
  then have "unat (word_of_nat (2 ^ k) :: u32) = 2 ^ k"
    by (subst unat_of_nat) (simp add: mod_less)
  then show ?thesis by simp
qed

text \<open>
  The wait before a failing provider's next probe. Up to \<open>flip_after\<close> unanswered
  probes the cadence is the configured one, so quarantine is never slowed; from there each failure
  doubles the wait up to \<open>max_probe_backoff\<close>, which no wait exceeds; and a longer streak never
  waits less. The configured interval and maximum are durations a \<open>Duration\<close> can hold.
\<close>

theorem probe_delay_backs_off:
  assumes "hc_max_probe_backoff config \<le> duration_max"
  shows "(failures \<le> hc_flip_after config \<longrightarrow>
      probe_delay config failures = min (hc_probe_interval config) (hc_max_probe_backoff config)) \<and>
    (unat failures - unat (hc_flip_after config) < 32 \<longrightarrow>
      probe_delay config failures =
        min (hc_probe_interval config * 2 ^ (unat failures - unat (hc_flip_after config)))
          (hc_max_probe_backoff config)) \<and>
    probe_delay config failures \<le> hc_max_probe_backoff config \<and>
    (failures \<le> later \<longrightarrow> probe_delay config failures \<le> probe_delay config later)"
proof -
  define fac :: "u32 \<Rightarrow> nat" where
    "fac x = (if unat x - unat (hc_flip_after config) < 32
      then 2 ^ (unat x - unat (hc_flip_after config)) else 2 ^ 32 - 1)" for x
  have delay: "probe_delay config x = min (hc_probe_interval config * fac x) (hc_max_probe_backoff config)" for x
    using assms
    by (auto simp: probe_delay_def Let_def unat_sat_sub fac_def unat_factor duration_saturating_mul_def
        unsigned_minus_1_eq_mask mask_eq_exp_minus_1 min_def)
  have mono: "fac failures \<le> fac later" if "failures \<le> later"
  proof -
    let ?a = "unat failures - unat (hc_flip_after config)" and ?b = "unat later - unat (hc_flip_after config)"
    have ab: "?a \<le> ?b" using that by (simp add: word_le_nat_alt diff_le_mono)
    show ?thesis
    proof (cases "?b < 32")
      case True
      with ab show ?thesis by (simp add: fac_def power_increasing)
    next
      case False
      have "(2::nat) ^ ?a \<le> 2 ^ 31" if "?a < 32" using that by (intro power_increasing) auto
      then have "(2::nat) ^ ?a \<le> 2 ^ 32 - 1" if "?a < 32" using that by fastforce
      with False show ?thesis by (auto simp: fac_def)
    qed
  qed
  have zero: "fac failures = 1" if "failures \<le> hc_flip_after config"
    using that by (simp add: fac_def word_le_nat_alt)
  show ?thesis
    unfolding delay using mono zero by (auto simp: fac_def intro: min.coboundedI1 mult_le_mono2)
qed

lemma probe_delay_backs_off_witness: "probe_delay health_default 5 = secs 20"
  using probe_delay_backs_off [of health_default 5 5]
  by (simp add: health_default_def secs_def duration_max_def)

section \<open>What the rest of the load balancer does to an entry\<close>

text \<open>
  The events of an entry's life that do not come from the Monitor: client traffic,
  settlement, integrity verdicts and the tunnel's admission. \<open>quiet\<close> is an environment that does
  only such things, any number of them.
\<close>

fun other_event :: "provider_event \<Rightarrow> bool" where
  "other_event ScheduleProbe = True"
| "other_event RequestServed = True"
| "other_event (PeriodSubtracted _) = True"
| "other_event (PeriodSeeded _) = True"
| "other_event AttemptFailed = True"
| "other_event (HealthTick ok _) = (\<not> ok)"
| "other_event (Judged _ _) = True"
| "other_event _ = False"

definition quiet :: "u32 \<Rightarrow> (provider \<Rightarrow> provider) \<Rightarrow> bool" where
  "quiet f g \<longleftrightarrow> (\<forall>p. \<exists>evs. provider_run f p evs (g p) \<and> list_all (other_event \<circ> snd) evs)"

lemma quiet_id [intro]: "quiet f (\<lambda>p. p)"
  unfolding quiet_def by (intro allI exI [of _ "[]"]) simp

lemma apply_chain_verified:
  "p_chain_verified (provider_apply f now ev p) = (case ev of ChainMarked b \<Rightarrow> b | _ \<Rightarrow> p_chain_verified p)"
proof (cases ev)
  case (Judged v h)
  then show ?thesis by (cases v) (simp_all add: record_integrity_def Let_def frame_simps)
qed (simp_all add: schedule_probe_now_def take_chain_check_due_def record_unanswered_probe_def
      record_answered_probe_def record_served_def record_answer_def subtract_served_def seed_served_def
      record_transport_failure_def record_probe_duration_def Let_def record_height_def quarantine_def
      record_health_source_def record_health_def frame_simps)

lemma apply_other_healthy:
  assumes "byte_wf p" and "other_event ev" and "healthy (provider_apply f now ev p)"
  shows "healthy p"
proof -
  have n: "\<not> int (unat f) \<le> streak_step False (p_streak p)"
    using failing_step_negative [of "p_streak p"] by linarith
  from provider_apply_effects(2) [OF assms(1) refl, of f now ev] assms(2,3) n show ?thesis
    by (cases ev) (auto simp: gate_write_def split: verdict.splits if_splits)
qed

lemma other_run:
  assumes "provider_run f p evs q" and "list_all (other_event \<circ> snd) evs" and "byte_wf p"
  shows "byte_wf q \<and> p_chain_verified q = p_chain_verified p \<and> (healthy q \<longrightarrow> healthy p)"
  using assms
proof (induction rule: provider_run.induct)
  case (step f p evs q now ev)
  then have ih: "byte_wf q" "p_chain_verified q = p_chain_verified p" "healthy q \<longrightarrow> healthy p"
    and o: "other_event ev" by simp_all
  from o have "p_chain_verified (provider_apply f now ev q) = p_chain_verified q"
    by (cases ev) (simp_all only: apply_chain_verified provider_event.case other_event.simps)
  with ih apply_other_healthy [OF ih(1) o] provider_apply_effects(1) [OF ih(1) refl] show ?case by blast
qed simp

lemma quiet_keeps:
  assumes "quiet f g" and "byte_wf p"
  shows "byte_wf (g p)" "p_chain_verified (g p) = p_chain_verified p" "healthy (g p) \<Longrightarrow> healthy p"
  using assms(1) other_run [of f p _ "g p"] assms(2) unfolding quiet_def by metis+

section \<open>The chain gate\<close>

definition chain_safe :: "health_config \<Rightarrow> provider \<Rightarrow> bool" where
  "chain_safe config p \<longleftrightarrow> byte_wf p \<and> (hc_chain_id config \<noteq> None \<longrightarrow> healthy p \<longrightarrow> p_chain_verified p)"

inductive history :: "libs \<Rightarrow> health_config \<Rightarrow> provider \<Rightarrow> bool" where
  born: "history L config (provider_new i u src t)"
| other: "history L config p \<Longrightarrow> other_event ev \<Longrightarrow>
     history L config (provider_apply (hc_flip_after config) now ev p)"
| swept: "history L config p \<Longrightarrow>
     quiet (hc_flip_after config) (si_during_chain s) \<Longrightarrow> quiet (hc_flip_after config) (si_during_block s) \<Longrightarrow>
     history L config (probe_entry L config ref chain_round now s p)"

lemma quarantine_gates:
  assumes "byte_wf p"
  shows "byte_wf (quarantine s p)" "\<not> healthy (quarantine s p)"
    "p_chain_verified (quarantine s p) = p_chain_verified p"
proof -
  have wf: "byte_wf (record_health_source s (p\<lparr>p_streak := 0\<rparr>))"
    using assms by (simp add: byte_wf_def)
  from set_and_log_gates [OF wf] show "byte_wf (quarantine s p)" "\<not> healthy (quarantine s p)"
    by (simp_all add: quarantine_def)
  show "p_chain_verified (quarantine s p) = p_chain_verified p"
    by (simp add: quarantine_def frame_simps record_health_source_def)
qed

lemma record_health_gates:
  assumes "byte_wf p"
  shows "byte_wf (record_health ok f s p)"
    "p_chain_verified (record_health ok f s p) = p_chain_verified p"
    "healthy (record_health False f s p) \<Longrightarrow> healthy p"
    "serving_wrong_data (record_health ok f s p) = serving_wrong_data p"
    "p_next_probe (record_health ok f s p) = p_next_probe p"
    "p_chain_check_due (record_health ok f s p) = p_chain_check_due p"
    "healthy (record_health True f s p) = (unat f \<le> nat (streak_step True (p_streak p)) \<or> healthy p)"
proof -
  let ?q = "(record_health_source s p)\<lparr>p_streak := streak_step ok (p_streak p)\<rparr>"
  have same: "p_eligibility ?q = p_eligibility p" by simp
  have wf: "byte_wf ?q" using assms gates_cong(4) [OF same] by simp
  show "byte_wf (record_health ok f s p)"
    using set_and_log_gates(1) [OF wf] wf by (simp add: record_health_def Let_def)
  show "p_chain_verified (record_health ok f s p) = p_chain_verified p"
    "p_next_probe (record_health ok f s p) = p_next_probe p"
    "p_chain_check_due (record_health ok f s p) = p_chain_check_due p"
    by (simp_all add: record_health_def Let_def frame_simps record_health_source_def)
  show "serving_wrong_data (record_health ok f s p) = serving_wrong_data p"
    using set_and_log_gates(3) [OF wf] gates_cong(2) [OF same] by (simp add: record_health_def Let_def)
  show "healthy (record_health False f s p) \<Longrightarrow> healthy p"
    using apply_other_healthy [OF assms, of "HealthTick False s" f 0] by simp
  let ?t = "(record_health_source s p)\<lparr>p_streak := streak_step True (p_streak p)\<rparr>"
  have same': "p_eligibility ?t = p_eligibility p" by simp
  have wf': "byte_wf ?t" using assms gates_cong(4) [OF same'] by simp
  have pos: "0 < streak_step True (p_streak p)" by (simp add: streak_step_def i64_max_def)
  then have "\<not> streak_step True (p_streak p) \<le> - int (unat f)" by linarith
  moreover have "int (unat f) \<le> streak_step True (p_streak p) \<longleftrightarrow> unat f \<le> nat (streak_step True (p_streak p))"
    using pos by (simp only: nat_le_iff le_nat_iff order.strict_implies_order)
  ultimately show "healthy (record_health True f s p) = (unat f \<le> nat (streak_step True (p_streak p)) \<or> healthy p)"
    using set_and_log_gates(2) [OF wf'] gates_cong(1) [OF same']
    by (simp only: record_health_def Let_def) auto
qed

lemma touch_chain_simps [simp]:
  "p_chain_verified (record_probe_duration d p) = p_chain_verified p"
  "p_chain_verified (record_unanswered_probe p) = p_chain_verified p"
  "p_chain_verified (record_answered_probe now p) = p_chain_verified p"
  "p_chain_verified (record_height h p) = p_chain_verified p"
  "p_chain_verified (snd (take_chain_check_due p)) = p_chain_verified p"
  "p_next_probe (record_probe_duration d p) = p_next_probe p"
  "p_next_probe (record_answered_probe now p) = p_next_probe p"
  "p_next_probe (record_height h p) = p_next_probe p"
  "p_chain_check_due (record_probe_duration d p) = p_chain_check_due p"
  "p_chain_check_due (record_answered_probe now p) = p_chain_check_due p"
  "p_chain_check_due (record_height h p) = p_chain_check_due p"
  by (simp_all add: record_probe_duration_def Let_def record_unanswered_probe_def record_answered_probe_def
      record_answer_def record_height_def take_chain_check_due_def)

lemma touch_gates_simps [simp]:
  "byte_wf (record_probe_duration d p) = byte_wf p" "healthy (record_probe_duration d p) = healthy p"
  "byte_wf (record_unanswered_probe p) = byte_wf p" "healthy (record_unanswered_probe p) = healthy p"
  "byte_wf (record_answered_probe now p) = byte_wf p" "healthy (record_answered_probe now p) = healthy p"
  "byte_wf (record_height h p) = byte_wf p" "healthy (record_height h p) = healthy p"
  "byte_wf (snd (take_chain_check_due p)) = byte_wf p" "healthy (snd (take_chain_check_due p)) = healthy p"
  "byte_wf (p\<lparr>p_chain_verified := b\<rparr>) = byte_wf p" "healthy (p\<lparr>p_chain_verified := b\<rparr>) = healthy p"
  "byte_wf (p\<lparr>p_next_probe := t\<rparr>) = byte_wf p" "healthy (p\<lparr>p_next_probe := t\<rparr>) = healthy p"
  by (simp_all add: byte_wf_def healthy_def)

lemma verify_chain_safe:
  assumes "byte_wf p" and "healthy p \<longrightarrow> p_chain_verified p"
  shows "byte_wf (verify_chain a expected p)"
    "healthy (verify_chain a expected p) \<longrightarrow> p_chain_verified (verify_chain a expected p)"
  using assms quarantine_gates [of "p\<lparr>p_chain_verified := False\<rparr>" SChain]
  by (auto simp: verify_chain_def split: option.split)

lemma chain_cleared_safe:
  assumes "chain_safe config p" and "quiet (hc_flip_after config) (si_during_chain s)"
    and "chain_cleared L config chain_round s p = (ok, q)"
  shows "chain_safe config q" "ok \<longrightarrow> hc_chain_id config \<noteq> None \<longrightarrow> p_chain_verified q"
proof -
  let ?t = "snd (take_chain_check_due p)"
  have wf: "byte_wf ?t" using assms(1) by (simp add: chain_safe_def)
  note quiet = quiet_keeps [OF assms(2) wf]
  have "chain_safe config q \<and> (ok \<longrightarrow> hc_chain_id config \<noteq> None \<longrightarrow> p_chain_verified q)"
  proof (cases "hc_chain_id config")
    case None
    with assms show ?thesis by (simp add: chain_cleared_def)
  next
    case (Some expected)
    with assms(1) have safe: "healthy ?t \<longrightarrow> p_chain_verified ?t" by (simp add: chain_safe_def)
    with quiet have safe': "healthy (si_during_chain s ?t) \<longrightarrow> p_chain_verified (si_during_chain s ?t)"
      by blast
    from Some assms(3) have q: "q = (if chain_round \<or> fst (take_chain_check_due p)
        then verify_chain (query_probe L (si_chain s)) expected (si_during_chain s ?t) else ?t)"
      and ok: "ok = p_chain_verified q"
      by (auto simp: chain_cleared_def Let_def split: prod.splits)
    have "byte_wf q \<and> (healthy q \<longrightarrow> p_chain_verified q)"
      unfolding q using verify_chain_safe [OF quiet(1) safe'] wf safe by simp
    with ok show ?thesis by (simp add: chain_safe_def)
  qed
  then show "chain_safe config q" "ok \<longrightarrow> hc_chain_id config \<noteq> None \<longrightarrow> p_chain_verified q" by simp_all
qed

lemma probe_gates:
  assumes "byte_wf p" and "quiet (hc_flip_after config) (si_during_block s)"
  shows "byte_wf (snd (probe L config ref s p))"
    "p_chain_verified (snd (probe L config ref s p)) = p_chain_verified p"
proof -
  have wf: "byte_wf (si_during_block s p)" using quiet_keeps(1) [OF assms(2,1)] .
  have v: "p_chain_verified (si_during_block s p) = p_chain_verified p" using quiet_keeps(2) [OF assms(2,1)] .
  from wf show "byte_wf (snd (probe L config ref s p))"
    by (auto simp: probe_def Let_def intro: record_health_gates(1) split: option.split)
  from wf v show "p_chain_verified (snd (probe L config ref s p)) = p_chain_verified p"
    by (simp add: probe_def Let_def record_health_gates(2) split: option.split)
qed

lemma probe_unanswered_healthy:
  assumes "byte_wf p" and "quiet (hc_flip_after config) (si_during_block s)"
    and "healthy (snd (probe L config ref s p))" and "query_probe L (si_block s) = None"
  shows "healthy p"
proof -
  have wf: "byte_wf (si_during_block s p)" using quiet_keeps(1) [OF assms(2,1)] .
  with assms(3,4) have "healthy (si_during_block s p)"
    using record_health_gates(3) [of "record_unanswered_probe (record_probe_duration (si_elapsed s) (si_during_block s p))"]
    by (simp add: probe_def Let_def)
  then show ?thesis by (rule quiet_keeps(3) [OF assms(2,1)])
qed

lemma probe_entry_safe:
  assumes "chain_safe config p"
    and "quiet (hc_flip_after config) (si_during_chain s)" and "quiet (hc_flip_after config) (si_during_block s)"
  shows "chain_safe config (probe_entry L config ref chain_round now s p)"
proof (cases "p_next_probe p \<le> now")
  case False
  with assms(1) show ?thesis by (simp add: probe_entry_def)
next
  case True
  obtain ok q where c: "chain_cleared L config chain_round s p = (ok, q)" by fastforce
  note safe = chain_cleared_safe [OF assms(1,2) c]
  show ?thesis
  proof (cases ok)
    case False
    with True c safe(1) show ?thesis by (simp add: probe_entry_def)
  next
    case ok: True
    from safe(1) have wf: "byte_wf q" by (simp add: chain_safe_def)
    from probe_gates [OF wf assms(3), of L ref] ok safe(2)
    have "chain_safe config (snd (probe L config ref s q))" by (auto simp: chain_safe_def)
    with True c ok show ?thesis
      by (auto simp: probe_entry_def reschedule_unanswered_def chain_safe_def Let_def split: prod.splits)
  qed
qed

lemma history_safe: "history L config p \<Longrightarrow> chain_safe config p"
proof (induction rule: history.induct)
  case (other L config p ev now)
  then have wf: "byte_wf p" by (simp add: chain_safe_def)
  from other.hyps(2) have "p_chain_verified (provider_apply (hc_flip_after config) now ev p) = p_chain_verified p"
    by (cases ev) (simp_all only: apply_chain_verified provider_event.case other_event.simps)
  with other.IH apply_other_healthy [OF wf other.hyps(2)] provider_apply_effects(1) [OF wf refl]
  show ?case by (auto simp: chain_safe_def)
qed (simp_all add: chain_safe_def [of _ "provider_new _ _ _ _"] probe_entry_safe)

text \<open>
  C12. Only providers confirmed on the right chain serve. With \<open>chain_id\<close> configured, whatever
  traffic, settlements and integrity rounds did before and during its probes, an entry that is
  eligible is \<open>chain_verified\<close>; and a sweep whose chain check answers another chain takes the
  entry out at once, without a streak.
\<close>

theorem wrong_chain_never_eligible:
  assumes "history L config p" and "hc_chain_id config = Some expected"
    and "quiet (hc_flip_after config) (si_during_chain s)" and "quiet (hc_flip_after config) (si_during_block s)"
  shows "(eligible p \<longrightarrow> p_chain_verified p) \<and>
    (\<forall>actual. query_probe L (si_chain s) = Some actual \<and> actual \<noteq> expected \<and>
       p_next_probe p \<le> now \<and> (chain_round \<or> p_chain_check_due p) \<longrightarrow>
       \<not> eligible (probe_entry L config ref chain_round now s p) \<and>
       \<not> p_chain_verified (probe_entry L config ref chain_round now s p))"
proof -
  from history_safe [OF assms(1)] assms(2) have safe: "byte_wf p" "healthy p \<longrightarrow> p_chain_verified p"
    by (simp_all add: chain_safe_def)
  have out: "\<not> eligible q \<and> \<not> p_chain_verified q"
    if a: "query_probe L (si_chain s) = Some actual" "actual \<noteq> expected"
      "p_next_probe p \<le> now" "chain_round \<or> p_chain_check_due p"
      and q: "q = probe_entry L config ref chain_round now s p" for actual q
  proof -
    let ?g = "si_during_chain s (snd (take_chain_check_due p))"
    have wf: "byte_wf (?g\<lparr>p_chain_verified := False\<rparr>)"
      using quiet_keeps(1) [OF assms(3)] safe(1) by simp
    have v: "verify_chain (Some actual) expected ?g = quarantine SChain (?g\<lparr>p_chain_verified := False\<rparr>)"
      using a(2) by (simp add: verify_chain_def)
    have t: "take_chain_check_due p = (p_chain_check_due p, snd (take_chain_check_due p))"
      by (simp add: take_chain_check_due_def)
    have c: "chain_cleared L config chain_round s p = (False, quarantine SChain (?g\<lparr>p_chain_verified := False\<rparr>))"
      unfolding chain_cleared_def assms(2) option.case a(1) Let_def
      by (subst t) (simp only: prod.case a(4) if_True v quarantine_gates(3) [OF wf], simp)
    have q2: "q = quarantine SChain (?g\<lparr>p_chain_verified := False\<rparr>)"
      unfolding q probe_entry_def by (simp only: a(3) if_True c prod.case Let_def if_False)
    have "p_chain_verified (quarantine SChain (?g\<lparr>p_chain_verified := False\<rparr>)) = False"
      by (subst quarantine_gates(3) [OF wf]) simp
    with quarantine_gates(1,2) [OF wf, of SChain] show ?thesis
      unfolding q2 by (simp only: eligible_gates) blast
  qed
  have "eligible p \<longrightarrow> p_chain_verified p" using safe by (simp add: eligible_gates)
  with out [OF _ _ _ _ refl] show ?thesis by blast
qed

definition wrong_chain_sight :: sight where
  "wrong_chain_sight =
     \<lparr>si_chain = Inr \<lparr>hr_status = 200, hr_content_length = None, hr_chunks = [[123]], hr_broken = None\<rparr>,
      si_during_chain = (\<lambda>p. p), si_block = Inl TransportError, si_during_block = (\<lambda>p. p),
      si_elapsed = 0, si_ended = 0\<rparr>"

definition chain_two_libs :: libs where
  "chain_two_libs = std_libs\<lparr>json_from_slice := (\<lambda>_. Some (JObj [(''result'', JStr ''0x2'')]))\<rparr>"

lemma chain_two_answer: "query_probe chain_two_libs (si_chain wrong_chain_sight) = Some 2"
  by (simp add: query_probe_def wrong_chain_sight_def chain_two_libs_def is_success_def PROBE_RESPONSE_CAP_def
      hex_quantity_def strip_prefix_def parse_radix_def char_digit_def)

lemma wrong_chain_never_eligible_witness:
  "\<not> eligible (probe_entry chain_two_libs (health_default\<lparr>hc_chain_id := Some 1\<rparr>) None True 0 wrong_chain_sight
     (provider_new ''a'' (Url ''u'') Static 0))"
proof -
  have "history chain_two_libs (health_default\<lparr>hc_chain_id := Some 1\<rparr>) (provider_new ''a'' (Url ''u'') Static 0)"
    by (rule history.born)
  from wrong_chain_never_eligible [OF this, of 1 wrong_chain_sight 0 True None] chain_two_answer
  show ?thesis by (auto simp: wrong_chain_sight_def provider_new_def)
qed

section \<open>Lag and admission\<close>

definition within_reference :: "health_config \<Rightarrow> u64 option \<Rightarrow> u64 \<Rightarrow> bool" where
  "within_reference config reference height =
     (case reference of None \<Rightarrow> True
      | Some r \<Rightarrow> unat r \<le> unat height + unat (hc_lag_tolerance_blocks config))"

lemma lag_test: "sat_add height tolerance < reference \<longleftrightarrow> unat height + unat tolerance < unat reference"
  for height tolerance reference :: u64
  using unat_bound [of reference] by (auto simp: word_less_nat_alt unat_sat_add)

text \<open>
  What one probe says. A probe counts as one success exactly when the provider answered a
  height that, plus the tolerance, reaches the reference's, or there is no reference height; a
  provider further behind answered, and is charged one failure of source \<open>lag\<close>; one that did
  not answer is charged one of source \<open>probe\<close> and its unanswered streak grows. The sum
  saturates, so a height near the top of the range is never mistaken for one behind.
\<close>

theorem probe_verdict:
  assumes "p = si_during_block s before" and "probe L config reference s before = (answered, after)"
  shows "answered = (query_probe L (si_block s) \<noteq> None) \<and>
    (case query_probe L (si_block s) of
       None \<Rightarrow> p_streak after = streak_step False (p_streak p) \<and>
         from_code (p_last_source after) = Some SProbe \<and> p_unanswered after = p_unanswered p + 1
     | Some height \<Rightarrow>
         p_streak after = streak_step (within_reference config reference height) (p_streak p) \<and>
         from_code (p_last_source after) = Some (if within_reference config reference height then SProbe else SLag) \<and>
         p_unanswered after = 0 \<and> last_height after = Some (min height (u64_max - 1)))"
proof -
  have src: "p_last_source (record_health ok f g q) = signal_code g"
    and un: "p_unanswered (record_health ok f g q) = p_unanswered q"
    and ht: "p_height (record_health ok f g q) = p_height q" for ok f g q
    by (simp_all add: record_health_def Let_def frame_simps record_health_source_def)
  have lh: "last_height (record_health ok f g q) = last_height q" for ok f g q
    by (simp add: last_height_def ht)
  have u: "p_unanswered (record_height h (record_answered_probe t q)) = 0" for h t q
    by (simp add: record_height_def record_answered_probe_def record_answer_def)
  have u': "p_unanswered (record_unanswered_probe (record_probe_duration d q)) = p_unanswered q + 1" for d q
    by (simp add: record_unanswered_probe_def record_probe_duration_def Let_def)
  show ?thesis
  proof (cases "query_probe L (si_block s)")
    case None
    with assms show ?thesis
      by (auto simp: probe_def Let_def src un u' signal.dec_enc simp del: signal_code.simps)
  next
    case (Some height)
    with assms show ?thesis
      by (cases reference)
        (auto simp: probe_def Let_def src un u lh last_height_record signal.dec_enc within_reference_def lag_test not_less
          simp del: signal_code.simps)
  qed
qed

definition silent_sight :: sight where
  "silent_sight =
     \<lparr>si_chain = Inl TransportError, si_during_chain = (\<lambda>p. p), si_block = Inl TimedOutError,
      si_during_block = (\<lambda>p. p), si_elapsed = 0, si_ended = 0\<rparr>"

lemma probe_verdict_witness:
  "p_streak (snd (probe std_libs health_default (Some 100) silent_sight (provider_new ''a'' (Url ''u'') Static 0))) = -1"
  using probe_verdict [of _ silent_sight "provider_new ''a'' (Url ''u'') Static 0" std_libs health_default "Some 100"
      "fst (probe std_libs health_default (Some 100) silent_sight (provider_new ''a'' (Url ''u'') Static 0))"
      "snd (probe std_libs health_default (Some 100) silent_sight (provider_new ''a'' (Url ''u'') Static 0))"]
  by (simp add: silent_sight_def query_probe_def streak_step_def i64_min_def)

text \<open>A provider that does everything right, and the sweeps it does it in.\<close>

definition good_sight :: "libs \<Rightarrow> health_config \<Rightarrow> u64 option \<Rightarrow> sight \<Rightarrow> bool" where
  "good_sight L config reference s \<longleftrightarrow>
     (\<forall>p. si_during_chain s p = p) \<and> (\<forall>p. si_during_block s p = p) \<and>
     (\<forall>expected. hc_chain_id config = Some expected \<longrightarrow> query_probe L (si_chain s) = Some expected) \<and>
     (\<exists>height. query_probe L (si_block s) = Some height \<and> within_reference config reference height)"

inductive good_sweeps ::
  "libs \<Rightarrow> health_config \<Rightarrow> pref \<Rightarrow> pool \<Rightarrow> nat \<Rightarrow> monitor \<Rightarrow> pool \<Rightarrow> bool"
  for L config r pool0 where
  boot: "good_sweeps L config r pool0 0 monitor_start pool0"
| round: "good_sweeps L config r pool0 n m pool \<Longrightarrow>
     good_sight L config (rh_height (refresh_reference_height config (tk_reader t) (tk_asked_at t) (mn_reference_height m)))
       (tk_sights t r) \<Longrightarrow>
     p_next_probe (entry pool0 r) \<le> tk_now t \<Longrightarrow>
     sweep L config t (m, pool) = (m', pool') \<Longrightarrow>
     good_sweeps L config r pool0 (Suc n) m' pool'"

definition admitted_after :: "health_config \<Rightarrow> nat \<Rightarrow> provider \<Rightarrow> provider \<Rightarrow> bool" where
  "admitted_after config n p0 p \<longleftrightarrow>
     byte_wf p \<and> p_streak p = min (int n) i64_max \<and> \<not> serving_wrong_data p \<and>
     p_next_probe p = p_next_probe p0 \<and> (p_chain_verified p \<or> p_chain_check_due p) \<and>
     (healthy p \<longleftrightarrow> 0 < n \<and> unat (hc_flip_after config) \<le> n)"

lemma good_chain:
  assumes "good_sight L config ref s" and "p_chain_verified p \<or> p_chain_check_due p"
  obtains q where "chain_cleared L config chain_round s p = (True, q)"
    "p_eligibility q = p_eligibility p" "p_streak q = p_streak p" "p_next_probe q = p_next_probe p"
    "p_chain_verified q \<or> p_chain_check_due q"
proof (cases "hc_chain_id config")
  case None
  with that [of p] assms(2) show ?thesis by (simp add: chain_cleared_def)
next
  case (Some expected)
  with assms(1) have a: "query_probe L (si_chain s) = Some expected" "\<And>p. si_during_chain s p = p"
    by (simp_all add: good_sight_def)
  let ?t = "p\<lparr>p_chain_check_due := False\<rparr>"
  have c: "chain_cleared L config chain_round s p =
      (let q = (if chain_round \<or> p_chain_check_due p then ?t\<lparr>p_chain_verified := True\<rparr> else ?t)
       in (p_chain_verified q, q))"
    unfolding chain_cleared_def Some option.case a take_chain_check_due_def prod.case Let_def
    by (simp add: verify_chain_def)
  show ?thesis
  proof (cases "chain_round \<or> p_chain_check_due p")
    case True
    with c have "chain_cleared L config chain_round s p = (True, ?t\<lparr>p_chain_verified := True\<rparr>)"
      by (simp add: Let_def)
    then show ?thesis by (rule that) simp_all
  next
    case False
    with c assms(2) have "chain_cleared L config chain_round s p = (True, ?t)"
      by (simp add: Let_def)
    then show ?thesis by (rule that) (use False assms(2) in simp_all)
  qed
qed

lemma streak_admits: "k < 2 ^ 32 \<Longrightarrow> k \<le> nat (min (int (Suc n)) i64_max) \<longleftrightarrow> k \<le> Suc n"
  unfolding i64_max_def min_def by (cases "int (Suc n) \<le> 2 ^ 63 - 1") (simp_all only: if_True if_False nat_int, simp_all)

lemma good_probe:
  assumes "good_sight L config ref s"
  obtains q where "probe L config ref s p = (True, record_health True (hc_flip_after config) SProbe q)"
    "p_eligibility q = p_eligibility p" "p_streak q = p_streak p" "p_next_probe q = p_next_probe p"
    "p_chain_verified q = p_chain_verified p" "p_chain_check_due q = p_chain_check_due p"
proof -
  from assms obtain height where h: "query_probe L (si_block s) = Some height"
    "within_reference config ref height" and d: "\<And>p. si_during_block s p = p"
    by (auto simp: good_sight_def)
  let ?q = "record_height height (record_answered_probe (si_ended s) (record_probe_duration (si_elapsed s) p))"
  have "probe L config ref s p = (True, record_health True (hc_flip_after config) SProbe ?q)"
    using h(2) by (cases ref) (simp_all add: probe_def Let_def h(1) d lag_test within_reference_def not_less)
  then show ?thesis by (rule that [of ?q]) simp_all
qed

lemma good_sweep_entry:
  assumes "good_sight L config ref s" and "admitted_after config n p0 p" and "p_next_probe p0 \<le> now"
  shows "admitted_after config (Suc n) p0 (probe_entry L config ref chain_round now s p)"
proof -
  from assms(2) have inv: "byte_wf p" "p_streak p = min (int n) i64_max" "\<not> serving_wrong_data p"
    "p_next_probe p = p_next_probe p0" "p_chain_verified p \<or> p_chain_check_due p"
    "healthy p \<longleftrightarrow> 0 < n \<and> unat (hc_flip_after config) \<le> n" by (auto simp: admitted_after_def)
  from good_chain [OF assms(1) inv(5)] obtain q where q: "chain_cleared L config chain_round s p = (True, q)"
    "p_eligibility q = p_eligibility p" "p_streak q = p_streak p" "p_next_probe q = p_next_probe p"
    "p_chain_verified q \<or> p_chain_check_due q" by metis
  from good_probe [OF assms(1), of q] obtain q' where q':
    "probe L config ref s q = (True, record_health True (hc_flip_after config) SProbe q')"
    "p_eligibility q' = p_eligibility q" "p_streak q' = p_streak q" "p_next_probe q' = p_next_probe q"
    "p_chain_verified q' = p_chain_verified q" "p_chain_check_due q' = p_chain_check_due q" by metis
  have e: "probe_entry L config ref chain_round now s p = record_health True (hc_flip_after config) SProbe q'"
    using inv(4) assms(3) q(1) q'(1) by (simp add: probe_entry_def)
  have same: "p_eligibility q' = p_eligibility p" using q(2) q'(2) by simp
  note g = gates_cong [OF same]
  from inv(1) g have wf: "byte_wf q'" by simp
  note rh = record_health_gates [OF wf]
  have st: "streak_step True (p_streak q') = min (int (Suc n)) i64_max"
    using q(3) q'(3) inv(2) by (simp add: streak_step_def i64_max_def)
  have "unat (hc_flip_after config) \<le> nat (min (int (Suc n)) i64_max) \<longleftrightarrow> unat (hc_flip_after config) \<le> Suc n"
    by (rule streak_admits) (use unat_bound [of "hc_flip_after config"] in simp)
  with rh st g inv q q' show ?thesis
    unfolding e admitted_after_def by auto
qed

lemma rounds_sat: "unat (sat_add w (1::u32)) = min (Suc (unat w)) (2 ^ 32 - 1)"
  by (simp add: unat_sat_add)

lemma sweep_result:
  assumes "sweep L config t (m, pool) = (m', pool')"
  shows "pool' = probe_all L config
      (rh_height (refresh_reference_height config (tk_reader t) (tk_asked_at t) (mn_reference_height m)))
      (elapsed_since (tk_now t) (mn_last_chain_round m) (hc_chainid_check_interval config)) (tk_now t) (tk_sights t) pool"
    "mn_rounds m' = sat_add (mn_rounds m) 1"
    "mn_ready m' = (mn_ready m \<or> sat_add (mn_rounds m) 1 = hc_flip_after config)"
  using assms by (auto simp: sweep_def Let_def)

lemma good_sweeps_inv:
  assumes "good_sweeps L config r pool0 n m pool"
    and "distinct (pl_members pool0)" and "r \<in> set (pl_members pool0)"
    and "entry pool0 r = provider_new i u src t0" and "0 < hc_flip_after config"
  shows "pl_members pool = pl_members pool0 \<and> admitted_after config n (entry pool0 r) (entry pool r) \<and>
    unat (mn_rounds m) = min n (2 ^ 32 - 1) \<and> (mn_ready m \<longleftrightarrow> unat (hc_flip_after config) \<le> n)"
  using assms(1)
proof (induction rule: good_sweeps.induct)
  case boot
  have "\<not> unat (hc_flip_after config) \<le> 0" using assms(5) by (simp add: word_less_nat_alt)
  then show ?case using assms(4)
    by (simp add: monitor_start_def admitted_after_def i64_max_def)
next
  case (round n m pool t m' pool')
  note sw = sweep_result [OF round.hyps(4)]
  from round.IH have mem: "pl_members pool = pl_members pool0"
    and adm: "admitted_after config n (entry pool0 r) (entry pool r)"
    and rnd: "unat (mn_rounds m) = min n (2 ^ 32 - 1)"
    and rdy: "mn_ready m \<longleftrightarrow> unat (hc_flip_after config) \<le> n" by simp_all
  have d: "distinct (snapshot pool)" using mem assms(2) by (simp add: snapshot_def)
  have "entry pool' r = probe_entry L config
      (rh_height (refresh_reference_height config (tk_reader t) (tk_asked_at t) (mn_reference_height m)))
      (elapsed_since (tk_now t) (mn_last_chain_round m) (hc_chainid_check_interval config)) (tk_now t)
      (tk_sights t r) (entry pool r)" and mem': "pl_members pool' = pl_members pool0"
    using probe_all_entries [OF d] mem assms(3) unfolding sw(1) probe_all_def by (simp_all add: snapshot_def)
  with good_sweep_entry [OF round.hyps(2) adm round.hyps(3)]
  have adm': "admitted_after config (Suc n) (entry pool0 r) (entry pool' r)" by simp
  have rnd': "unat (mn_rounds m') = min (Suc n) (2 ^ 32 - 1)"
    unfolding sw(2) rounds_sat rnd by auto
  have "sat_add (mn_rounds m) 1 = hc_flip_after config \<longleftrightarrow> min (Suc n) (2 ^ 32 - 1) = unat (hc_flip_after config)"
    using rnd' sw(2) by (metis unsigned_word_eqI)
  with sw(3) rdy unat_bound [of "hc_flip_after config"]
  have "mn_ready m' \<longleftrightarrow> unat (hc_flip_after config) \<le> Suc n" by (auto simp: min_def)
  with mem' adm' rnd' show ?case by blast
qed


definition good_tick :: tick where
  "good_tick = \<lparr>tk_reader = None, tk_asked_at = 0, tk_now = 0, tk_sights = (\<lambda>_.
     \<lparr>si_chain = Inl TransportError, si_during_chain = (\<lambda>p. p),
      si_block = Inr \<lparr>hr_status = 200, hr_content_length = None, hr_chunks = [[123]], hr_broken = None\<rparr>,
      si_during_block = (\<lambda>p. p), si_elapsed = 0, si_ended = 0\<rparr>)\<rparr>"

definition lone_entry :: pool where
  "lone_entry = \<lparr>pl_members = [0], pl_cursor = 0, pl_outcomes = no_outcomes,
     pl_heap = (\<lambda>_. provider_new ''a'' (Url ''u'') Static 0), pl_fresh = 1\<rparr>"


end
