(* ===== verification/Integrity.thy ===== *)
theory Integrity
  imports Monitor Reader "HOL-Library.Multiset"
begin

text \<open>
  The integrity checker (\<open>integrity.rs\<close>): one round over the healthy providers, each read once
  at the reference's finalized height, compared, looked at a second time on a mismatch, and
  given a verdict. A \<open>look\<close> is what the environment supplies to one pass over the providers: their
  answers, the order they arrive in, and what happened to the pool until then.
\<close>

section \<open>Data\<close>

definition RESPONSE_CAP :: nat where
  "RESPONSE_CAP = 4 * 1024 * 1024"

definition KEY_PAGE_INTERVAL :: duration where
  "KEY_PAGE_INTERVAL = secs (24 * 3600)"

datatype evidence =
    EvBlock block_fields "block_fields option"
  | EvEntity entity_key "arkiv_entity list" "arkiv_entity list"
  | EvTooLarge string

datatype read_failure = FailedRead | TooLargeRead

record finding =
  fn_provider :: pref
  fn_verdict :: verdict
  fn_evidence :: "evidence option"

record expected_entity =
  ee_key :: entity_key
  ee_rows :: "unit + arkiv_entity list"

record expected =
  ex_finalized :: block_fields
  ex_entity :: "expected_entity option"

record sample_key =
  sk_key :: entity_key
  sk_created_at :: u64
  sk_expires_at :: u64

record key_page =
  kp_keys :: "sample_key list"
  kp_read_at :: "instant option"

definition exists_at :: "sample_key \<Rightarrow> u64 \<Rightarrow> bool" where
  "exists_at k height = (sk_created_at k \<le> height \<and> height < sk_expires_at k)"

record answers =
  an_provider :: pref
  an_block :: "read_failure + block_fields option"
  an_rows :: "(read_failure + arkiv_entity list) option"

section \<open>Judging one answer\<close>

fun read_failure_of :: "read_error \<Rightarrow> read_failure" where
  "read_failure_of (ReadTooLarge _) = TooLargeRead"
| "read_failure_of _ = FailedRead"

definition sorted_rows :: "arkiv_entity list \<Rightarrow> arkiv_entity list" where
  "sorted_rows rows = map (\<lambda>row. row\<lparr>e_attributes := sort_key at_name (e_attributes row)\<rparr>) rows"

definition same_entities :: "arkiv_entity list \<Rightarrow> arkiv_entity list \<Rightarrow> bool" where
  "same_entities rows reference = (sorted_rows rows = sorted_rows reference)"

definition judge :: "provider \<Rightarrow> answers \<Rightarrow> expected \<Rightarrow> verdict \<times> evidence option" where
  "judge provider answer expected =
     (let finalized = ex_finalized expected
      in case an_block answer of
           Inl FailedRead \<Rightarrow> (Unknown, None)
         | Inl TooLargeRead \<Rightarrow> (Divergence, Some (EvTooLarge ''block''))
         | Inr None \<Rightarrow>
             (case last_height provider of
                Some probed \<Rightarrow>
                  (if bf_number finalized \<le> probed then (Divergence, Some (EvBlock finalized None))
                   else (Stale, None))
              | None \<Rightarrow> (Stale, None))
         | Inr (Some block) \<Rightarrow>
             (if block \<noteq> finalized then (Divergence, Some (EvBlock finalized (Some block)))
              else case (ex_entity expected, an_rows answer) of
                     (Some entity, Some rows) \<Rightarrow>
                       (case rows of
                          Inl FailedRead \<Rightarrow> (Unknown, None)
                        | Inl TooLargeRead \<Rightarrow> (Divergence, Some (EvTooLarge ''entity''))
                        | Inr rows \<Rightarrow>
                            (case ee_rows entity of
                               Inl _ \<Rightarrow> (Unknown, None)
                             | Inr reference \<Rightarrow>
                                 (if same_entities rows reference then (Match, None)
                                  else (Divergence, Some (EvEntity (ee_key entity) reference rows)))))
                   | _ \<Rightarrow> (Match, None)))"

section \<open>A round\<close>

record look =
  lk_block :: "pref \<Rightarrow> exchange"
  lk_rows :: "pref \<Rightarrow> exchange"
  lk_order :: "pref list \<Rightarrow> pref list"
  lk_meanwhile :: "pool \<Rightarrow> pool"

definition ask :: "libs \<Rightarrow> look \<Rightarrow> expected \<Rightarrow> pref \<Rightarrow> answers" where
  "ask L look expected r =
     \<lparr>an_provider = r,
      an_block = map_err read_failure_of (read_block L RESPONSE_CAP (lk_block look r)),
      an_rows = map_option
        (\<lambda>entity. map_err read_failure_of
           (rbind (read_query L RESPONSE_CAP (lk_rows look r)) (\<lambda>page. Inr (pg_entities page))))
        (ex_entity expected)\<rparr>"

definition check :: "libs \<Rightarrow> look \<Rightarrow> expected \<Rightarrow> pref list \<Rightarrow> pool \<Rightarrow> finding list" where
  "check L look expected providers pool =
     map (\<lambda>r. let (verdict, evidence) = judge (entry pool r) (ask L look expected r) expected
              in \<lparr>fn_provider = r, fn_verdict = verdict, fn_evidence = evidence\<rparr>)
       (lk_order look providers)"

text \<open>The first finding of the same provider is replaced.\<close>

fun replace_finding :: "finding \<Rightarrow> finding list \<Rightarrow> finding list option" where
  "replace_finding second [] = None"
| "replace_finding second (first # findings) =
     (if fn_provider first = fn_provider second then Some (second # findings)
      else map_option ((#) first) (replace_finding second findings))"

definition confirm :: "libs \<Rightarrow> look \<Rightarrow> expected \<Rightarrow> finding list \<Rightarrow> pool \<Rightarrow> finding list option \<times> pool" where
  "confirm L look expected findings pool =
     (let doubtful = map fn_provider (filter (\<lambda>f. fn_verdict f = Divergence) findings)
      in if doubtful = [] then (Some findings, pool)
         else let pool = lk_meanwhile look pool
              in (fold (\<lambda>second found. Option.bind found (replace_finding second))
                    (check L look expected doubtful pool) (Some findings), pool))"

definition record_findings :: "finding list \<Rightarrow> u64 \<Rightarrow> pool \<Rightarrow> pool" where
  "record_findings findings height pool =
     fold (\<lambda>f. entry_update (fn_provider f) (record_integrity (fn_verdict f) height)) findings pool"

record round_env =
  rn_finalized :: "read_error + block_fields option"
  rn_now :: instant
  rn_page :: "read_error + page"
  rn_random :: "nat \<Rightarrow> nat"
  rn_rows :: "entity_key \<Rightarrow> u64 \<Rightarrow> read_error + page"
  rn_first :: look
  rn_second :: look

definition finalized_block :: "read_error + block_fields option \<Rightarrow> block_fields option" where
  "finalized_block answer = (case answer of Inr (Some block) \<Rightarrow> Some block | _ \<Rightarrow> None)"

definition load_keys_if_due :: "duration \<Rightarrow> round_env \<Rightarrow> u64 \<Rightarrow> key_page \<Rightarrow> key_page" where
  "load_keys_if_due interval env height page =
     (let none_alive = (\<not> list_ex (\<lambda>k. sk_expires_at k > height) (kp_keys page));
          due = (none_alive \<or> elapsed_since (rn_now env) (kp_read_at page) interval)
      in if \<not> due then page
         else case rn_page env of
                Inr p \<Rightarrow>
                  \<lparr>kp_keys = map (\<lambda>e. \<lparr>sk_key = e_key e, sk_created_at = e_created_at e,
                                       sk_expires_at = e_expires_at e\<rparr>) (pg_entities p),
                   kp_read_at = Some (rn_now env)\<rparr>
              | Inl _ \<Rightarrow> page)"

definition pick_key :: "(nat \<Rightarrow> nat) \<Rightarrow> u64 \<Rightarrow> key_page \<Rightarrow> entity_key option" where
  "pick_key random_range height page =
     (let alive = map sk_key (filter (\<lambda>k. exists_at k height) (kp_keys page))
      in if alive = [] then None else Some (alive ! random_range (length alive)))"

text \<open>The height and the answers everything in the round is compared with; none ends the round.\<close>

definition round_expected ::
  "bool \<Rightarrow> duration \<Rightarrow> round_env \<Rightarrow> block_fields \<Rightarrow> key_page \<Rightarrow> key_page \<times> expected option" where
  "round_expected entity_check interval env finalized page =
     (if \<not> entity_check then (page, Some \<lparr>ex_finalized = finalized, ex_entity = None\<rparr>)
      else let height = bf_number finalized;
               page = load_keys_if_due interval env height page
           in case pick_key (rn_random env) height page of
                None \<Rightarrow> (page, None)
              | Some key \<Rightarrow>
                  (page, Some \<lparr>ex_finalized = finalized,
                     ex_entity = Some \<lparr>ee_key = key,
                       ee_rows = (case rn_rows env key height of
                                    Inr p \<Rightarrow> Inr (pg_entities p) | Inl _ \<Rightarrow> Inl ())\<rparr>\<rparr>))"

definition round_over ::
  "libs \<Rightarrow> bool \<Rightarrow> duration \<Rightarrow> round_env \<Rightarrow> pref list \<Rightarrow> key_page \<times> pool \<Rightarrow> key_page \<times> pool" where
  "round_over L entity_check interval env providers st =
     (let (page, pool) = st
      in if providers = [] then st
         else case finalized_block (rn_finalized env) of
                None \<Rightarrow> st
              | Some finalized \<Rightarrow>
                  (case round_expected entity_check interval env finalized page of
                     (page, None) \<Rightarrow> (page, pool)
                   | (page, Some expected) \<Rightarrow>
                       (let pool = lk_meanwhile (rn_first env) pool;
                            findings = check L (rn_first env) expected providers pool;
                            (confirmed, pool) = confirm L (rn_second env) expected findings pool
                        in (page, record_findings (the confirmed) (bf_number finalized) pool))))"

definition integrity_round ::
  "libs \<Rightarrow> bool \<Rightarrow> duration \<Rightarrow> round_env \<Rightarrow> key_page \<times> pool \<Rightarrow> key_page \<times> pool" where
  "integrity_round L entity_check interval env st =
     round_over L entity_check interval env
       (filter (\<lambda>r. healthy (entry (snd st) r)) (snapshot (snd st))) st"

section \<open>Lemmas\<close>

lemma sort_key_perm:
  assumes "mset xs = mset ys" and "distinct (map f xs)"
  shows "sort_key f xs = sort_key f ys"
proof (rule sort_key_inj_key_eq)
  show "mset xs = mset (sort_key f ys)" using assms(1) by simp
  show "inj_on f (set xs)" using assms(2) by (simp add: distinct_map)
qed simp

text \<open>Findings as a map from the providers to their verdicts.\<close>

definition finding_of :: "finding list \<Rightarrow> pref \<Rightarrow> finding option" where
  "finding_of findings r = find (\<lambda>f. fn_provider f = r) findings"

lemma finding_of_None: "finding_of fs r = None \<longleftrightarrow> r \<notin> fn_provider ` set fs"
  by (induction fs) (auto simp: finding_of_def)

lemma replace_finding_Some:
  assumes "fn_provider second \<in> fn_provider ` set findings"
  obtains findings' where "replace_finding second findings = Some findings'"
    "map fn_provider findings' = map fn_provider findings"
    "\<And>r. finding_of findings' r = (if r = fn_provider second then Some second else finding_of findings r)"
  using assms
proof (induction findings arbitrary: thesis)
  case (Cons f fs)
  show ?case
  proof (cases "fn_provider f = fn_provider second")
    case True
    then show ?thesis by (intro Cons.prems(1) [of "second # fs"]) (auto simp: finding_of_def)
  next
    case False
    with Cons.prems(2) have "fn_provider second \<in> fn_provider ` set fs" by auto
    with Cons.IH obtain fs' where fs': "replace_finding second fs = Some fs'"
      "map fn_provider fs' = map fn_provider fs"
      "\<And>r. finding_of fs' r = (if r = fn_provider second then Some second else finding_of fs r)" by metis
    from False fs' show ?thesis
      by (intro Cons.prems(1) [of "f # fs'"]) (auto simp: finding_of_def)
  qed
qed simp

lemma replace_all:
  assumes "distinct (map fn_provider seconds)" and "fn_provider ` set seconds \<subseteq> fn_provider ` set findings"
  shows "\<exists>findings'. fold (\<lambda>second found. Option.bind found (replace_finding second)) seconds (Some findings) =
      Some findings' \<and> map fn_provider findings' = map fn_provider findings \<and>
    (\<forall>r. finding_of findings' r =
       (case finding_of seconds r of Some f \<Rightarrow> Some f | None \<Rightarrow> finding_of findings r))"
  using assms
proof (induction seconds arbitrary: findings)
  case Nil
  then show ?case by (simp add: finding_of_def)
next
  case (Cons s seconds)
  from Cons.prems(2) have "fn_provider s \<in> fn_provider ` set findings" by simp
  from replace_finding_Some [OF this] obtain fs where fs: "replace_finding s findings = Some fs"
    "map fn_provider fs = map fn_provider findings"
    "\<And>r. finding_of fs r = (if r = fn_provider s then Some s else finding_of findings r)" by metis
  have "fn_provider ` set fs = fn_provider ` set findings" using fs(2) by (metis list.set_map)
  with Cons.prems have "fn_provider ` set seconds \<subseteq> fn_provider ` set fs" by simp
  with Cons.IH [of fs] Cons.prems(1) obtain fs' where fs':
    "fold (\<lambda>second found. Option.bind found (replace_finding second)) seconds (Some fs) = Some fs'"
    "map fn_provider fs' = map fn_provider fs"
    "\<And>r. finding_of fs' r = (case finding_of seconds r of Some f \<Rightarrow> Some f | None \<Rightarrow> finding_of fs r)"
    by auto
  have "finding_of seconds (fn_provider s) = None"
    using Cons.prems(1) by (simp add: finding_of_None)
  with fs fs' show ?case
    by (auto simp: finding_of_def split: option.splits)
qed

definition in_order :: "look \<Rightarrow> bool" where
  "in_order look \<longleftrightarrow> (\<forall>rs. mset (lk_order look rs) = mset rs)"

definition look_verdict :: "libs \<Rightarrow> look \<Rightarrow> expected \<Rightarrow> pool \<Rightarrow> pref \<Rightarrow> verdict" where
  "look_verdict L look expected pool r = fst (judge (entry pool r) (ask L look expected r) expected)"

lemma check_findings:
  assumes "in_order look" and "distinct rs"
  shows "map fn_provider (check L look expected rs pool) = lk_order look rs"
    "distinct (lk_order look rs)" "set (lk_order look rs) = set rs"
    "r \<in> set rs \<Longrightarrow> \<exists>f. finding_of (check L look expected rs pool) r = Some f \<and> fn_provider f = r \<and>
       fn_verdict f = look_verdict L look expected pool r"
    "r \<notin> set rs \<Longrightarrow> finding_of (check L look expected rs pool) r = None"
    "\<And>f. f \<in> set (check L look expected rs pool) \<Longrightarrow>
       fn_verdict f = look_verdict L look expected pool (fn_provider f)"
proof -
  from assms(1) have m: "mset (lk_order look rs) = mset rs" by (simp add: in_order_def)
  then show s: "set (lk_order look rs) = set rs" by (metis set_mset_mset)
  from m assms(2) show "distinct (lk_order look rs)" by (metis mset_eq_imp_distinct_iff)
  show "map fn_provider (check L look expected rs pool) = lk_order look rs"
    by (simp add: check_def o_def split: prod.splits) (simp add: case_prod_beta)
  have find: "find (\<lambda>f. fn_provider f = r) (map (\<lambda>r. let (verdict, evidence) = judge (entry pool r) (ask L look expected r) expected
              in \<lparr>fn_provider = r, fn_verdict = verdict, fn_evidence = evidence\<rparr>) xs) =
      (if r \<in> set xs then Some (let (verdict, evidence) = judge (entry pool r) (ask L look expected r) expected
              in \<lparr>fn_provider = r, fn_verdict = verdict, fn_evidence = evidence\<rparr>) else None)" for xs
    by (induction xs) (auto simp: case_prod_beta Let_def)
  show "r \<in> set rs \<Longrightarrow> \<exists>f. finding_of (check L look expected rs pool) r = Some f \<and> fn_provider f = r \<and>
       fn_verdict f = look_verdict L look expected pool r"
    unfolding finding_of_def check_def find by (simp add: s look_verdict_def case_prod_beta Let_def)
  show "r \<notin> set rs \<Longrightarrow> finding_of (check L look expected rs pool) r = None"
    unfolding finding_of_def check_def find by (simp add: s)
  show "fn_verdict f = look_verdict L look expected pool (fn_provider f)"
    if "f \<in> set (check L look expected rs pool)" for f
    using that by (auto simp: check_def look_verdict_def case_prod_beta Let_def)
qed

lemma record_findings_entry:
  assumes "distinct (map fn_provider findings)"
  shows "entry (record_findings findings height pool) r =
      (case finding_of findings r of
         Some f \<Rightarrow> record_integrity (fn_verdict f) height (entry pool r) | None \<Rightarrow> entry pool r)"
  using assms
proof (induction findings arbitrary: pool)
  case Nil
  then show ?case by (simp add: record_findings_def finding_of_def)
next
  case (Cons f fs)
  have step: "record_findings (f # fs) height pool =
      record_findings fs height (entry_update (fn_provider f) (record_integrity (fn_verdict f) height) pool)"
    by (simp add: record_findings_def)
  have "finding_of fs (fn_provider f) = None"
    using Cons.prems by (simp add: finding_of_None)
  with Cons show ?case unfolding step
    by (auto simp: finding_of_def split: option.splits)
qed

section \<open>Properties\<close>

definition block_agrees :: "answers \<Rightarrow> expected \<Rightarrow> bool" where
  "block_agrees answer expected \<longleftrightarrow> an_block answer = Inr (Some (ex_finalized expected))"

text \<open>
  What each verdict means. A match is an answered block equal to the reference's and,
  where the entity was read, rows equal up to the order of their attributes. A divergence is a
  different answer, an answer over the cap, or the refusal of a block below the head the
  provider's own probes reported; it always carries its evidence, and no other verdict does, so
  recording it never panics. A failed read is never a divergence.
\<close>

theorem judge_verdicts:
  assumes "judge provider answer expected = (verdict, evidence)"
  shows "(verdict = Match \<longleftrightarrow> block_agrees answer expected \<and>
      (case (ex_entity expected, an_rows answer) of
         (Some entity, Some rows) \<Rightarrow>
           (\<exists>mine theirs. rows = Inr mine \<and> ee_rows entity = Inr theirs \<and> sorted_rows mine = sorted_rows theirs)
       | _ \<Rightarrow> True)) \<and>
    (verdict = Divergence \<longleftrightarrow> evidence \<noteq> None) \<and>
    (verdict = Stale \<longleftrightarrow> an_block answer = Inr None \<and>
      (\<forall>probed. last_height provider = Some probed \<longrightarrow> probed < bf_number (ex_finalized expected))) \<and>
    (an_block answer = Inl FailedRead \<longrightarrow> verdict = Unknown) \<and>
    (an_block answer = Inl TooLargeRead \<longrightarrow> verdict = Divergence) \<and>
    (\<forall>block. an_block answer = Inr (Some block) \<and> block \<noteq> ex_finalized expected \<longrightarrow> verdict = Divergence)"
  using assms
  by (auto simp: judge_def Let_def block_agrees_def same_entities_def
      split: sum.splits option.splits read_failure.splits if_splits)

definition block_one :: block_fields where
  "block_one = \<lparr>bf_number = 1, bf_hash = 7, bf_parent_hash = 0, bf_state_root = 0,
     bf_transactions_root = 0, bf_receipts_root = 0, bf_transactions = []\<rparr>"

lemma judge_verdicts_witness:
  "fst (judge (record_height 5 (provider_new ''a'' (Url ''u'') Static 0))
     \<lparr>an_provider = 0, an_block = Inr None, an_rows = None\<rparr>
     \<lparr>ex_finalized = block_one, ex_entity = None\<rparr>) = Divergence"
proof -
  let ?p = "record_height 5 (provider_new ''a'' (Url ''u'') Static 0)"
  let ?a = "\<lparr>an_provider = 0, an_block = Inr None, an_rows = None\<rparr>"
  let ?x = "\<lparr>ex_finalized = block_one, ex_entity = None\<rparr>"
  have j: "judge ?p ?a ?x = (fst (judge ?p ?a ?x), snd (judge ?p ?a ?x))" by simp
  have "snd (judge ?p ?a ?x) \<noteq> None"
    by (simp add: judge_def last_height_record block_one_def word_le_nat_alt min_def)
  with judge_verdicts [OF j] show ?thesis by simp
qed

text \<open>
  C14. The order a node renders attributes in is not evidence. Two answers of the same rows,
  each with its attributes in any order, names being unique per entity, judge the same as one.
\<close>

theorem attribute_order_is_no_divergence:
  assumes "list_all2 (\<lambda>a b. \<exists>attrs. b = a\<lparr>e_attributes := attrs\<rparr> \<and> mset attrs = mset (e_attributes a) \<and>
      distinct (map at_name (e_attributes a))) rows rows'"
    and "an_rows answer = Some (Inr rows)"
  shows "same_entities rows rows' \<and>
    judge provider (answer\<lparr>an_rows := Some (Inr rows')\<rparr>) expected =
      (let (v, e) = judge provider answer expected
       in (v, map_option (\<lambda>x. case x of EvEntity k reference _ \<Rightarrow> EvEntity k reference rows' | y \<Rightarrow> y) e))"
proof -
  have s: "sorted_rows rows' = sorted_rows rows"
    using assms(1)
  proof (induction rows rows' rule: list_all2_induct)
    case (Cons a rows b rows')
    then obtain attrs where b: "b = a\<lparr>e_attributes := attrs\<rparr>" "mset attrs = mset (e_attributes a)"
      "distinct (map at_name (e_attributes a))" by blast
    have "sort_key at_name attrs = sort_key at_name (e_attributes a)"
      using sort_key_perm [of "e_attributes a" attrs at_name] b(2,3) by simp
    with Cons.IH b(1) show ?case by (simp add: sorted_rows_def)
  qed (simp add: sorted_rows_def)
  then have "same_entities rows' r = same_entities rows r" for r by (simp add: same_entities_def)
  with s assms(2) show ?thesis
    by (simp add: same_entities_def [of rows rows'])
      (auto simp: judge_def Let_def split: sum.splits option.splits read_failure.splits if_splits)
qed

definition two_attributes :: "arkiv_attribute list" where
  "two_attributes = [\<lparr>at_name = ''b'', at_type = ''u64'', at_value = JStr ''1''\<rparr>,
     \<lparr>at_name = ''a'', at_type = ''u64'', at_value = JStr ''2''\<rparr>]"

lemma attribute_order_is_no_divergence_witness:
  "same_entities
     [\<lparr>e_key = 1, e_creator = 2, e_created_at = 3, e_updated_at = 3, e_expires_at = 9, e_attributes = two_attributes\<rparr>]
     [\<lparr>e_key = 1, e_creator = 2, e_created_at = 3, e_updated_at = 3, e_expires_at = 9, e_attributes = rev two_attributes\<rparr>]"
proof -
  let ?a = "\<lparr>e_key = 1, e_creator = 2, e_created_at = 3, e_updated_at = 3, e_expires_at = 9, e_attributes = two_attributes\<rparr>"
  let ?b = "?a\<lparr>e_attributes := rev two_attributes\<rparr>"
  have "list_all2 (\<lambda>a b. \<exists>attrs. b = a\<lparr>e_attributes := attrs\<rparr> \<and> mset attrs = mset (e_attributes a) \<and>
      distinct (map at_name (e_attributes a))) [?a] [?b]"
    by (auto simp: two_attributes_def)
  from attribute_order_is_no_divergence [OF this, of "\<lparr>an_provider = 0, an_block = Inr None, an_rows = Some (Inr [?a])\<rparr>"]
  show ?thesis by simp
qed

lemma confirm_result:
  assumes "in_order first" and "in_order second" and "distinct rs"
    and "confirm L second expected (check L first expected rs pool) pool = (found, pool')"
  shows "\<exists>findings. found = Some findings \<and> distinct (map fn_provider findings) \<and>
    fn_provider ` set findings = set rs \<and>
    (\<forall>r \<in> set rs. \<exists>f. finding_of findings r = Some f \<and>
       fn_verdict f = (if look_verdict L first expected pool r = Divergence
         then look_verdict L second expected pool' r else look_verdict L first expected pool r)) \<and>
    pool' = (if \<exists>r \<in> set rs. look_verdict L first expected pool r = Divergence
             then lk_meanwhile second pool else pool)"
proof -
  let ?fs = "check L first expected rs pool"
  note c = check_findings [OF assms(1,3)]
  define doubtful where "doubtful = map fn_provider (filter (\<lambda>f. fn_verdict f = Divergence) ?fs)"
  have keys: "distinct (map fn_provider ?fs)" using c(1,2) by simp
  have provs: "fn_provider ` set ?fs = set rs" using c(1,3) by (metis list.set_map)
  have dset: "set doubtful = {r \<in> set rs. look_verdict L first expected pool r = Divergence}"
  proof -
    have "set doubtful = fn_provider ` {f \<in> set ?fs. fn_verdict f = Divergence}" by (simp add: doubtful_def)
    also have "{f \<in> set ?fs. fn_verdict f = Divergence} =
        {f \<in> set ?fs. look_verdict L first expected pool (fn_provider f) = Divergence}"
      using c(6) by auto
    also have "fn_provider ` \<dots> = {r \<in> fn_provider ` set ?fs. look_verdict L first expected pool r = Divergence}"
      by auto
    finally show ?thesis by (simp only: provs)
  qed
  have dd: "distinct doubtful" using keys by (simp add: doubtful_def distinct_map_filter)
  show ?thesis
  proof (cases "doubtful = []")
    case True
    then have e: "found = Some ?fs" "pool' = pool"
      using assms(4) by (auto simp: confirm_def Let_def simp flip: doubtful_def)
    have none: "\<not> (\<exists>r \<in> set rs. look_verdict L first expected pool r = Divergence)"
      using True dset by (metis (mono_tags, lifting) empty_iff empty_set mem_Collect_eq)
    have "\<exists>f. finding_of ?fs r = Some f \<and> fn_verdict f = look_verdict L first expected pool r"
      if "r \<in> set rs" for r
      using c(4) [OF that, of L expected pool] by blast
    with none e keys provs show ?thesis by auto
  next
    case False
    let ?p = "lk_meanwhile second pool"
    let ?ss = "check L second expected doubtful ?p"
    note c2 = check_findings [OF assms(2) dd]
    have e: "fold (\<lambda>second found. Option.bind found (replace_finding second)) ?ss (Some ?fs) = found" "pool' = ?p"
      using assms(4) False by (auto simp: confirm_def Let_def simp flip: doubtful_def)
    have sub: "fn_provider ` set ?ss \<subseteq> fn_provider ` set ?fs"
      using c2(1,3) dset provs by (metis (mono_tags, lifting) list.set_map mem_Collect_eq subsetI)
    have d2: "distinct (map fn_provider ?ss)" using c2(1,2) by simp
    from replace_all [OF d2 sub] e(1) obtain fs' where fs': "found = Some fs'"
      "map fn_provider fs' = map fn_provider ?fs"
      "\<And>r. finding_of fs' r = (case finding_of ?ss r of Some f \<Rightarrow> Some f | None \<Rightarrow> finding_of ?fs r)" by auto
    have some: "\<exists>r \<in> set rs. look_verdict L first expected pool r = Divergence"
      using False dset by (metis (mono_tags, lifting) all_not_in_conv mem_Collect_eq set_empty)
    have each: "\<exists>f. finding_of fs' r = Some f \<and> fn_verdict f = (if look_verdict L first expected pool r = Divergence
         then look_verdict L second expected ?p r else look_verdict L first expected pool r)" if "r \<in> set rs" for r
    proof (cases "look_verdict L first expected pool r = Divergence")
      case True
      with that dset have "r \<in> set doubtful" by simp
      from c2(4) [OF this, of L expected ?p] fs'(3) [of r] True show ?thesis by auto
    next
      case False
      with that dset have "r \<notin> set doubtful" by simp
      from c2(5) [OF this, of L expected ?p] fs'(3) [of r] False c(4) [OF that, of L expected pool]
      show ?thesis by auto
    qed
    have "fn_provider ` set fs' = set rs" using fs'(2) provs by (metis list.set_map)
    then show ?thesis
      unfolding e(2) if_P [OF some]
      using fs'(1,2) keys each by (intro exI [of _ fs'] conjI ballI) simp_all
  qed
qed

lemma round_records:
  assumes "round_over L entity_check interval env providers (page, pool) = (page', pool')"
    and "distinct providers" and "providers \<noteq> []" and "in_order (rn_first env)" and "in_order (rn_second env)"
    and "rn_finalized env = Inr (Some finalized)"
    and "round_expected entity_check interval env finalized page = (page', Some expected)"
    and "pool1 = lk_meanwhile (rn_first env) pool"
    and "first = look_verdict L (rn_first env) expected pool1"
    and "pool2 = (if list_ex (\<lambda>r. first r = Divergence) providers then lk_meanwhile (rn_second env) pool1 else pool1)"
    and "final = (\<lambda>r. if first r = Divergence then look_verdict L (rn_second env) expected pool2 r else first r)"
  shows "entry pool' r = (if r \<in> set providers
      then record_integrity (final r) (bf_number finalized) (entry pool2 r) else entry pool2 r)"
proof -
  obtain found pool3 where conf: "confirm L (rn_second env) expected (check L (rn_first env) expected providers pool1) pool1 =
      (found, pool3)" by fastforce
  from confirm_result [OF assms(4,5,2) conf] obtain findings where f: "found = Some findings"
    "distinct (map fn_provider findings)" "fn_provider ` set findings = set providers"
    "\<And>r. r \<in> set providers \<Longrightarrow> \<exists>f. finding_of findings r = Some f \<and>
       fn_verdict f = (if first r = Divergence then look_verdict L (rn_second env) expected pool3 r else first r)"
    "pool3 = pool2"
    unfolding assms(9,10) by (auto simp: list_ex_iff)
  have p': "pool' = record_findings findings (bf_number finalized) pool2"
    using assms(1,3) conf f(1,5) unfolding assms(8)
    by (simp add: round_over_def finalized_block_def assms(6,7) Let_def)
  show "entry pool' r = (if r \<in> set providers
      then record_integrity (final r) (bf_number finalized) (entry pool2 r) else entry pool2 r)"
  proof (cases "r \<in> set providers")
    case True
    with f(4) [OF True] show ?thesis
      unfolding p' record_findings_entry [OF f(2)] by (auto simp: assms(11) f(5))
  next
    case False
    with f(3) have "finding_of findings r = None" by (simp add: finding_of_None)
    with False show ?thesis unfolding p' record_findings_entry [OF f(2)] by simp
  qed
qed

text \<open>
  C15. One wrong read is not a verdict. In whatever order the answers arrive and whatever
  happens to the pool meanwhile, a round records on each provider asked exactly one verdict, its
  first look's, or its second's when the first was a divergence; so the integrity gate is shut
  exactly when both looks diverged, opened exactly when the recorded one is a match, and no other
  entry changes.
\<close>

theorem round_takes_two_looks:
  assumes "round_over L entity_check interval env providers (page, pool) = (page', pool')"
    and "distinct providers" and "providers \<noteq> []" and "in_order (rn_first env)" and "in_order (rn_second env)"
    and "rn_finalized env = Inr (Some finalized)"
    and "round_expected entity_check interval env finalized page = (page', Some expected)"
    and "pool1 = lk_meanwhile (rn_first env) pool"
    and "first = look_verdict L (rn_first env) expected pool1"
    and "pool2 = (if list_ex (\<lambda>r. first r = Divergence) providers then lk_meanwhile (rn_second env) pool1 else pool1)"
    and "final = (\<lambda>r. if first r = Divergence then look_verdict L (rn_second env) expected pool2 r else first r)"
  shows "(\<forall>r. entry pool' r = (if r \<in> set providers
      then record_integrity (final r) (bf_number finalized) (entry pool2 r) else entry pool2 r)) \<and>
    (\<forall>r \<in> set providers. byte_wf (entry pool2 r) \<longrightarrow>
       serving_wrong_data (entry pool' r) =
         (case final r of Divergence \<Rightarrow> True | Match \<Rightarrow> False | _ \<Rightarrow> serving_wrong_data (entry pool2 r)))"
proof -
  have recorded: "entry pool' r = (if r \<in> set providers
      then record_integrity (final r) (bf_number finalized) (entry pool2 r) else entry pool2 r)" for r
    by (rule round_records [OF assms])
  have "serving_wrong_data (record_integrity v h p) =
      (case v of Divergence \<Rightarrow> True | Match \<Rightarrow> False | _ \<Rightarrow> serving_wrong_data p)" if "byte_wf p" for v h p
    using provider_apply_effects(3) [OF that refl, of 0 0 "Judged v h"]
    by (cases v) (simp_all add: gate_write_def)
  with recorded show ?thesis by simp
qed

definition padded_look :: look where
  "padded_look =
     \<lparr>lk_block = (\<lambda>_. Inr \<lparr>hr_status = 200, hr_content_length = Some 5000000, hr_chunks = [], hr_broken = None\<rparr>),
      lk_rows = (\<lambda>_. Inl TransportError), lk_order = (\<lambda>rs. rs), lk_meanwhile = (\<lambda>pool. pool)\<rparr>"

definition padded_round :: round_env where
  "padded_round =
     \<lparr>rn_finalized = Inr (Some block_one), rn_now = 0, rn_page = Inl ReadUnexpected, rn_random = (\<lambda>_. 0),
      rn_rows = (\<lambda>_ _. Inl ReadUnexpected), rn_first = padded_look, rn_second = padded_look\<rparr>"

lemma round_takes_two_looks_witness:
  "serving_wrong_data (entry (snd (round_over std_libs False KEY_PAGE_INTERVAL padded_round [0]
     (\<lparr>kp_keys = [], kp_read_at = None\<rparr>, lone_entry))) 0)"
proof -
  let ?page = "\<lparr>kp_keys = [], kp_read_at = None\<rparr> :: key_page"
  let ?x = "\<lparr>ex_finalized = block_one, ex_entity = None\<rparr>"
  obtain page' pool' where r: "round_over std_libs False KEY_PAGE_INTERVAL padded_round [0] (?page, lone_entry) = (page', pool')"
    by fastforce
  have x: "round_expected False KEY_PAGE_INTERVAL padded_round block_one ?page = (page', Some ?x)"
    using r by (auto simp: round_over_def round_expected_def padded_round_def finalized_block_def Let_def split: prod.splits)
  have v: "look_verdict std_libs padded_look ?x pool 0 = Divergence" for pool
    by (simp add: look_verdict_def ask_def read_block_def reader_call_def padded_look_def read_body_def
        declared_over_cap_def RESPONSE_CAP_def is_success_def judge_def)
  have o: "in_order padded_look" by (simp add: in_order_def padded_look_def)
  have "byte_wf (entry lone_entry 0)" by (simp add: lone_entry_def entry_def)
  moreover have env: "rn_first padded_round = padded_look" "rn_second padded_round = padded_look"
    "rn_finalized padded_round = Inr (Some block_one)" "lk_meanwhile padded_look = (\<lambda>pool. pool)"
    by (simp_all add: padded_round_def padded_look_def)
  ultimately have "serving_wrong_data (entry pool' 0)"
    using round_takes_two_looks [OF r _ _ _ _ _ x refl refl refl refl, unfolded env, THEN conjunct2] o v
    by simp
  with r show ?thesis by (simp only: snd_conv)
qed

end
