(* ===== verification/Admission.thy ===== *)
theory Admission
  imports Proxy Stats Integrity
begin

text \<open>
  The tunnel's admission check (\<open>marketplace/admission.rs\<close>), the route that speaks the tunnel
  server's callbacks, and the other admin routes (\<open>admin.rs\<close>). Where the route finds this load
  balancer's live agreements is the trait \<open>Agreements\<close>; here it is a lookup and the effect of
  \<open>admitted\<close>, and the locale \<open>agreements\<close> states what the route relies on.
\<close>

section \<open>The decision\<close>

datatype op = Login | NewProxy u16 string

definition proxy_name :: "u16 \<Rightarrow> string" where
  "proxy_name remote_port = ''node-rpc-'' @ dec_word remote_port"

datatype rejection =
    AgreementNotAKey
  | TokenNotASignature
  | NoAgreement entity_key
  | WrongSigner
  | WrongPort u16 u16
  | WrongName string string

text \<open>A string as \<open>{:?}\<close> prints it, for texts of ASCII characters.\<close>

definition debug_char :: "char \<Rightarrow> string" where
  "debug_char c =
     (let n = (of_char c :: nat); backslash = char_of (92 :: nat)
      in if n = 34 \<or> n = 92 then [backslash, c]
         else if n = 0 then [backslash, CHR ''0'']
         else if n = 9 then [backslash, CHR ''t'']
         else if n = 10 then [backslash, CHR ''n'']
         else if n = 13 then [backslash, CHR ''r'']
         else if n < 32 \<or> n = 127 then [backslash] @ ''u{'' @ radix_text 16 n @ ''}''
         else [c])"

definition debug_text :: "string \<Rightarrow> string" where
  "debug_text s = [char_of (34 :: nat)] @ concat (map debug_char s) @ [char_of (34 :: nat)]"

fun rejection_text :: "libs \<Rightarrow> rejection \<Rightarrow> string" where
  "rejection_text L AgreementNotAKey = ''agreement id is not an entity key''"
| "rejection_text L TokenNotASignature = ''token is not a signature''"
| "rejection_text L (NoAgreement key) = ''no agreement '' @ key_hex L key"
| "rejection_text L WrongSigner =
     ''signature was not made by the agreement's provider over this agreement id''"
| "rejection_text L (WrongPort requested assigned) =
     ''port '' @ dec_word requested @ '' requested, agreement assigns '' @ dec_word assigned"
| "rejection_text L (WrongName requested expected) =
     ''proxy name '' @ debug_text requested @ '' is not this agreement's; set name = '' @
     debug_text expected @ '' in frpc.toml''"

definition token_message :: "libs \<Rightarrow> entity_key \<Rightarrow> string" where
  "token_message L agreement = ''arkiv-rpc:'' @ key_hex L agreement"

record token =
  tk_agreement :: entity_key
  tk_signature :: bytes

definition token_parse :: "libs \<Rightarrow> string option \<Rightarrow> string option \<Rightarrow> rejection + token" where
  "token_parse L agreement token =
     rbind (ok_or AgreementNotAKey (Option.bind agreement (parse_key L))) (\<lambda>agreement.
     rbind (ok_or TokenNotASignature (Option.bind token (parse_sig L))) (\<lambda>signature.
       Inr \<lparr>tk_agreement = agreement, tk_signature = signature\<rparr>))"

definition decide_admission :: "libs \<Rightarrow> op \<Rightarrow> token \<Rightarrow> agreement stored option \<Rightarrow> rejection + unit" where
  "decide_admission L op token agreement =
     rbind (ok_or (NoAgreement (tk_agreement token)) agreement) (\<lambda>st.
     rbind (ok_or TokenNotASignature
              (recover_address L (tk_signature token) (token_message L (tk_agreement token)))) (\<lambda>signer.
       if signer \<noteq> ag_provider (st_record st) then Inl WrongSigner
       else case op of
              Login \<Rightarrow> Inr ()
            | NewProxy remote_port name \<Rightarrow>
                (let assigned = ag_remote_port (st_record st); expected = proxy_name assigned
                 in if remote_port \<noteq> assigned then Inl (WrongPort remote_port assigned)
                    else if name \<noteq> expected then Inl (WrongName name expected)
                    else Inr ())))"

section \<open>The callback route\<close>

text \<open>A field that may be absent: its default then, an error when it has another type.\<close>

definition json_default :: "'a \<Rightarrow> (json \<Rightarrow> 'a option) \<Rightarrow> json \<Rightarrow> string \<Rightarrow> 'a option" where
  "json_default d f j k = (case json_get j k of None \<Rightarrow> Some d | Some v \<Rightarrow> f v)"

definition as_opt_str :: "json \<Rightarrow> string option option" where
  "as_opt_str v = (case v of JNull \<Rightarrow> Some None | JStr s \<Rightarrow> Some (Some s) | _ \<Rightarrow> None)"

definition as_object :: "json \<Rightarrow> json option" where
  "as_object v = (case v of JObj kvs \<Rightarrow> Some v | _ \<Rightarrow> None)"

definition as_u16 :: "json \<Rightarrow> u16 option" where
  "as_u16 v = (case v of JNum n \<Rightarrow> if 0 \<le> n \<and> n < 2 ^ 16 then Some (word_of_int n) else None | _ \<Rightarrow> None)"

type_synonym metas = "string option \<times> string option"

definition metas_parse :: "json \<Rightarrow> metas option" where
  "metas_parse v =
     Option.bind (as_object v) (\<lambda>v.
     Option.bind (json_default None as_opt_str v ''agreement'') (\<lambda>agreement.
     Option.bind (json_default None as_opt_str v ''token'') (\<lambda>token. Some (agreement, token))))"

definition login_parse :: "json \<Rightarrow> (op \<times> metas \<times> string) option" where
  "login_parse v =
     Option.bind (as_object v) (\<lambda>v.
     Option.bind (json_default (None, None) metas_parse v ''metas'') (\<lambda>metas.
     Option.bind (json_default [] as_str v ''client_address'') (\<lambda>client_address.
       Some (Login, metas, client_address))))"

definition new_proxy_parse :: "json \<Rightarrow> (op \<times> metas \<times> string) option" where
  "new_proxy_parse v =
     Option.bind (as_object v) (\<lambda>v.
     Option.bind (json_default (None, None)
       (\<lambda>u. Option.bind (as_object u) (\<lambda>u. json_default (None, None) metas_parse u ''metas'')) v ''user'') (\<lambda>metas.
     Option.bind (json_default [] as_str v ''proxy_name'') (\<lambda>name.
     Option.bind (json_default 0 as_u16 v ''remote_port'') (\<lambda>remote_port.
       Some (NewProxy remote_port name, metas, name)))))"

definition frps_parse :: "json \<Rightarrow> (string \<times> json) option" where
  "frps_parse v =
     Option.bind (as_object v) (\<lambda>v.
     Option.bind (Option.bind (json_get v ''op'') as_str) (\<lambda>op.
       Some (op, case json_get v ''content'' of None \<Rightarrow> JNull | Some c \<Rightarrow> c)))"

definition unchange :: response where
  "unchange = \<lparr>rs_status = 200, rs_body = JsonBody (JObj [(''unchange'', JBool True)])\<rparr>"

definition turned_away :: "libs \<Rightarrow> rejection \<Rightarrow> response" where
  "turned_away L r = \<lparr>rs_status = 200, rs_body = JsonBody (JObj
     [(''reject'', JBool True), (''reject_reason'', JStr (rejection_text L r))])\<rparr>"

text \<open>
  \<open>body\<close> is the callback's JSON, or the framework's text of why there is none; \<open>lookup\<close> and
  \<open>admitted\<close> are the trait's two methods, and \<open>bad_content\<close> the parser's text.
\<close>

definition admission_route ::
  "libs \<Rightarrow> (entity_key \<Rightarrow> agreement stored option) \<Rightarrow> (agreement stored \<Rightarrow> 'w \<Rightarrow> 'w) \<Rightarrow> string \<Rightarrow>
     string + json \<Rightarrow> 'w \<Rightarrow> response \<times> 'w" where
  "admission_route L lookup admitted bad_content body w =
     (case body of
        Inl text \<Rightarrow> (\<lparr>rs_status = 400, rs_body = TextBody text\<rparr>, w)
      | Inr v \<Rightarrow>
          (case frps_parse v of
             None \<Rightarrow> (\<lparr>rs_status = 400, rs_body = TextBody bad_content\<rparr>, w)
           | Some (op_name, content) \<Rightarrow>
               (if op_name \<noteq> ''Login'' \<and> op_name \<noteq> ''NewProxy'' then (unchange, w)
                else case (if op_name = ''Login'' then login_parse content else new_proxy_parse content) of
                       None \<Rightarrow> (\<lparr>rs_status = 400, rs_body = TextBody bad_content\<rparr>, w)
                     | Some (op, (agreement, token), who) \<Rightarrow>
                         (case token_parse L agreement token of
                            Inl r \<Rightarrow> (turned_away L r, w)
                          | Inr token \<Rightarrow>
                              (let st = lookup (tk_agreement token)
                               in case decide_admission L op token st of
                                    Inl r \<Rightarrow> (turned_away L r, w)
                                  | Inr _ \<Rightarrow>
                                      (unchange,
                                       case op of Login \<Rightarrow> w | NewProxy _ _ \<Rightarrow> admitted (the st) w))))))"

section \<open>The other admin routes\<close>

definition health_route :: "bool \<Rightarrow> response" where
  "health_route ready = \<lparr>rs_status = 200, rs_body = JsonBody (JObj
     [(''status'', JStr ''ok''), (''ready'', JBool ready)])\<rparr>"

definition forward_to_node ::
  "libs \<Rightarrow> nat \<Rightarrow> duration \<Rightarrow> (url \<Rightarrow> bytes \<Rightarrow> duration \<Rightarrow> exchange) \<Rightarrow> string \<Rightarrow> response + bytes \<Rightarrow> pool \<Rightarrow> response" where
  "forward_to_node L cap attempt_timeout wire ident body pool =
     (case find (\<lambda>r. p_id (entry pool r) = ident) (snapshot pool) of
        None \<Rightarrow> \<lparr>rs_status = 404, rs_body = JsonBody (JObj
          [(''error'', JStr (''no provider '' @ debug_text ident))])\<rparr>
      | Some r \<Rightarrow>
          (case check_request L body of
             Inl refusal \<Rightarrow> refusal
           | Inr body \<Rightarrow>
               (case attempt L cap (wire (p_url (entry pool r)) body attempt_timeout) of
                  Answer response \<Rightarrow> response
                | TooLargeAnswer \<Rightarrow> lb_error L 502 RESPONSE_TOO_LARGE ''response too large'' body
                | _ \<Rightarrow> \<lparr>rs_status = 502, rs_body = JsonBody (JObj
                    [(''error'', JStr ''provider did not answer'')])\<rparr>)))"

record node_view =
  nv_id :: string
  nv_source :: string
  nv_url :: string
  nv_agreement_id :: "string option"
  nv_eligible :: bool
  nv_ineligibility_reason :: "string option"
  nv_chain_verified :: bool
  nv_health_streak :: int
  nv_last_height :: "u64 option"
  nv_served_period :: u64
  nv_served_total :: u64
  nv_transport_failures :: u64
  nv_last_probe_ms :: "u64 option"
  nv_integrity_verdict :: "string option"
  nv_integrity_height :: "u64 option"

definition node_view_of :: "libs \<Rightarrow> provider \<Rightarrow> node_view" where
  "node_view_of L p =
     \<lparr>nv_id = p_id p,
      nv_source = (case p_source p of Static \<Rightarrow> ''static'' | Marketplace _ _ _ \<Rightarrow> ''marketplace''),
      nv_url = url_text (p_url p),
      nv_agreement_id = (case p_source p of Static \<Rightarrow> None | Marketplace _ k _ \<Rightarrow> Some (key_hex L k)),
      nv_eligible = eligible p, nv_ineligibility_reason = ineligibility_reason p,
      nv_chain_verified = p_chain_verified p, nv_health_streak = p_streak p, nv_last_height = last_height p,
      nv_served_period = p_served p, nv_served_total = p_served_total p,
      nv_transport_failures = p_transport_failures p, nv_last_probe_ms = last_probe_ms p,
      nv_integrity_verdict = map_option (verdict_as_str \<circ> fst) (last_verdict p),
      nv_integrity_height = map_option snd (last_verdict p)\<rparr>"

definition nodes_route :: "libs \<Rightarrow> pool \<Rightarrow> node_view list" where
  "nodes_route L pool = map (\<lambda>r. node_view_of L (entry pool r)) (snapshot pool)"

definition stats_route ::
  "(string \<Rightarrow> u64 option) \<Rightarrow> (u64 \<Rightarrow> string) \<Rightarrow> u64 \<Rightarrow> string option \<Rightarrow> string option \<Rightarrow> stats \<Rightarrow> response + report" where
  "stats_route parse_iso show_time now lb since stats =
     (case since of
        None \<Rightarrow> Inr (report show_time 0 now lb stats)
      | Some text \<Rightarrow>
          (case parse_iso text of
             Some since \<Rightarrow> Inr (report show_time since now lb stats)
           | None \<Rightarrow> Inl \<lparr>rs_status = 400, rs_body = TextBody
               (''since must be an hour's start as YYYY-MM-DDTHH:MM:SSZ'' @ [CHR 0x0A])\<rparr>))"

section \<open>Names and messages\<close>

lemma proxy_name_inj: "proxy_name a = proxy_name b \<longleftrightarrow> a = b"
  by (auto simp: proxy_name_def dec_inj intro: unsigned_word_eqI)

lemma token_message_inj: "text_laws L \<Longrightarrow> token_message L a = token_message L b \<longleftrightarrow> a = b"
  by (simp add: token_message_def key_hex_inj)

lemma decide_Inr:
  "decide_admission L op token agreement = Inr () \<longleftrightarrow>
     (\<exists>st. agreement = Some st \<and>
        recover_address L (tk_signature token) (token_message L (tk_agreement token)) = Some (ag_provider (st_record st)) \<and>
        (case op of Login \<Rightarrow> True
         | NewProxy port name \<Rightarrow> port = ag_remote_port (st_record st) \<and> name = proxy_name port))"
  by (auto simp: decide_admission_def Let_def result_simps split: op.splits if_splits)

section \<open>The interface to the agreements\<close>

text \<open>
  What the route relies on of the trait's provider, in the states \<open>ok\<close> describes: an agreement
  is found under its own key, no two of them assign the same port, and starting an admission's
  steps changes neither.
\<close>

locale agreements =
  fixes ok :: "'w \<Rightarrow> bool"
    and lookup :: "'w \<Rightarrow> entity_key \<Rightarrow> agreement stored option"
    and admitted :: "agreement stored \<Rightarrow> 'w \<Rightarrow> 'w"
  assumes lookup_key: "ok w \<Longrightarrow> lookup w k = Some st \<Longrightarrow> st_key st = k"
    and ports_differ: "ok w \<Longrightarrow> lookup w k = Some a \<Longrightarrow> lookup w k' = Some b \<Longrightarrow>
      ag_remote_port (st_record a) = ag_remote_port (st_record b) \<Longrightarrow> k = k'"
    and admitted_ok: "ok w \<Longrightarrow> ok (admitted st w)"
    and admitted_lookup: "lookup (admitted st w) = lookup w"
begin

text \<open>One name, one agreement: two clients let in under the same proxy name carry the same claim.\<close>

lemma one_tunnel_per_name:
  assumes "ok w"
    and "decide_admission L (NewProxy p name) t (lookup w (tk_agreement t)) = Inr ()"
    and "decide_admission L (NewProxy p' name) t' (lookup w (tk_agreement t')) = Inr ()"
  shows "tk_agreement t = tk_agreement t' \<and> p = p'"
proof -
  from assms(2) obtain a where a: "lookup w (tk_agreement t) = Some a" "p = ag_remote_port (st_record a)"
    "name = proxy_name p" by (auto simp: decide_Inr)
  from assms(3) obtain b where b: "lookup w (tk_agreement t') = Some b" "p' = ag_remote_port (st_record b)"
    "name = proxy_name p'" by (auto simp: decide_Inr)
  from a(3) b(3) have p: "p = p'" by (simp add: proxy_name_inj)
  with ports_differ [OF assms(1) a(1) b(1)] a(2) b(2) show ?thesis by simp
qed

text \<open>A callback changes nothing the next one is decided by.\<close>

lemma route_keeps:
  assumes "ok w" and "admission_route L (lookup w) admitted bad body w = (resp, w')"
  shows "ok w' \<and> lookup w' = lookup w"
proof -
  have "w' = w \<or> (\<exists>st. w' = admitted st w)"
    using assms(2)
    by (auto simp: admission_route_def Let_def split: sum.splits option.splits prod.splits if_splits op.splits)
  with assms(1) show ?thesis by (auto simp: admitted_ok admitted_lookup)
qed

lemma route_admits_own_agreement:
  assumes "ok w" "admission_route L (lookup w) (\<lambda>st x. Some st) bad body None = (resp, Some st)"
  shows "lookup w (st_key st) = Some st \<and> resp = unchange"
proof -
  from assms(2) have "\<exists>k. lookup w k = Some st \<and> resp = unchange"
    by (auto simp: admission_route_def Let_def decide_Inr
        split: sum.splits option.splits prod.splits if_splits op.splits)
  then show ?thesis using lookup_key [OF assms(1)] by auto
qed

end

section \<open>Properties\<close>

text \<open>
  Who is let in. A client is admitted exactly when there is a live agreement under the
  key it claims, its signature recovers to that agreement's provider over the message of that very
  key, and, when it registers a proxy, the port is the one the agreement assigns and the name the
  one for that port. The message determines the key, so a signature over one agreement admits to
  no other, and the name determines the port.
\<close>

theorem admitted_iff:
  assumes "text_laws L"
  shows "(decide_admission L op token agreement = Inr () \<longleftrightarrow>
     (\<exists>st. agreement = Some st \<and>
        recover_address L (tk_signature token) (token_message L (tk_agreement token)) = Some (ag_provider (st_record st)) \<and>
        (case op of Login \<Rightarrow> True
         | NewProxy port name \<Rightarrow> port = ag_remote_port (st_record st) \<and> name = proxy_name port))) \<and>
    (agreement = None \<longrightarrow> decide_admission L op token agreement = Inl (NoAgreement (tk_agreement token))) \<and>
    (token_message L k = token_message L k' \<longrightarrow> k = k') \<and> (proxy_name p = proxy_name p' \<longrightarrow> p = p')"
  using decide_Inr [of L op token agreement] assms
  by (simp add: token_message_inj proxy_name_inj) (simp add: decide_admission_def)

definition signed_libs :: libs where
  "signed_libs = std_libs\<lparr>recover_address := (\<lambda>_ _. Some 5)\<rparr>"

lemma admitted_iff_witness:
  "decide_admission signed_libs (NewProxy 7001 (proxy_name 7001)) \<lparr>tk_agreement = 9, tk_signature = []\<rparr>
     (Some \<lparr>st_key = 9, st_creator = 1, st_created_at = 0, st_expires_at = 100,
       st_record = \<lparr>ag_provider = 5, ag_offer = 8, ag_wei_per_call = 3, ag_remote_port = 7001\<rparr>\<rparr>) = Inr ()"
proof -
  have "text_laws signed_libs"
    using std_libs_text_laws by (simp add: text_laws_def signed_libs_def)
  from admitted_iff [OF this, of "NewProxy 7001 (proxy_name 7001)" "\<lparr>tk_agreement = 9, tk_signature = []\<rparr>"
      "Some \<lparr>st_key = 9, st_creator = 1, st_created_at = 0, st_expires_at = 100,
       st_record = \<lparr>ag_provider = 5, ag_offer = 8, ag_wei_per_call = 3, ag_remote_port = 7001\<rparr>\<rparr>" 0 0 0 0]
  show ?thesis
    by (simp add: signed_libs_def)
qed

text \<open>
  What the tunnel server is told, and what follows. Every answer to a well-formed
  callback is a 200. \<open>unchange\<close> is answered to an op the route was not configured for, and
  otherwise only when the decision admits; the steps after an admission start exactly at an
  admitted proxy registration, with the agreement found under the claimed key, and at nothing
  else.
\<close>

theorem callback_answers:
  assumes "admission_route L lookup (\<lambda>st x. x @ [st]) bad (Inr v) [] = (resp, started)"
    and "frps_parse v = Some (op_name, content)"
  shows "(op_name \<notin> {''Login'', ''NewProxy''} \<longrightarrow> resp = unchange \<and> started = []) \<and>
    (op_name = ''Login'' \<longrightarrow> started = []) \<and>
    (\<forall>st. started = [st] \<longrightarrow> op_name = ''NewProxy'' \<and> resp = unchange \<and>
       (\<exists>port name m who token. new_proxy_parse content = Some (NewProxy port name, m, who) \<and>
          token_parse L (fst m) (snd m) = Inr token \<and> lookup (tk_agreement token) = Some st \<and>
          decide_admission L (NewProxy port name) token (Some st) = Inr ())) \<and>
    length started \<le> 1 \<and>
    (op_name \<in> {''Login'', ''NewProxy''} \<and> resp = unchange \<longrightarrow>
       (\<exists>op m who token st. (if op_name = ''Login'' then login_parse content else new_proxy_parse content) =
            Some (op, m, who) \<and>
          token_parse L (fst m) (snd m) = Inr token \<and> lookup (tk_agreement token) = Some st \<and>
          decide_admission L op token (Some st) = Inr ()))"
proof (cases "op_name = ''Login'' \<or> op_name = ''NewProxy''")
  case False
  with assms show ?thesis by (simp add: admission_route_def)
next
  case True
  define parsed where "parsed = (if op_name = ''Login'' then login_parse content else new_proxy_parse content)"
  have not_other: "\<not> (op_name \<noteq> ''Login'' \<and> op_name \<noteq> ''NewProxy'')" using True by blast
  note turn = assms(1) [unfolded admission_route_def sum.case assms(2) option.case prod.case if_not_P [OF not_other],
      folded parsed_def]
  have login: "op = Login" if "login_parse content = Some (op, x)" for op x
    using that by (auto simp: login_parse_def bind_eq_Some_conv)
  have proxy: "\<exists>port name. op = NewProxy port name" if "new_proxy_parse content = Some (op, x)" for op x
    using that by (auto simp: new_proxy_parse_def bind_eq_Some_conv)
  show ?thesis
  proof (cases parsed)
    case None
    have "(resp, started) = (\<lparr>rs_status = 400, rs_body = TextBody bad\<rparr>, [])"
      using turn [unfolded None option.case] by simp
    with True show ?thesis by (auto simp: unchange_def)
  next
    case (Some x)
    obtain op agreement token who where x: "x = (op, (agreement, token), who)" by (metis prod_cases4 surj_pair)
    have route: "(resp, started) =
        (case token_parse L agreement token of
           Inl r \<Rightarrow> (turned_away L r, [])
         | Inr token \<Rightarrow>
             (case decide_admission L op token (lookup (tk_agreement token)) of
                Inl r \<Rightarrow> (turned_away L r, [])
              | Inr _ \<Rightarrow> (unchange,
                  case op of Login \<Rightarrow> [] | NewProxy _ _ \<Rightarrow> [the (lookup (tk_agreement token))])))"
      by (rule turn [unfolded Some x option.case prod.case Let_def append_Nil, symmetric])
    have away: "turned_away L r \<noteq> unchange" for r by (simp add: turned_away_def unchange_def)
    show ?thesis
    proof (cases "\<exists>t. token_parse L agreement token = Inr t \<and>
        decide_admission L op t (lookup (tk_agreement t)) = Inr ()")
      case False
      with route have "resp \<noteq> unchange \<and> started = []"
        using away by (auto split: sum.splits)
      with True show ?thesis by auto
    next
      case adm: True
      then obtain t where t: "token_parse L agreement token = Inr t"
        "decide_admission L op t (lookup (tk_agreement t)) = Inr ()" by blast
      then obtain st where st: "lookup (tk_agreement t) = Some st" by (auto simp: decide_Inr)
      from route t st have r: "resp = unchange" "started = (case op of Login \<Rightarrow> [] | NewProxy _ _ \<Rightarrow> [st])"
        by (auto split: op.splits)
      show ?thesis
        using True r t st Some x login proxy by (auto simp: parsed_def split: op.splits if_splits)
    qed
  qed
qed

definition admitted_callback :: json where
  "admitted_callback = JObj [(''op'', JStr ''Ping'')]"

lemma callback_answers_witness:
  "fst (admission_route signed_libs (\<lambda>_. None) (\<lambda>st x. x @ [st]) [] (Inr admitted_callback) []) = unchange"
proof -
  have "frps_parse admitted_callback = Some (''Ping'', JNull)"
    by (simp add: frps_parse_def as_object_def admitted_callback_def)
  from callback_answers [OF prod.collapse [symmetric] this, of signed_libs "\<lambda>_. None" "[]"]
  show ?thesis by simp
qed

end
