(* ===== verification/Agent.thy ===== *)
theory Agent
  imports Writer Reader Config Rotation Admission "HOL-Library.Product_Lexorder"
begin

text \<open>
  \<open>crates/lb/src/marketplace/agent.rs\<close>, its state and the two reconciles. The chain is read
  through \<open>chain_reader\<close> and written through \<open>chain_writer\<close>; both take the whole world, since
  every await lets the other tasks of the process run: traffic and the Monitor on the pool's
  entries, a tunnel's admission on an agreement's expiry. What an operation does between two
  awaits is one step on the world.

  The agreements' \<open>HashMap\<close> is the list of its entries, in the order an iteration meets them.
\<close>

section \<open>The state\<close>

record open_counter =
  oc_key :: entity_key
  oc_opened_block :: u64

record live =
  lv_agreement :: "agreement stored"
  lv_provider :: pref
  lv_counter :: "open_counter option"
  lv_admission_task :: "nat option"

type_synonym known_agreements = "(entity_key \<times> live) list"

text \<open>
  \<open>wo_env\<close> is what lies outside the process; \<open>wo_tasks\<close> are the admission tasks still running,
  by the number their handle carries, and \<open>wo_spawned\<close> how many were started.
\<close>

record 'e world =
  wo_env :: 'e
  wo_now :: instant
  wo_pool :: pool
  wo_known :: known_agreements
  wo_tasks :: "nat set"
  wo_spawned :: nat

datatype flush_kind = ScheduledFlush | StopFlush

record ended =
  en_agreement :: "agreement stored"
  en_counter :: open_counter
  en_served :: u64

type_synonym counters_by_agreement = "(entity_key \<times> counter_record stored) list"

record counters =
  ct_open :: counters_by_agreement
  ct_duplicates :: "entity_key list"
  ct_strays :: "counter_record stored list"

datatype reconcile_error =
    ChainRead read_error
  | TooMany string u64

text \<open>
  The agent: its clients, what it was configured with and what the start found. \<open>an_port_bound\<close>
  is the connect to a loopback port, which the operating system answers; \<open>an_integrity\<close> the
  checker, when the checks are configured; \<open>an_sleep\<close> a sleep.
\<close>

record 'w agent =
  an_reader :: "'w chain_reader"
  an_writer :: "'w chain_writer"
  an_config :: marketplace_config
  an_identity :: identity
  an_listing_key :: entity_key
  an_listing_expires_at :: u64
  an_integrity :: "('w \<Rightarrow> pref \<Rightarrow> 'w) option"
  an_port_bound :: "'w \<Rightarrow> u16 \<Rightarrow> 'w \<times> bool"
  an_sleep :: "'w \<Rightarrow> duration \<Rightarrow> 'w"

type_synonym 'e agent_in = "'e world agent"

definition blocks :: "duration \<Rightarrow> u64" where
  "blocks lifetime = as_secs lifetime div 2"

definition open_counter_of :: "counter_record stored \<Rightarrow> open_counter" where
  "open_counter_of st = \<lparr>oc_key = st_key st, oc_opened_block = cr_opened_block (st_record st)\<rparr>"

definition creation :: "'r stored \<Rightarrow> u64 \<times> entity_key" where
  "creation st = (st_created_at st, st_key st)"

definition provider_entry :: "entity_key \<Rightarrow> 'e world \<Rightarrow> pref option" where
  "provider_entry agreement w = map_option lv_provider (map_of (wo_known w) agreement)"

definition agent_agreement :: "'e world \<Rightarrow> entity_key \<Rightarrow> agreement stored option" where
  "agent_agreement w key = map_option lv_agreement (map_of (wo_known w) key)"

definition open_counters :: "'e world \<Rightarrow> (entity_key \<times> open_counter option) list" where
  "open_counters w = map (\<lambda>(key, live). (key, lv_counter live)) (wo_known w)"

definition agent_agreements :: "'e world \<Rightarrow> agreement stored list" where
  "agent_agreements w = map (\<lambda>(_, live). lv_agreement live) (wo_known w)"

section \<open>Reading records\<close>

text \<open>Entities that do not decode are skipped, with a line in the log.\<close>

definition decode_page ::
    "libs \<Rightarrow> string \<Rightarrow> (libs \<Rightarrow> arkiv_entity \<Rightarrow> record_error + 'r) \<Rightarrow> page \<Rightarrow> 'r stored list" where
  "decode_page L kind decode_fields page =
     List.map_filter (\<lambda>e. case stored_decode L kind decode_fields e of Inr st \<Rightarrow> Some st | Inl _ \<Rightarrow> None)
       (pg_entities page)"

definition read_agreements ::
    "libs \<Rightarrow> 'w agent \<Rightarrow> u64 \<Rightarrow> 'w \<Rightarrow> 'w \<times> (reconcile_error + agreement stored list)" where
  "read_agreements L a head w =
     (let query = query_expires_after head (query_creator (id_address (an_identity a)) (query_kind KIND_AGREEMENT))
      in sbind (serr ChainRead (rd_count (an_reader a) w query)) (\<lambda>w count.
         if count > PAGE_LIMIT then (w, Inl (TooMany ''agreement'' count))
         else sbind (serr ChainRead (rd_query (an_reader a) w query)) (\<lambda>w page.
           (w, Inr (sort_key creation (decode_page L KIND_AGREEMENT agreement_decode_fields page))))))"

definition read_open_counters ::
    "libs \<Rightarrow> 'w agent \<Rightarrow> u64 \<Rightarrow> 'w \<Rightarrow> 'w \<times> (reconcile_error + counter_record stored list)" where
  "read_open_counters L a head w =
     (let query = query_expires_after head (query_attr_str ''state'' ''open''
                    (query_creator (id_address (an_identity a)) (query_kind KIND_COUNTER)))
      in sbind (serr ChainRead (rd_count (an_reader a) w query)) (\<lambda>w count.
         if count > PAGE_LIMIT then (w, Inl (TooMany ''open counter'' count))
         else sbind (serr ChainRead (rd_query (an_reader a) w query)) (\<lambda>w page.
           (w, Inr (decode_page L KIND_COUNTER counter_decode_fields page)))))"

section \<open>The agreements' reconcile\<close>

definition patch_record :: "libs \<Rightarrow> entity_key \<Rightarrow> counter_record \<Rightarrow> patch_op" where
  "patch_record L key record =
     \<lparr>po_entity_key = key,
      po_set = keep (counter_encode L record)
        (case cr_state record of Open \<Rightarrow> [PAYLOAD_ATTRIBUTE] | Closed \<Rightarrow> [PAYLOAD_ATTRIBUTE, ''state''])\<rparr>"

definition end_one :: "entity_key \<Rightarrow> ended list \<times> pool \<times> known_agreements \<Rightarrow> ended list \<times> pool \<times> known_agreements" where
  "end_one key = (\<lambda>(ended, pool, known).
     case map_of known key of
       None \<Rightarrow> (ended, pool, known)
     | Some over \<Rightarrow>
         (let known = AList.delete key known;
              p = entry pool (lv_provider over);
              pool = snd (pool_remove (p_id p) pool)
          in case lv_counter over of
               None \<Rightarrow> (ended, pool, known)
             | Some counter \<Rightarrow>
                 (ended @ [\<lparr>en_agreement = lv_agreement over, en_counter = counter, en_served = p_served p\<rparr>],
                  pool, known)))"

definition end_agreements ::
    "entity_key set \<Rightarrow> pool \<Rightarrow> known_agreements \<Rightarrow> ended list \<times> pool \<times> known_agreements" where
  "end_agreements live_keys pool known =
     fold end_one (filter (\<lambda>key. key \<notin> live_keys) (map fst known)) ([], pool, known)"

definition adopt_one ::
    "libs \<Rightarrow> instant \<Rightarrow> agreement stored \<Rightarrow> nat \<times> pool \<times> known_agreements \<Rightarrow> nat \<times> pool \<times> known_agreements" where
  "adopt_one L now stored = (\<lambda>(adopted, pool, known).
     let key = st_key stored in
     if key \<in> fst ` set known then
       (adopted, pool,
        al_modify key (\<lambda>held. held\<lparr>lv_agreement := (lv_agreement held)
          \<lparr>st_created_at := st_created_at stored, st_expires_at := st_expires_at stored\<rparr>\<rparr>) known)
     else if \<exists>(_, other) \<in> set known. ag_provider (st_record (lv_agreement other)) = ag_provider (st_record stored)
     then (adopted, pool, known)
     else
       (let (r, pool) = pool_add (from_marketplace L now (ag_provider (st_record stored)) key
                          (ag_remote_port (st_record stored))) pool
        in (Suc adopted, pool,
            AList.update key \<lparr>lv_agreement = stored, lv_provider = r, lv_counter = None,
              lv_admission_task = None\<rparr> known)))"

definition adopt_agreements ::
    "libs \<Rightarrow> instant \<Rightarrow> agreement stored list \<Rightarrow> pool \<Rightarrow> known_agreements \<Rightarrow> nat \<times> pool \<times> known_agreements" where
  "adopt_agreements L now live pool known = fold (adopt_one L now) live (0, pool, known)"

definition closing_operation :: "libs \<Rightarrow> u64 \<Rightarrow> ended \<Rightarrow> operation" where
  "closing_operation L head over =
     (let record = st_record (en_agreement over);
          key = st_key (en_agreement over);
          counter = oc_key (en_counter over)
      in if en_served over = 0 then Delete \<lparr>do_entity_key = counter\<rparr>
         else Patch (patch_record L counter
           \<lparr>cr_agreement = key, cr_provider = ag_provider record, cr_state = Closed,
            cr_count = en_served over, cr_wei_per_call = ag_wei_per_call record,
            cr_opened_block = oc_opened_block (en_counter over), cr_closed_block = Some head\<rparr>))"

definition close_ended :: "libs \<Rightarrow> 'w agent \<Rightarrow> ended list \<Rightarrow> u64 \<Rightarrow> 'w \<Rightarrow> 'w" where
  "close_ended L a ended head w =
     (let batch = fold (\<lambda>over. batch_push (closing_operation L head over)) ended []
      in fst (send (an_writer a) w batch))"

definition apply_agreements :: "libs \<Rightarrow> agreement stored list \<Rightarrow> 'e world \<Rightarrow> ended list \<times> 'e world" where
  "apply_agreements L live w =
     (let (ended, pool, known) = end_agreements (st_key ` set live) (wo_pool w) (wo_known w);
          (adopted, pool, known) = adopt_agreements L (wo_now w) live pool known
      in (ended, w\<lparr>wo_pool := pool, wo_known := known\<rparr>))"

definition reconcile_agreements ::
    "libs \<Rightarrow> 'e agent_in \<Rightarrow> 'e world \<Rightarrow> 'e world \<times> (reconcile_error + u64)" where
  "reconcile_agreements L a w =
     sbind (serr ChainRead (rd_block_number (an_reader a) w)) (\<lambda>w head.
     sbind (read_agreements L a head w) (\<lambda>w live.
       let (ended, w) = apply_agreements L live w
       in (close_ended L a ended head w, Inr head)))"

section \<open>The counters' reconcile\<close>

definition oldest_one ::
    "counter_record stored \<Rightarrow> counters_by_agreement \<times> entity_key list \<Rightarrow> counters_by_agreement \<times> entity_key list" where
  "oldest_one stored = (\<lambda>(oldest, duplicates).
     let agreement = cr_agreement (st_record stored) in
     case map_of oldest agreement of
       None \<Rightarrow> (AList.update agreement stored oldest, duplicates)
     | Some _ \<Rightarrow> (oldest, duplicates @ [st_key stored]))"

definition oldest_per_agreement ::
    "counter_record stored list \<Rightarrow> counters_by_agreement \<times> entity_key list" where
  "oldest_per_agreement records = fold oldest_one (sort_key creation records) ([], [])"

definition closed_count ::
    "libs \<Rightarrow> 'w agent \<Rightarrow> entity_key \<Rightarrow> 'w \<Rightarrow> 'w \<times> (reconcile_error + u64 option)" where
  "closed_count L a counter w =
     (let query = query_key counter (query_creator (id_address (an_identity a)) (query_kind KIND_COUNTER))
      in sbind (serr ChainRead (rd_query (an_reader a) w query)) (\<lambda>w page.
         (w, Inr (case pg_entities page of
                    [] \<Rightarrow> None
                  | entity # _ \<Rightarrow>
                      (case stored_decode L KIND_COUNTER counter_decode_fields entity of
                         Inr stored \<Rightarrow>
                           if cr_state (st_record stored) = Closed then Some (cr_count (st_record stored)) else None
                       | Inl _ \<Rightarrow> None)))))"

definition missing_counters :: "counters_by_agreement \<Rightarrow> known_agreements \<Rightarrow> (entity_key \<times> entity_key) list" where
  "missing_counters open_records known =
     List.map_filter (\<lambda>(key, live). map_option (\<lambda>c. (key, oc_key c)) (lv_counter live))
       (filter (\<lambda>(key, _). key \<notin> fst ` set open_records) known)"

fun closed_counts ::
    "libs \<Rightarrow> 'w agent \<Rightarrow> (entity_key \<times> entity_key) list \<Rightarrow> 'w \<Rightarrow> 'w \<times> (reconcile_error + (entity_key \<times> u64) list)" where
  "closed_counts L a [] w = (w, Inr [])"
| "closed_counts L a ((agreement, counter) # missing) w =
     sbind (closed_count L a counter w) (\<lambda>w found.
     sbind (closed_counts L a missing w) (\<lambda>w closed.
       (w, Inr (case found of Some n \<Rightarrow> (agreement, n) # closed | None \<Rightarrow> closed))))"

definition forget_one :: "entity_key \<times> u64 \<Rightarrow> 'e world \<Rightarrow> 'e world" where
  "forget_one = (\<lambda>(agreement, n) w.
     case map_of (wo_known w) agreement of
       None \<Rightarrow> w
     | Some live \<Rightarrow>
         w\<lparr>wo_pool := entry_update (lv_provider live) (subtract_served n) (wo_pool w),
           wo_known := al_modify agreement (\<lambda>l. l\<lparr>lv_counter := None\<rparr>) (wo_known w)\<rparr>)"

definition forget_closed_counters ::
    "libs \<Rightarrow> 'e agent_in \<Rightarrow> counters_by_agreement \<Rightarrow> 'e world \<Rightarrow> 'e world \<times> (reconcile_error + unit)" where
  "forget_closed_counters L a open_records w =
     sbind (closed_counts L a (missing_counters open_records (wo_known w)) w) (\<lambda>w closed.
       (fold forget_one closed w, Inr ()))"

text \<open>One entry of the map: the record it takes, the counts seeded, what memory holds after.\<close>

definition seed_entry :: "live \<Rightarrow> counter_record stored option \<Rightarrow> pool \<Rightarrow> pool" where
  "seed_entry live found pool =
     (case (lv_counter live, found) of
        (None, Some stored) \<Rightarrow> entry_update (lv_provider live) (seed_served (cr_count (st_record stored))) pool
      | _ \<Rightarrow> pool)"

fun match_loop ::
    "known_agreements \<Rightarrow> counters_by_agreement \<Rightarrow> pool \<Rightarrow>
       counters_by_agreement \<times> counters_by_agreement \<times> pool \<times> known_agreements" where
  "match_loop [] records pool = ([], records, pool, [])"
| "match_loop ((key, live) # known) records pool =
     (let found = map_of records key;
          (open_records, records, pool, known) =
            match_loop known (AList.delete key records) (seed_entry live found pool)
      in ((case found of Some stored \<Rightarrow> (key, stored) # open_records | None \<Rightarrow> open_records),
          records, pool, (key, live\<lparr>lv_counter := map_option open_counter_of found\<rparr>) # known))"

definition match_to_agreements ::
    "counters_by_agreement \<Rightarrow> 'e world \<Rightarrow> (counters_by_agreement \<times> counter_record stored list) \<times> 'e world" where
  "match_to_agreements records w =
     (let (open_records, records, pool, known) = match_loop (wo_known w) records (wo_pool w)
      in ((open_records, map snd records), w\<lparr>wo_pool := pool, wo_known := known\<rparr>))"

definition reconcile_counters ::
    "libs \<Rightarrow> 'e agent_in \<Rightarrow> u64 \<Rightarrow> 'e world \<Rightarrow> 'e world \<times> (reconcile_error + counters)" where
  "reconcile_counters L a head w =
     sbind (read_open_counters L a head w) (\<lambda>w records.
       let (oldest, duplicates) = oldest_per_agreement records
       in sbind (forget_closed_counters L a oldest w) (\<lambda>w _.
            let ((open_records, strays), w) = match_to_agreements oldest w
            in (w, Inr \<lparr>ct_open = open_records, ct_duplicates = duplicates, ct_strays = strays\<rparr>)))"

section \<open>Memory and the pool\<close>

abbreviation prov :: "live \<Rightarrow> address" where
  "prov live \<equiv> ag_provider (st_record (lv_agreement live))"

abbreviation live_port :: "live \<Rightarrow> u16" where
  "live_port live \<equiv> ag_remote_port (st_record (lv_agreement live))"

text \<open>Each agreement under its own key, and one per provider.\<close>

definition memory_wf :: "known_agreements \<Rightarrow> bool" where
  "memory_wf known \<longleftrightarrow>
     distinct (map fst known) \<and> distinct (map (prov \<circ> snd) known) \<and>
     (\<forall>(k, l) \<in> set known. st_key (lv_agreement l) = k)"

text \<open>
  The pool's entry of every agreement is there under its provider's id, and what the marketplace
  put into the pool is an agreement's; no configured provider is called what a marketplace one is.
\<close>

definition linked :: "libs \<Rightarrow> pool \<Rightarrow> known_agreements \<Rightarrow> bool" where
  "linked L pool known \<longleftrightarrow>
     pool_wf pool \<and>
     (\<forall>(k, l) \<in> set known. lv_provider l \<in> set (pl_members pool) \<and>
        p_id (entry pool (lv_provider l)) = marketplace_id L (prov l) \<and>
        p_source (entry pool (lv_provider l)) = Marketplace (prov l) k (live_port l)) \<and>
     (\<forall>r \<in> set (pl_members pool).
        (p_source (entry pool r) = Static \<and> p_id (entry pool r) \<notin> range (marketplace_id L)) \<or>
        r \<in> lv_provider ` snd ` set known)"

lemma memory_wfD:
  assumes "memory_wf known"
  shows "distinct (map fst known)" "distinct (map (prov \<circ> snd) known)"
    and "(k, l) \<in> set known \<Longrightarrow> st_key (lv_agreement l) = k"
    and "(k, l) \<in> set known \<Longrightarrow> (k', l') \<in> set known \<Longrightarrow> prov l = prov l' \<Longrightarrow> k = k' \<and> l = l'"
proof -
  show d: "distinct (map fst known)" "distinct (map (prov \<circ> snd) known)"
    and "(k, l) \<in> set known \<Longrightarrow> st_key (lv_agreement l) = k"
    using assms by (auto simp: memory_wf_def)
  assume "(k, l) \<in> set known" "(k', l') \<in> set known" "prov l = prov l'"
  with d(2) show "k = k' \<and> l = l'"
    by (auto simp: distinct_map dest: inj_onD [where x = "(k, l)" and y = "(k', l')"])
qed

lemma linkedD:
  assumes "linked L pool known"
  shows "pool_wf pool"
    and "(k, l) \<in> set known \<Longrightarrow> lv_provider l \<in> set (pl_members pool)"
    and "(k, l) \<in> set known \<Longrightarrow> p_id (entry pool (lv_provider l)) = marketplace_id L (prov l)"
    and "(k, l) \<in> set known \<Longrightarrow> p_source (entry pool (lv_provider l)) = Marketplace (prov l) k (live_port l)"
    and "r \<in> set (pl_members pool) \<Longrightarrow> p_id (entry pool r) = marketplace_id L addr \<Longrightarrow>
      r \<in> lv_provider ` snd ` set known"
  using assms by (auto simp: linked_def)

lemma marketplace_id_inj: "text_laws L \<Longrightarrow> marketplace_id L x = marketplace_id L y \<longleftrightarrow> x = y"
  by (simp add: marketplace_id_def addr_hex_inj)

text \<open>Two agreements never share an entry.\<close>

lemma provider_inj:
  assumes "linked L pool known" "(k, l) \<in> set known" "(k', l') \<in> set known" "lv_provider l = lv_provider l'"
  shows "k = k'"
  using linkedD(4) [OF assms(1,2)] linkedD(4) [OF assms(1,3)] assms(4) by simp

lemma prefs_distinct:
  assumes "linked L pool known" "memory_wf known"
  shows "distinct (map (lv_provider \<circ> snd) known)"
proof -
  have "inj_on (lv_provider \<circ> snd) (set known)"
  proof (rule inj_onI)
    fix x y assume "x \<in> set known" "y \<in> set known" "(lv_provider \<circ> snd) x = (lv_provider \<circ> snd) y"
    moreover obtain k l k' l' where "x = (k, l)" "y = (k', l')" by fastforce
    ultimately have xy: "(k, l) \<in> set known" "(k', l') \<in> set known" "lv_provider l = lv_provider l'"
      by auto
    have "k = k'" by (rule provider_inj [OF assms(1) xy])
    with xy memory_wfD(1) [OF assms(2)] \<open>x = (k, l)\<close> \<open>y = (k', l')\<close> show "x = y"
      by (metis eq_key_imp_eq_value)
  qed
  moreover have "distinct known" using memory_wfD(1) [OF assms(2)] by (simp add: distinct_map)
  ultimately show ?thesis by (simp add: distinct_map)
qed

lemma pool_get_linked:
  assumes "text_laws L" "linked L pool known" "memory_wf known" "(k, l) \<in> set known"
  shows "pool_get (p_id (entry pool (lv_provider l))) pool = Some (lv_provider l)"
proof (cases "pool_get (p_id (entry pool (lv_provider l))) pool")
  case None
  then show ?thesis
    using linkedD(2) [OF assms(2,4)] by (auto simp: pool_get_None member_ids_def)
next
  case (Some r)
  then have r: "r \<in> set (pl_members pool)" "p_id (entry pool r) = p_id (entry pool (lv_provider l))"
    using pool_get_Some by blast+
  note li = linkedD [OF assms(2)]
  have m: "p_id (entry pool r) = marketplace_id L (prov l)" using r(2) li(3) [OF assms(4)] by simp
  from li(5) [OF r(1) m] obtain k' l' where kl: "(k', l') \<in> set known" "r = lv_provider l'" by auto
  with m li(3) [OF kl(1)] assms(1) have "prov l' = prov l" by (simp add: marketplace_id_inj)
  with memory_wfD(4) [OF assms(3) kl(1) assms(4)] kl(2) Some show ?thesis by simp
qed

section \<open>What ends\<close>

definition ended_of :: "pool \<Rightarrow> live \<Rightarrow> ended option" where
  "ended_of pool l = map_option (\<lambda>c. \<lparr>en_agreement = lv_agreement l, en_counter = c,
     en_served = p_served (entry pool (lv_provider l))\<rparr>) (lv_counter l)"

lemma memory_wf_filter: "memory_wf known \<Longrightarrow> memory_wf (filter P known)"
  by (auto simp: memory_wf_def distinct_map_filter)

lemma end_one_step:
  assumes "text_laws L" "linked L pool known" "memory_wf known" "map_of known key = Some l"
    and "end_one key (acc, pool, known) = (acc', pool', known')"
  shows "known' = filter (\<lambda>x. fst x \<noteq> key) known"
    and "acc' = acc @ (case ended_of pool l of None \<Rightarrow> [] | Some e \<Rightarrow> [e])"
    and "entry pool' = entry pool" "pl_members pool' = filter (\<lambda>r. r \<noteq> lv_provider l) (pl_members pool)"
    and "linked L pool' known'" "memory_wf known'"
proof -
  have kl: "(key, l) \<in> set known" by (rule map_of_SomeD [OF assms(4)])
  let ?r = "lv_provider l"
  obtain found q where rm: "pool_remove (p_id (entry pool ?r)) pool = (found, q)" by fastforce
  note simps = pool_remove_simps [OF rm]
  have found: "found = Some ?r" using simps(1) pool_get_linked [OF assms(1-3) kl] by simp
  have eq: "acc' = acc @ (case ended_of pool l of None \<Rightarrow> [] | Some e \<Rightarrow> [e]) \<and> pool' = q \<and>
      known' = AList.delete key known"
    using assms(5) unfolding end_one_def prod.case assms(4) option.case Let_def rm snd_conv
    by (cases "lv_counter l") (auto simp: ended_of_def)
  then have q: "pool' = q" and k': "known' = filter (\<lambda>x. fst x \<noteq> key) known"
    by (simp_all add: delete_eq_filter)
  show "known' = filter (\<lambda>x. fst x \<noteq> key) known" by (rule k')
  show "acc' = acc @ (case ended_of pool l of None \<Rightarrow> [] | Some e \<Rightarrow> [e])" using eq by blast
  show en: "entry pool' = entry pool" using q simps(6) by simp
  have dm: "distinct (pl_members pool)" using linkedD(1) [OF assms(2)] by (simp add: pool_wf_def)
  show mem: "pl_members pool' = filter (\<lambda>r. r \<noteq> ?r) (pl_members pool)"
    using q simps(3) found dm by (auto simp: distinct_remove1_removeAll removeAll_filter_not_eq intro!: filter_cong)
  show "memory_wf known'" using k' memory_wf_filter [OF assms(3)] by simp
  have other: "lv_provider l' \<noteq> ?r" if "(k, l') \<in> set known" "k \<noteq> key" for k l'
    using provider_inj [OF assms(2) that(1) kl] that(2) by blast
  show "linked L pool' known'"
    unfolding linked_def
  proof (intro conjI ballI)
    show "pool_wf pool'" using q rm linkedD(1) [OF assms(2)] pool_remove_wf by blast
  next
    fix x assume "x \<in> set known'"
    then have x: "x \<in> set known" "fst x \<noteq> key" using k' by auto
    obtain k l' where kl': "x = (k, l')" by fastforce
    with x have "lv_provider l' \<noteq> ?r" using other by auto
    with linkedD(2-4) [OF assms(2), of k l'] x kl' mem en
    show "case x of (k, l) \<Rightarrow> lv_provider l \<in> set (pl_members pool') \<and>
        p_id (entry pool' (lv_provider l)) = marketplace_id L (prov l) \<and>
        p_source (entry pool' (lv_provider l)) = Marketplace (prov l) k (live_port l)"
      by simp
  next
    fix r assume r: "r \<in> set (pl_members pool')"
    then have rm: "r \<in> set (pl_members pool)" "r \<noteq> ?r" using mem by auto
    show "(p_source (entry pool' r) = Static \<and> p_id (entry pool' r) \<notin> range (marketplace_id L)) \<or>
        r \<in> lv_provider ` snd ` set known'"
    proof (cases "r \<in> lv_provider ` snd ` set known")
      case True
      then obtain k' l' where kl': "(k', l') \<in> set known" "r = lv_provider l'" by auto
      then have "k' \<noteq> key"
        using rm(2) memory_wfD(1) [OF assms(3)] kl by (auto dest: eq_key_imp_eq_value)
      with kl' k' show ?thesis by force
    next
      case False
      with assms(2) rm(1) show ?thesis unfolding linked_def en by blast
    qed
  qed
qed

lemma end_all:
  assumes "text_laws L" "linked L pool known" "memory_wf known" "set gone \<subseteq> set known" "distinct (map fst gone)"
    and "fold end_one (map fst gone) (acc, pool, known) = (ended, pool', known')"
  shows "known' = filter (\<lambda>x. fst x \<notin> fst ` set gone) known \<and>
    ended = acc @ List.map_filter (ended_of pool \<circ> snd) gone \<and> entry pool' = entry pool \<and>
    pl_members pool' = filter (\<lambda>r. r \<notin> lv_provider ` snd ` set gone) (pl_members pool) \<and>
    linked L pool' known' \<and> memory_wf known'"
  using assms(2-6)
proof (induction gone arbitrary: acc pool known)
  case Nil
  then show ?case by (simp add: List.map_filter_simps)
next
  case (Cons x gone)
  obtain key l where x: "x = (key, l)" by fastforce
  obtain acc1 pool1 known1 where e: "end_one key (acc, pool, known) = (acc1, pool1, known1)"
    using prod_cases3 by blast
  have l: "map_of known key = Some l"
    using Cons.prems(2,3) x memory_wfD(1) by (auto intro: map_of_is_SomeI)
  note st = end_one_step [OF assms(1) Cons.prems(1,2) l e]
  have key: "key \<notin> fst ` set gone" using Cons.prems(4) x by (auto simp: image_iff)
  have sub: "set gone \<subseteq> set known1"
  proof
    fix y assume y: "y \<in> set gone"
    then have "fst y \<noteq> key" using key by (auto simp: image_iff)
    with y Cons.prems(3) show "y \<in> set known1" unfolding st(1) by auto
  qed
  have "fold end_one (map fst gone) (acc1, pool1, known1) = (ended, pool', known')"
    using Cons.prems(5) x e by simp
  note ih = Cons.IH [OF st(5,6) sub _ this]
  have same: "ended_of pool1 = ended_of pool" by (simp add: fun_eq_iff ended_of_def st(3))
  from ih Cons.prems(4) show ?case
    unfolding same
    by (auto simp: st x List.map_filter_simps conj_commute image_iff split: option.splits intro!: filter_cong)
qed

lemma end_agreements_eq:
  assumes "text_laws L" "linked L pool known" "memory_wf known"
    and "end_agreements live_keys pool known = (ended, pool', known')"
  shows "known' = filter (\<lambda>x. fst x \<in> live_keys) known"
    and "ended = List.map_filter (ended_of pool \<circ> snd) (filter (\<lambda>x. fst x \<notin> live_keys) known)"
    and "entry pool' = entry pool"
    and "pl_members pool' = filter (\<lambda>r. r \<notin> lv_provider ` snd ` {x \<in> set known. fst x \<notin> live_keys}) (pl_members pool)"
    and "linked L pool' known'" "memory_wf known'"
proof -
  let ?gone = "filter (\<lambda>x. fst x \<notin> live_keys) known"
  have keys: "map fst ?gone = filter (\<lambda>k. k \<notin> live_keys) (map fst known)"
    by (simp add: filter_map o_def)
  have d: "distinct (map fst ?gone)" unfolding keys using memory_wfD(1) [OF assms(3)] by simp
  have f: "fold end_one (map fst ?gone) ([], pool, known) = (ended, pool', known')"
    unfolding keys using assms(4) by (simp add: end_agreements_def)
  have kept: "filter (\<lambda>x. fst x \<notin> fst ` set ?gone) known = filter (\<lambda>x. fst x \<in> live_keys) known"
    by (auto intro!: filter_cong)
  have sub: "set ?gone \<subseteq> set known" by auto
  note r = end_all [OF assms(1-3) sub d f]
  show "known' = filter (\<lambda>x. fst x \<in> live_keys) known" "entry pool' = entry pool"
    "ended = List.map_filter (ended_of pool \<circ> snd) (filter (\<lambda>x. fst x \<notin> live_keys) known)"
    "pl_members pool' = filter (\<lambda>r. r \<notin> lv_provider ` snd ` {x \<in> set known. fst x \<notin> live_keys}) (pl_members pool)"
    "linked L pool' known'" "memory_wf known'"
    using r [unfolded kept] unfolding set_filter append_Nil by blast+
qed

section \<open>What is adopted\<close>

text \<open>
  The slots: which agreement each provider holds. What a reconcile does to them, read off the
  records the chain has: a provider keeps the agreement it holds as long as that is live, and
  otherwise holds its oldest live record that is nobody's yet.
\<close>

definition slots :: "known_agreements \<Rightarrow> address \<Rightarrow> entity_key option" where
  "slots known = map_of (map (\<lambda>(k, l). (prov l, k)) known)"

definition held_keys :: "known_agreements \<Rightarrow> entity_key set" where
  "held_keys known = fst ` set known"

definition slot_step :: "agreement stored \<Rightarrow> (address \<Rightarrow> entity_key option) \<Rightarrow> address \<Rightarrow> entity_key option" where
  "slot_step st s = (if st_key st \<in> ran s \<or> s (ag_provider (st_record st)) \<noteq> None then s
     else s(ag_provider (st_record st) \<mapsto> st_key st))"

text \<open>What the invariants and the slots depend on: not the expiry, the counter or the task.\<close>

definition sketch :: "known_agreements \<Rightarrow> (entity_key \<times> address \<times> u16 \<times> pref \<times> entity_key) list" where
  "sketch known = map (\<lambda>(k, l). (k, prov l, live_port l, lv_provider l, st_key (lv_agreement l))) known"

lemma sketch_al_modify:
  assumes "\<And>l. (prov (f l), live_port (f l), lv_provider (f l), st_key (lv_agreement (f l))) =
      (prov l, live_port l, lv_provider l, st_key (lv_agreement l))"
  shows "sketch (al_modify k f known) = sketch known"
  using assms by (auto simp: sketch_def al_modify_def)

lemma slots_sketch: "slots known = map_of (map (\<lambda>(k, a, _). (a, k)) (sketch known))"
  by (simp add: slots_def sketch_def o_def split_def)

lemma memory_wf_sketch: "memory_wf known \<longleftrightarrow> distinct (map fst (sketch known)) \<and>
    distinct (map (fst \<circ> snd) (sketch known)) \<and> (\<forall>(k, _, _, _, sk) \<in> set (sketch known). sk = k)"
  by (auto simp: memory_wf_def sketch_def o_def split_def)

lemma linked_sketch: "linked L pool known \<longleftrightarrow> pool_wf pool \<and>
    (\<forall>(k, a, p, r, _) \<in> set (sketch known). r \<in> set (pl_members pool) \<and>
       p_id (entry pool r) = marketplace_id L a \<and> p_source (entry pool r) = Marketplace a k p) \<and>
    (\<forall>r \<in> set (pl_members pool).
       (p_source (entry pool r) = Static \<and> p_id (entry pool r) \<notin> range (marketplace_id L)) \<or>
       r \<in> (\<lambda>(_, _, _, r, _). r) ` set (sketch known))"
  unfolding linked_def sketch_def set_map image_image ball_simps by (simp add: split_def)

lemma keys_sketch: "map fst known = map fst (sketch known)"
  by (simp add: sketch_def o_def split_def)

lemma sketch_cong:
  assumes "sketch known = sketch known'"
  shows "memory_wf known \<longleftrightarrow> memory_wf known'" "linked L pool known \<longleftrightarrow> linked L pool known'"
    and "slots known = slots known'" "map fst known = map fst known'" "held_keys known = held_keys known'"
proof -
  show "map fst known = map fst known'" unfolding keys_sketch assms ..
  then show "held_keys known = held_keys known'" by (metis held_keys_def set_map)
qed (simp_all add: memory_wf_sketch linked_sketch slots_sketch assms)

lemma slots_Some: "memory_wf known \<Longrightarrow> slots known addr = Some k \<longleftrightarrow> (\<exists>l. (k, l) \<in> set known \<and> prov l = addr)"
proof -
  assume "memory_wf known"
  then have "distinct (map fst (map (\<lambda>(k, l). (prov l, k)) known))"
    by (simp add: memory_wf_def o_def split_def)
  then show ?thesis by (force simp: slots_def map_of_eq_Some_iff)
qed

lemma slots_None: "slots known addr = None \<longleftrightarrow> (\<forall>(k, l) \<in> set known. prov l \<noteq> addr)"
  by (force simp: slots_def map_of_eq_None_iff)

lemma ran_slots: "memory_wf known \<Longrightarrow> ran (slots known) = held_keys known"
  by (force simp: ran_def slots_Some held_keys_def)

text \<open>What an agreement keeps through a reconcile.\<close>

definition carried :: "live \<Rightarrow> live \<Rightarrow> bool" where
  "carried l l' \<longleftrightarrow> lv_provider l' = lv_provider l \<and> lv_counter l' = lv_counter l \<and>
     lv_admission_task l' = lv_admission_task l \<and>
     st_record (lv_agreement l') = st_record (lv_agreement l) \<and> st_key (lv_agreement l') = st_key (lv_agreement l)"

lemma carried_refl [simp]: "carried l l" and carried_trans: "carried l l' \<Longrightarrow> carried l' l'' \<Longrightarrow> carried l l''"
  by (auto simp: carried_def)

definition moved :: "agreement stored \<Rightarrow> live \<Rightarrow> live" where
  "moved stored held = held\<lparr>lv_agreement := (lv_agreement held)
     \<lparr>st_created_at := st_created_at stored, st_expires_at := st_expires_at stored\<rparr>\<rparr>"

lemma moved_simps [simp]:
  "carried l (moved st l)" "st_created_at (lv_agreement (moved st l)) = st_created_at st"
  "st_expires_at (lv_agreement (moved st l)) = st_expires_at st"
  by (simp_all add: moved_def carried_def)

definition joined :: "agreement stored \<Rightarrow> pref \<Rightarrow> live" where
  "joined stored r = \<lparr>lv_agreement = stored, lv_provider = r, lv_counter = None, lv_admission_task = None\<rparr>"

lemma adopt_one_cases:
  assumes "adopt_one L now st (n, pool, known) = (n', pool', known')" "memory_wf known"
  obtains (held) "st_key st \<in> held_keys known" "pool' = pool" "known' = al_modify (st_key st) (moved st) known"
  | (second) "st_key st \<notin> held_keys known" "slots known (ag_provider (st_record st)) \<noteq> None"
      "pool' = pool" "known' = known"
  | (joins) r where "st_key st \<notin> held_keys known" "slots known (ag_provider (st_record st)) = None"
      "pool_add (from_marketplace L now (ag_provider (st_record st)) (st_key st) (ag_remote_port (st_record st))) pool = (r, pool')"
      "known' = known @ [(st_key st, joined st r)]"
proof -
  have none: "(\<exists>(_, other) \<in> set known. prov other = ag_provider (st_record st)) \<longleftrightarrow>
      slots known (ag_provider (st_record st)) \<noteq> None"
    unfolding slots_None by auto
  consider (1) "st_key st \<in> fst ` set known"
    | (2) "st_key st \<notin> fst ` set known" "slots known (ag_provider (st_record st)) \<noteq> None"
    | (3) "st_key st \<notin> fst ` set known" "slots known (ag_provider (st_record st)) = None"
    by blast
  then show thesis
  proof cases
    case 1
    with assms(1) have "pool' = pool \<and> known' = al_modify (st_key st) (moved st) known"
      unfolding adopt_one_def Let_def moved_def [abs_def] by simp
    with 1 show thesis by (intro held) (simp_all add: held_keys_def)
  next
    case 2
    with assms(1) have "pool' = pool \<and> known' = known"
      unfolding adopt_one_def Let_def prod.case none by simp
    with 2 show thesis by (intro second) (simp_all add: held_keys_def)
  next
    case 3
    obtain r q where a: "pool_add (from_marketplace L now (ag_provider (st_record st)) (st_key st)
        (ag_remote_port (st_record st))) pool = (r, q)" by fastforce
    have "pool' = q \<and> known' = AList.update (st_key st) (joined st r) known"
      using assms(1) 3 unfolding adopt_one_def Let_def none prod.case a joined_def by simp
    with 3 a show thesis by (intro joins) (simp_all add: held_keys_def update_new)
  qed
qed

lemma from_marketplace_simps [simp]:
  "p_id (from_marketplace L now addr k port) = marketplace_id L addr"
  "p_source (from_marketplace L now addr k port) = Marketplace addr k port"
  "p_served (from_marketplace L now addr k port) = 0"
  "\<not> eligible (from_marketplace L now addr k port)"
  by (simp_all add: from_marketplace_def provider_new_def eligible_def ALL_GATES_eq)

lemma adopt_one_step:
  assumes "linked L pool known" "memory_wf known"
    and a: "adopt_one L now st (n, pool, known) = (n', pool', known')"
  shows "linked L pool' known' \<and> memory_wf known' \<and> slots known' = slot_step st (slots known) \<and>
    (\<forall>r \<in> set (pl_members pool). entry pool' r = entry pool r)"
  using a assms(2)
proof (cases rule: adopt_one_cases)
  case held
  have "sketch known' = sketch known" unfolding held by (rule sketch_al_modify) (simp add: moved_def)
  note c = sketch_cong [OF this]
  show ?thesis
    using held assms(1,2) unfolding c by (simp add: slot_step_def ran_slots fun_eq_iff)
next
  case second
  then show ?thesis using assms by (simp add: slot_step_def fun_eq_iff)
next
  case (joins r)
  let ?a = "ag_provider (st_record st)"
  note p = pool_add_simps [OF joins(3)]
  have wf: "pool_wf pool" by (rule linkedD(1) [OF assms(1)])
  have fresh: "s \<noteq> r" if "s \<in> set (pl_members pool)" for s
    using that wf p(1) by (auto simp: pool_wf_def)
  have frame: "\<forall>s \<in> set (pl_members pool). entry pool' s = entry pool s" using fresh p(4) by blast
  have m: "memory_wf known'"
    using assms(2) joins(1,2) by (auto simp: memory_wf_def joins(4) joined_def held_keys_def slots_None)
  have "linked L pool' known'"
    unfolding linked_def
  proof (intro conjI ballI)
    show "pool_wf pool'" by (rule pool_add_wf [OF wf joins(3)])
  next
    fix x assume "x \<in> set known'"
    then consider "x \<in> set known" | "x = (st_key st, joined st r)" unfolding joins(4) by auto
    then show "case x of (k, l) \<Rightarrow> lv_provider l \<in> set (pl_members pool') \<and>
        p_id (entry pool' (lv_provider l)) = marketplace_id L (prov l) \<and>
        p_source (entry pool' (lv_provider l)) = Marketplace (prov l) k (live_port l)"
    proof cases
      case 1
      then obtain k l where kl: "x = (k, l)" "(k, l) \<in> set known" by (metis surj_pair)
      with linkedD(2-4) [OF assms(1) kl(2)] frame p(2) show ?thesis by simp
    next
      case 2
      with p(2,3) show ?thesis by (simp add: joined_def)
    qed
  next
    fix s assume "s \<in> set (pl_members pool')"
    then consider "s \<in> set (pl_members pool)" | "s = r" unfolding p(2) by auto
    then show "(p_source (entry pool' s) = Static \<and> p_id (entry pool' s) \<notin> range (marketplace_id L)) \<or>
        s \<in> lv_provider ` snd ` set known'"
    proof cases
      case 1
      with assms(1) have "(p_source (entry pool s) = Static \<and> p_id (entry pool s) \<notin> range (marketplace_id L)) \<or>
          s \<in> lv_provider ` snd ` set known" unfolding linked_def by blast
      with 1 frame show ?thesis unfolding joins(4) by (auto simp: image_iff)
    next
      case 2
      then show ?thesis unfolding joins(4) by (simp add: joined_def)
    qed
  qed
  moreover have "slots known' = slot_step st (slots known)"
  proof
    fix addr
    have "slots known' addr = (case slots known addr of Some k \<Rightarrow> Some k
        | None \<Rightarrow> if addr = ?a then Some (st_key st) else None)"
      by (simp add: joins(4) slots_def joined_def map_of_append map_add_def split: option.split)
    with joins(1,2) show "slots known' addr = slot_step st (slots known) addr"
      by (simp add: slot_step_def ran_slots [OF assms(2)] split: option.split)
  qed
  ultimately show ?thesis using m frame by blast
qed

lemma slot_steps:
  "distinct (map st_key live) \<Longrightarrow> fold slot_step live s addr =
     (case s addr of Some k \<Rightarrow> Some k
      | None \<Rightarrow> map_option st_key (find (\<lambda>st. ag_provider (st_record st) = addr \<and> st_key st \<notin> ran s) live))"
proof (induction live arbitrary: s)
  case (Cons st live)
  let ?a = "ag_provider (st_record st)"
  show ?case
  proof (cases "st_key st \<in> ran s \<or> s ?a \<noteq> None")
    case True
    with Cons show ?thesis by (auto simp: slot_step_def split: option.split)
  next
    case False
    let ?s = "s(?a \<mapsto> st_key st)"
    have ran: "ran ?s = insert (st_key st) (ran s)" using False by simp
    have find: "find (\<lambda>x. ag_provider (st_record x) = addr \<and> st_key x \<notin> ran ?s) live =
        find (\<lambda>x. ag_provider (st_record x) = addr \<and> st_key x \<notin> ran s) live"
    proof (rule find_cong)
      fix x assume "x \<in> set live"
      then have "st_key x \<noteq> st_key st" using Cons.prems by (auto simp: image_iff)
      then show "(ag_provider (st_record x) = addr \<and> st_key x \<notin> ran ?s) =
          (ag_provider (st_record x) = addr \<and> st_key x \<notin> ran s)" unfolding ran by simp
    qed simp
    have "fold slot_step (st # live) s addr = fold slot_step live ?s addr"
      using False by (simp add: slot_step_def)
    also have "\<dots> = (case ?s addr of Some k \<Rightarrow> Some k
      | None \<Rightarrow> map_option st_key (find (\<lambda>x. ag_provider (st_record x) = addr \<and> st_key x \<notin> ran ?s) live))"
      using Cons by simp
    finally show ?thesis using False unfolding find by (auto split: option.split)
  qed
qed (simp split: option.split)

lemma al_modify_set: "(k', l') \<in> set (al_modify k f m) \<longleftrightarrow>
    (\<exists>l. (k', l) \<in> set m \<and> l' = (if k' = k then f l else l))"
  by (force simp: al_modify_def)

lemma adopt_one_entries:
  assumes "adopt_one L now st (n, pool, known) = (n', pool', known')" "memory_wf known"
  shows "((k, l) \<in> set known \<longrightarrow> (\<exists>l'. (k, l') \<in> set known' \<and> carried l l' \<and> (k \<noteq> st_key st \<longrightarrow> l' = l))) \<and>
    ((k, l') \<in> set known' \<longrightarrow> (\<exists>l. (k, l) \<in> set known \<and> carried l l' \<and> (k \<noteq> st_key st \<longrightarrow> l' = l)) \<or>
      (k = st_key st \<and> (\<exists>r. l' = joined st r))) \<and>
    ((st_key st, l) \<in> set known' \<longrightarrow>
      st_created_at (lv_agreement l) = st_created_at st \<and> st_expires_at (lv_agreement l) = st_expires_at st)"
  using assms
proof (cases rule: adopt_one_cases)
  case held
  have "(k, if k = st_key st then moved st l else l) \<in> set known'" if "(k, l) \<in> set known"
    using that by (auto simp: held(3) al_modify_set)
  then have "(k, l) \<in> set known \<longrightarrow> (\<exists>l'. (k, l') \<in> set known' \<and> carried l l' \<and> (k \<noteq> st_key st \<longrightarrow> l' = l))"
    by (intro impI exI [of _ "if k = st_key st then moved st l else l"]) simp
  moreover have "(k, l') \<in> set known' \<longrightarrow> (\<exists>l. (k, l) \<in> set known \<and> carried l l' \<and> (k \<noteq> st_key st \<longrightarrow> l' = l))"
    unfolding held(3) al_modify_set by auto
  moreover have "(st_key st, l) \<in> set known' \<longrightarrow>
      st_created_at (lv_agreement l) = st_created_at st \<and> st_expires_at (lv_agreement l) = st_expires_at st"
    unfolding held(3) al_modify_set by auto
  ultimately show ?thesis by blast
next
  case second
  then show ?thesis by (auto simp: held_keys_def image_iff)
next
  case (joins r)
  then show ?thesis by (auto simp: joined_def held_keys_def image_iff)
qed

text \<open>What the whole pass leaves of one agreement.\<close>

definition adopted_from :: "agreement stored list \<Rightarrow> known_agreements \<Rightarrow> known_agreements \<Rightarrow> bool" where
  "adopted_from live known known' \<longleftrightarrow>
     (\<forall>k l. (k, l) \<in> set known \<longrightarrow>
        (\<exists>l'. (k, l') \<in> set known' \<and> carried l l' \<and> (k \<notin> st_key ` set live \<longrightarrow> l' = l))) \<and>
     (\<forall>k l'. (k, l') \<in> set known' \<longrightarrow>
        (\<exists>l. (k, l) \<in> set known \<and> carried l l' \<and> (k \<notin> st_key ` set live \<longrightarrow> l' = l)) \<or>
        (\<exists>st r. st \<in> set live \<and> k = st_key st \<and> carried (joined st r) l')) \<and>
     (\<forall>st \<in> set live. \<forall>l. (st_key st, l) \<in> set known' \<longrightarrow>
        st_created_at (lv_agreement l) = st_created_at st \<and> st_expires_at (lv_agreement l) = st_expires_at st)"

lemma adopted_from_Cons:
  assumes "adopt_one L now st (n, pool, known) = (n1, pool1, known1)" "memory_wf known"
    and later: "adopted_from live known1 known'" and fresh: "st_key st \<notin> st_key ` set live"
  shows "adopted_from (st # live) known known'"
  unfolding adopted_from_def
proof (intro conjI)
  note one = adopt_one_entries [OF assms(1,2), THEN conjunct1, rule_format]
    adopt_one_entries [OF assms(1,2), THEN conjunct2, THEN conjunct1, rule_format]
    adopt_one_entries [OF assms(1,2), THEN conjunct2, THEN conjunct2, rule_format]
  show "\<forall>k l. (k, l) \<in> set known \<longrightarrow> (\<exists>l'. (k, l') \<in> set known' \<and> carried l l' \<and>
      (k \<notin> st_key ` set (st # live) \<longrightarrow> l' = l))"
  proof (intro allI impI)
    fix k l assume "(k, l) \<in> set known"
    from one(1) [OF this] obtain l1 where l1: "(k, l1) \<in> set known1" "carried l l1"
      "k \<noteq> st_key st \<longrightarrow> l1 = l" by blast
    from later l1(1) obtain l' where l': "(k, l') \<in> set known'" "carried l1 l'"
      "k \<notin> st_key ` set live \<longrightarrow> l' = l1" unfolding adopted_from_def by blast
    have "k \<notin> st_key ` set (st # live) \<longrightarrow> l' = l" using l1(3) l'(3) by simp
    with l'(1) carried_trans [OF l1(2) l'(2)] show "\<exists>l'. (k, l') \<in> set known' \<and> carried l l' \<and>
        (k \<notin> st_key ` set (st # live) \<longrightarrow> l' = l)" by blast
  qed
  show "\<forall>k l'. (k, l') \<in> set known' \<longrightarrow> (\<exists>l. (k, l) \<in> set known \<and> carried l l' \<and>
        (k \<notin> st_key ` set (st # live) \<longrightarrow> l' = l)) \<or>
      (\<exists>x r. x \<in> set (st # live) \<and> k = st_key x \<and> carried (joined x r) l')"
  proof (intro allI impI)
    fix k l' assume "(k, l') \<in> set known'"
    with later consider (old) l1 where "(k, l1) \<in> set known1" "carried l1 l'" "k \<notin> st_key ` set live \<longrightarrow> l' = l1"
      | (new) x r where "x \<in> set live" "k = st_key x" "carried (joined x r) l'"
      unfolding adopted_from_def by blast
    then show "(\<exists>l. (k, l) \<in> set known \<and> carried l l' \<and> (k \<notin> st_key ` set (st # live) \<longrightarrow> l' = l)) \<or>
      (\<exists>x r. x \<in> set (st # live) \<and> k = st_key x \<and> carried (joined x r) l')"
    proof cases
      case old
      from one(2) [OF old(1)] consider (kept) l where "(k, l) \<in> set known" "carried l l1" "k \<noteq> st_key st \<longrightarrow> l1 = l"
        | (joins) r where "k = st_key st" "l1 = joined st r" by blast
      then show ?thesis
      proof cases
        case kept
        have "k \<notin> st_key ` set (st # live) \<longrightarrow> l' = l" using old(3) kept(3) by simp
        with kept(1) carried_trans [OF kept(2) old(2)] show ?thesis by blast
      next
        case joins
        with old(2) show ?thesis by auto
      qed
    next
      case new
      then show ?thesis by auto
    qed
  qed
  show "\<forall>x \<in> set (st # live). \<forall>l. (st_key x, l) \<in> set known' \<longrightarrow>
      st_created_at (lv_agreement l) = st_created_at x \<and> st_expires_at (lv_agreement l) = st_expires_at x"
  proof (intro ballI allI impI)
    fix x l assume x: "x \<in> set (st # live)" "(st_key x, l) \<in> set known'"
    show "st_created_at (lv_agreement l) = st_created_at x \<and> st_expires_at (lv_agreement l) = st_expires_at x"
    proof (cases "x \<in> set live")
      case True
      with later x(2) show ?thesis unfolding adopted_from_def by blast
    next
      case False
      with x have "x = st" by simp
      with x(2) later consider (old) l1 where "(st_key st, l1) \<in> set known1"
          "st_key st \<notin> st_key ` set live \<longrightarrow> l = l1"
        | (new) y where "y \<in> set live" "st_key st = st_key y" unfolding adopted_from_def by blast
      then show ?thesis
      proof cases
        case old
        with fresh one(3) \<open>x = st\<close> show ?thesis by simp
      next
        case (new y)
        with fresh show ?thesis by auto
      qed
    qed
  qed
qed

lemma adopt_all:
  assumes "linked L pool known" "memory_wf known" "distinct (map st_key live)"
    and "fold (adopt_one L now) live (n, pool, known) = (n', pool', known')"
  shows "linked L pool' known' \<and> memory_wf known' \<and> slots known' = fold slot_step live (slots known) \<and>
    adopted_from live known known' \<and>
    (\<forall>r \<in> set (pl_members pool). entry pool' r = entry pool r)"
  using assms
proof (induction live arbitrary: n pool known)
  case Nil
  then show ?case by (simp add: adopted_from_def)
next
  case (Cons st live)
  obtain n1 pool1 known1 where a: "adopt_one L now st (n, pool, known) = (n1, pool1, known1)"
    using prod_cases3 by blast
  note s = adopt_one_step [OF Cons.prems(1,2) a]
  have members: "set (pl_members pool) \<subseteq> set (pl_members pool1)"
    using a Cons.prems(2)
  proof (cases rule: adopt_one_cases)
    case (joins r)
    then show ?thesis using pool_add_simps(2) [OF joins(3)] by auto
  qed simp_all
  have "fold (adopt_one L now) live (n1, pool1, known1) = (n', pool', known')"
    using Cons.prems(4) a by simp
  moreover have d: "distinct (map st_key live)" "st_key st \<notin> st_key ` set live" using Cons.prems(3) by auto
  ultimately have ih: "linked L pool' known' \<and> memory_wf known' \<and>
      slots known' = fold slot_step live (slots known1) \<and> adopted_from live known1 known' \<and>
      (\<forall>r \<in> set (pl_members pool1). entry pool' r = entry pool1 r)"
    using Cons.IH s by blast
  then have "adopted_from (st # live) known known'"
    using adopted_from_Cons [OF a Cons.prems(2) _ d(2)] by blast
  with ih s members show ?case by (auto simp: subset_iff)
qed

text \<open>A provider that joins starts at zero, behind its health gate.\<close>

lemma adopt_fresh:
  assumes "linked L pool known" "memory_wf known" "distinct (map st_key live)"
    and "fold (adopt_one L now) live (n, pool, known) = (n', pool', known')"
    and "(k, l) \<in> set known'" "k \<notin> held_keys known"
  shows "p_served (entry pool' (lv_provider l)) = 0 \<and> \<not> eligible (entry pool' (lv_provider l)) \<and> lv_counter l = None"
  using assms
proof (induction live arbitrary: n pool known)
  case Nil
  then show ?case by (force simp: held_keys_def)
next
  case (Cons st live)
  obtain n1 pool1 known1 where a: "adopt_one L now st (n, pool, known) = (n1, pool1, known1)"
    using prod_cases3 by blast
  note s = adopt_one_step [OF Cons.prems(1,2) a]
  have f: "fold (adopt_one L now) live (n1, pool1, known1) = (n', pool', known')"
    using Cons.prems(4) a by simp
  have d: "distinct (map st_key live)" "st_key st \<notin> st_key ` set live" using Cons.prems(3) by auto
  show ?case
  proof (cases "k \<in> held_keys known1")
    case False
    then show ?thesis using Cons.IH [OF _ _ d(1) f Cons.prems(5)] s by blast
  next
    case True
    from a Cons.prems(2) show ?thesis
    proof (cases rule: adopt_one_cases)
      case held
      then have "map fst known1 = map fst known" by simp
      with True Cons.prems(6) show ?thesis by (metis held_keys_def set_map)
    next
      case second
      with True Cons.prems(6) show ?thesis by simp
    next
      case (joins r)
      with True Cons.prems(6) have k: "k = st_key st" by (auto simp: held_keys_def)
      have all: "linked L pool' known' \<and> memory_wf known' \<and> adopted_from live known1 known' \<and>
          (\<forall>r \<in> set (pl_members pool1). entry pool' r = entry pool1 r)"
        using adopt_all [OF _ _ d(1) f] s by blast
      then consider (old) l1 where "(k, l1) \<in> set known1" "carried l1 l" | (new) x where "x \<in> set live" "k = st_key x"
        using Cons.prems(5) unfolding adopted_from_def by blast
      then show ?thesis
      proof cases
        case old
        with k joins(1,4) have "l1 = joined st r" by (auto simp: held_keys_def image_iff)
        with old(2) have l: "lv_provider l = r" "lv_counter l = None" by (simp_all add: carried_def joined_def)
        note p = pool_add_simps [OF joins(3)]
        from all p(2,3) have "entry pool' r = from_marketplace L now (ag_provider (st_record st)) (st_key st)
            (ag_remote_port (st_record st))" by simp
        with l show ?thesis by simp
      next
        case new
        with k d(2) show ?thesis by (metis imageI)
      qed
    qed
  qed
qed

lemma apply_agreements_parts:
  assumes "apply_agreements L live w = (ended, w')"
  obtains pool1 known1 n where "end_agreements (st_key ` set live) (wo_pool w) (wo_known w) = (ended, pool1, known1)"
    "fold (adopt_one L (wo_now w)) live (0, pool1, known1) = (n, wo_pool w', wo_known w')"
    "wo_env w' = wo_env w" "wo_now w' = wo_now w"
  using assms by (auto simp: apply_agreements_def adopt_agreements_def Let_def split: prod.splits)

text \<open>
  A world with one agreement: provider 5 served 41 requests under agreement 9 into counter record
  8. The chain then shows another one, of provider 6.
\<close>

definition lone_live :: live where
  "lone_live = \<lparr>lv_agreement = \<lparr>st_key = 9, st_creator = 1, st_created_at = 10, st_expires_at = 90,
     st_record = sample_agreement\<rparr>, lv_provider = 0,
     lv_counter = Some \<lparr>oc_key = 8, oc_opened_block = 10\<rparr>, lv_admission_task = None\<rparr>"

definition lone_world :: "unit world" where
  "lone_world = \<lparr>wo_env = (), wo_now = 0,
     wo_pool = \<lparr>pl_members = [0], pl_cursor = 0, pl_outcomes = no_outcomes,
       pl_heap = (\<lambda>_. (from_marketplace std_libs 0 5 9 7001)\<lparr>p_served := 41\<rparr>), pl_fresh = 1\<rparr>,
     wo_known = [(9, lone_live)], wo_tasks = {}, wo_spawned = 0\<rparr>"

definition next_agreement :: "agreement stored" where
  "next_agreement = \<lparr>st_key = 19, st_creator = 1, st_created_at = 50, st_expires_at = 120,
     st_record = \<lparr>ag_provider = 6, ag_offer = 16, ag_wei_per_call = 7, ag_remote_port = 7002\<rparr>\<rparr>"

lemmas lone_defs = lone_world_def lone_live_def sample_agreement_def next_agreement_def

lemma lone_wf: "linked std_libs (wo_pool lone_world) (wo_known lone_world)" "memory_wf (wo_known lone_world)"
  by (simp_all add: lone_defs linked_def memory_wf_def pool_wf_def entry_def)

section \<open>Properties of the agreements' reconcile\<close>

text \<open>
  C4. A reconcile refines the slots. Whatever the chain's live records are, oldest first, memory
  and the pool stay well formed, each agreement under its key, one per provider, each with its own
  pool entry; and who holds which agreement afterwards is a function of who held which before: a
  provider whose agreement is still live keeps it, and any other holds its oldest live record that
  memory did not hold already, or none.
\<close>

theorem reconcile_refines_slots:
  assumes "text_laws L" and "linked L (wo_pool w) (wo_known w)" and "memory_wf (wo_known w)"
    and "distinct (map st_key live)" and "apply_agreements L live w = (ended, w')"
  shows "memory_wf (wo_known w') \<and> linked L (wo_pool w') (wo_known w') \<and>
    slots (wo_known w') addr =
      (let oldest = map_option st_key
             (find (\<lambda>st. ag_provider (st_record st) = addr \<and> st_key st \<notin> held_keys (wo_known w)) live)
       in case slots (wo_known w) addr of
            Some k \<Rightarrow> if k \<in> st_key ` set live then Some k else oldest
          | None \<Rightarrow> oldest)"
  using assms(5)
proof (rule apply_agreements_parts)
  fix pool1 known1 n
  let ?keys = "st_key ` set live"
  assume e: "end_agreements ?keys (wo_pool w) (wo_known w) = (ended, pool1, known1)"
    and f: "fold (adopt_one L (wo_now w)) live (0, pool1, known1) = (n, wo_pool w', wo_known w')"
  note st = end_agreements_eq [OF assms(1-3) e]
  note ad = adopt_all [OF st(5,6) assms(4) f]
  have mem1: "(k, l) \<in> set known1 \<longleftrightarrow> (k, l) \<in> set (wo_known w) \<and> k \<in> ?keys" for k l
    unfolding st(1) by auto
  have surv: "slots known1 addr = Some k \<longleftrightarrow> slots (wo_known w) addr = Some k \<and> k \<in> ?keys" for k
    using slots_Some [OF st(6), of addr k] slots_Some [OF assms(3), of addr k] mem1 by auto
  have held: "held_keys known1 = held_keys (wo_known w) \<inter> ?keys"
    by (auto simp: held_keys_def st(1))
  have fd: "find (\<lambda>x. ag_provider (st_record x) = addr \<and> st_key x \<notin> ran (slots known1)) live =
      find (\<lambda>x. ag_provider (st_record x) = addr \<and> st_key x \<notin> held_keys (wo_known w)) live"
    unfolding ran_slots [OF st(6)] held by (rule find_cong) auto
  have sl: "slots (wo_known w') = fold slot_step live (slots known1)" using ad by blast
  have "slots (wo_known w') addr = (case slots known1 addr of Some k \<Rightarrow> Some k
      | None \<Rightarrow> map_option st_key
          (find (\<lambda>x. ag_provider (st_record x) = addr \<and> st_key x \<notin> held_keys (wo_known w)) live))"
    unfolding sl slot_steps [OF assms(4)] fd ..
  moreover have "slots known1 addr = (case slots (wo_known w) addr of
      Some k \<Rightarrow> if k \<in> ?keys then Some k else None | None \<Rightarrow> None)"
    by (rule option_eqI) (auto simp: surv split: option.split)
  ultimately show ?thesis
    using ad by (auto simp: Let_def split: option.split)
qed

lemma reconcile_refines_slots_witness:
  "slots (wo_known (snd (apply_agreements std_libs [next_agreement] lone_world))) 6 = Some 19 \<and>
   slots (wo_known (snd (apply_agreements std_libs [next_agreement] lone_world))) 5 = None"
proof -
  obtain ended w' where a: "apply_agreements std_libs [next_agreement] lone_world = (ended, w')" by fastforce
  have d: "distinct (map st_key [next_agreement])" by simp
  note r = reconcile_refines_slots [OF std_libs_text_laws lone_wf d a]
  from r [of 6] r [of 5] show ?thesis
    by (simp add: a Let_def slots_def held_keys_def) (simp add: lone_defs)
qed

text \<open>
  What a reconcile ends, and what it leaves alone. The agreements owed a last write are
  exactly those that had a counter record and whose own record is no longer on the chain, each with
  everything its provider served up to that moment; the pool loses their entries and no other. An
  agreement that stays keeps its pool entry, with its counters, its counter record and its running
  admission, and takes the chain's creation block and expiry; one that is new starts with no counter
  record and a provider that has served nothing and is not yet eligible.
\<close>

theorem reconcile_ends_and_carries:
  assumes "text_laws L" and "linked L (wo_pool w) (wo_known w)" and "memory_wf (wo_known w)"
    and "distinct (map st_key live)" and "apply_agreements L live w = (ended, w')"
  shows "ended = List.map_filter (\<lambda>(_, l). ended_of (wo_pool w) l)
      (filter (\<lambda>(k, _). k \<notin> st_key ` set live) (wo_known w)) \<and>
    (\<forall>(k, l) \<in> set (wo_known w). k \<in> st_key ` set live \<longrightarrow>
       entry (wo_pool w') (lv_provider l) = entry (wo_pool w) (lv_provider l) \<and>
       (\<exists>l'. (k, l') \<in> set (wo_known w') \<and> carried l l')) \<and>
    (\<forall>(k, l) \<in> set (wo_known w'). (\<exists>st \<in> set live. st_key st = k \<and>
         st_created_at (lv_agreement l) = st_created_at st \<and> st_expires_at (lv_agreement l) = st_expires_at st) \<and>
       (k \<notin> held_keys (wo_known w) \<longrightarrow> lv_counter l = None \<and>
          p_served (entry (wo_pool w') (lv_provider l)) = 0 \<and> \<not> eligible (entry (wo_pool w') (lv_provider l))))"
  using assms(5)
proof (rule apply_agreements_parts)
  fix pool1 known1 n
  let ?keys = "st_key ` set live"
  assume e: "end_agreements ?keys (wo_pool w) (wo_known w) = (ended, pool1, known1)"
    and f: "fold (adopt_one L (wo_now w)) live (0, pool1, known1) = (n, wo_pool w', wo_known w')"
  note st = end_agreements_eq [OF assms(1-3) e]
  have ad: "adopted_from live known1 (wo_known w')" "\<forall>r \<in> set (pl_members pool1). entry (wo_pool w') r = entry pool1 r"
    using adopt_all [OF st(5,6) assms(4) f] by blast+
  have "ended = List.map_filter (\<lambda>(_, l). ended_of (wo_pool w) l)
      (filter (\<lambda>(k, _). k \<notin> ?keys) (wo_known w))"
    unfolding st(2) by (simp add: o_def split_def)
  moreover have "entry (wo_pool w') (lv_provider l) = entry (wo_pool w) (lv_provider l) \<and>
      (\<exists>l'. (k, l') \<in> set (wo_known w') \<and> carried l l')" if "(k, l) \<in> set (wo_known w)" "k \<in> ?keys" for k l
  proof -
    have k1: "(k, l) \<in> set known1" using that unfolding st(1) by simp
    with ad(1) obtain l' where l': "(k, l') \<in> set (wo_known w')" "carried l l'" unfolding adopted_from_def by blast
    have "lv_provider l \<in> set (pl_members pool1)" by (rule linkedD(2) [OF st(5) k1])
    with ad(2) st(3) l' show ?thesis by auto
  qed
  moreover have "\<exists>x \<in> set live. st_key x = k \<and> st_created_at (lv_agreement l) = st_created_at x \<and>
      st_expires_at (lv_agreement l) = st_expires_at x" if kl: "(k, l) \<in> set (wo_known w')" for k l
  proof -
    from ad(1) kl have "k \<in> ?keys"
      unfolding adopted_from_def st(1) by fastforce
    then obtain x where "x \<in> set live" "k = st_key x" by auto
    with ad(1) kl show ?thesis unfolding adopted_from_def by blast
  qed
  moreover have "lv_counter l = None \<and> p_served (entry (wo_pool w') (lv_provider l)) = 0 \<and>
      \<not> eligible (entry (wo_pool w') (lv_provider l))"
    if "(k, l) \<in> set (wo_known w')" "k \<notin> held_keys (wo_known w)" for k l
  proof -
    have "k \<notin> held_keys known1" using that(2) by (auto simp: held_keys_def st(1))
    from adopt_fresh [OF st(5,6) assms(4) f that(1) this] show ?thesis by blast
  qed
  ultimately show ?thesis by auto
qed

lemma reconcile_ends_and_carries_witness:
  "fst (apply_agreements std_libs [next_agreement] lone_world) =
     [\<lparr>en_agreement = lv_agreement lone_live, en_counter = \<lparr>oc_key = 8, oc_opened_block = 10\<rparr>, en_served = 41\<rparr>]"
proof -
  obtain ended w' where a: "apply_agreements std_libs [next_agreement] lone_world = (ended, w')" by fastforce
  have d: "distinct (map st_key [next_agreement])" by simp
  from reconcile_ends_and_carries [OF std_libs_text_laws lone_wf d a]
  have "ended = List.map_filter (\<lambda>(_, l). ended_of (wo_pool lone_world) l)
      (filter (\<lambda>(k, _). k \<notin> st_key ` set [next_agreement]) (wo_known lone_world))" by blast
  then show ?thesis
    by (simp add: a) (simp add: lone_defs ended_of_def entry_def List.map_filter_simps)
qed

end
