(* ===== verification/Discovery.thy ===== *)
theory Discovery
  imports Agent
begin

text \<open>
  \<open>crates/lb/src/marketplace/agent.rs\<close>: the offers and their acceptances, the refresh, the
  steps after a tunnel's admission, the listing, and the start.
\<close>

section \<open>Offers and acceptances\<close>

definition accept ::
    "libs \<Rightarrow> 'e agent_in \<Rightarrow> offer stored \<Rightarrow> u16 \<Rightarrow> u64 \<Rightarrow> 'e world \<Rightarrow> 'e world \<times> bool" where
  "accept L a offer port head w =
     (let config = an_config a;
          agreement = \<lparr>ag_provider = st_creator offer, ag_offer = st_key offer,
            ag_wei_per_call = mc_wei_per_call config, ag_remote_port = port\<rparr>;
          (w, answer) = w_create (an_writer a) w
            (create_new (agreement_encode L agreement) (Seconds (as_secs (mc_offer_max_lifetime config))))
      in case answer of
           Inl (Unresolved _ _) \<Rightarrow> (w, True)
         | Inl _ \<Rightarrow> (w, False)
         | Inr created \<Rightarrow>
             (let key = cd_entity_key created;
                  stored = \<lparr>st_key = key, st_creator = id_address (an_identity a), st_created_at = head,
                    st_expires_at = cd_expires_at created, st_record = agreement\<rparr>;
                  (provider, pool) = pool_add (from_marketplace L (wo_now w) (st_creator offer) key port) (wo_pool w);
                  w = w\<lparr>wo_pool := pool,
                        wo_known := AList.update key \<lparr>lv_agreement = stored, lv_provider = provider,
                          lv_counter = None, lv_admission_task = None\<rparr> (wo_known w)\<rparr>;
                  counter = \<lparr>cr_agreement = key, cr_provider = st_creator offer, cr_state = Open, cr_count = 0,
                    cr_wei_per_call = mc_wei_per_call config, cr_opened_block = head, cr_closed_block = None\<rparr>;
                  (w, answer) = w_create (an_writer a) w
                    (create_new (counter_encode L counter) (Seconds (as_secs (mc_counter_record_life config))));
                  opened = (case answer of
                      Inr created \<Rightarrow> Some \<lparr>oc_key = cd_entity_key created, oc_opened_block = head\<rparr>
                    | Inl _ \<Rightarrow> None)
              in (w\<lparr>wo_known := al_modify key (\<lambda>live. live\<lparr>lv_counter := opened\<rparr>) (wo_known w)\<rparr>, True)))"

text \<open>The lowest port nobody holds and nothing is bound to; a bound one counts as used from then on.\<close>

fun find_port ::
    "('w \<Rightarrow> u16 \<Rightarrow> 'w \<times> bool) \<Rightarrow> u16 list \<Rightarrow> u16 set \<Rightarrow> 'w \<Rightarrow> 'w \<times> u16 set \<times> u16 option" where
  "find_port bound [] used w = (w, used, None)"
| "find_port bound (candidate # ports) used w =
     (if candidate \<in> used then find_port bound ports used w
      else case bound w candidate of
             (w, True) \<Rightarrow> find_port bound ports (insert candidate used) w
           | (w, False) \<Rightarrow> (w, used, Some candidate))"

fun offers_loop ::
    "libs \<Rightarrow> 'e agent_in \<Rightarrow> u64 \<Rightarrow> nat \<Rightarrow> entity_key set \<Rightarrow> offer stored list \<Rightarrow>
       address set \<Rightarrow> u16 set \<Rightarrow> nat \<Rightarrow> 'e world \<Rightarrow> 'e world \<times> nat" where
  "offers_loop L a head free taken_offers [] providers ports accepted w = (w, accepted)"
| "offers_loop L a head free taken_offers (offer # offers) providers ports accepted w =
     (if free \<le> accepted \<or> st_key offer \<in> taken_offers \<or> st_creator offer \<in> providers
      then offers_loop L a head free taken_offers offers providers ports accepted w
      else
        (let (w, ports, found) = find_port (an_port_bound a) (remote_ports (an_config a)) ports w
         in case found of
              None \<Rightarrow> (w, accepted)
            | Some port \<Rightarrow>
                (let (w, held) = accept L a offer port head w
                 in if held
                    then offers_loop L a head free taken_offers offers (insert (st_creator offer) providers)
                           (insert port ports) (Suc accepted) w
                    else offers_loop L a head free taken_offers offers providers ports accepted w)))"

definition offers_of :: "libs \<Rightarrow> 'w agent \<Rightarrow> page \<Rightarrow> offer stored list" where
  "offers_of L a page =
     sort_key creation
       (filter (\<lambda>offer. sp_chain_id (of_specs (st_record offer)) = id_chain_id (an_identity a))
         (decode_page L KIND_OFFER offer_decode_fields page))"

definition offers_query :: "'w agent \<Rightarrow> u64 \<Rightarrow> query" where
  "offers_query a head =
     query_expires_by (head + blocks (mc_offer_max_lifetime (an_config a)))
       (query_expires_after head (query_attr_key ''lb_listing'' (an_listing_key a) (query_kind KIND_OFFER)))"

definition discover_offers :: "libs \<Rightarrow> 'e agent_in \<Rightarrow> u64 \<Rightarrow> 'e world \<Rightarrow> 'e world \<times> nat" where
  "discover_offers L a head w =
     (case rd_query (an_reader a) w (offers_query a head) of
        (w, Inl _) \<Rightarrow> (w, 0)
      | (w, Inr page) \<Rightarrow>
          (let offers = offers_of L a page;
               records = map (\<lambda>(_, live). st_record (lv_agreement live)) (wo_known w);
               free = unat (mc_max_providers (an_config a)) - length (wo_known w)
           in offers_loop L a head free (set (map ag_offer records)) offers
                (set (map ag_provider records)) (set (map ag_remote_port records)) 0 w))"

definition discovery_poll :: "libs \<Rightarrow> 'e agent_in \<Rightarrow> 'e world \<Rightarrow> 'e world" where
  "discovery_poll L a w =
     (let (w, head) =
        (case reconcile_agreements L a w of
           (w, Inr head) \<Rightarrow> (w, Some head)
         | (w, Inl (TooMany _ _)) \<Rightarrow>
             (case rd_block_number (an_reader a) w of
                (w, Inr head) \<Rightarrow> (w, Some head)
              | (w, Inl _) \<Rightarrow> (w, None))
         | (w, Inl (ChainRead _)) \<Rightarrow> (w, None))
      in case head of
           None \<Rightarrow> w
         | Some head \<Rightarrow> fst (discover_offers L a head (fst (reconcile_counters L a head w))))"

section \<open>The refresh\<close>

definition was_extended :: "live \<Rightarrow> duration \<Rightarrow> bool" where
  "was_extended live agreement_life \<longleftrightarrow>
     blocks agreement_life \<le> sat_sub (st_expires_at (lv_agreement live)) (st_created_at (lv_agreement live))"

record refresh_parts =
  rf_batch :: batch
  rf_ineligible :: nat
  rf_expiring_later :: nat

definition expires_later :: "u64 option \<Rightarrow> u64 \<Rightarrow> duration \<Rightarrow> bool" where
  "expires_later head expires_at life =
     (case head of None \<Rightarrow> False | Some head \<Rightarrow> expires_at > head + blocks life)"

definition refresh_one ::
    "'w agent \<Rightarrow> u64 option \<Rightarrow> pool \<Rightarrow> entity_key \<times> live \<Rightarrow> refresh_parts \<Rightarrow> refresh_parts" where
  "refresh_one a head pool = (\<lambda>(key, live) parts.
     let agreement = lv_agreement live in
     if \<not> eligible (entry pool (lv_provider live)) then parts\<lparr>rf_ineligible := Suc (rf_ineligible parts)\<rparr>
     else if (case head of None \<Rightarrow> False | Some head \<Rightarrow> st_expires_at agreement \<le> head) then parts
     else if expires_later head (st_expires_at agreement) (mc_agreement_life (an_config a))
     then parts\<lparr>rf_expiring_later := Suc (rf_expiring_later parts)\<rparr>
     else parts\<lparr>rf_batch := batch_push (Extend \<lparr>eo_entity_key = key,
            eo_expiration = Seconds (as_secs (mc_agreement_life (an_config a)))\<rparr>) (rf_batch parts)\<rparr>)"

definition refresh_batch :: "'w agent \<Rightarrow> u64 option \<Rightarrow> pool \<Rightarrow> known_agreements \<Rightarrow> refresh_parts" where
  "refresh_batch a head pool known =
     (let parts =
        (if expires_later head (an_listing_expires_at a) (mc_listing_life (an_config a))
         then \<lparr>rf_batch = [], rf_ineligible = 0, rf_expiring_later = 1\<rparr>
         else \<lparr>rf_batch = batch_push (Extend \<lparr>eo_entity_key = an_listing_key a,
                 eo_expiration = Seconds (as_secs (mc_listing_life (an_config a)))\<rparr>) [],
               rf_ineligible = 0, rf_expiring_later = 0\<rparr>)
      in fold (refresh_one a head pool) known parts)"

definition gas_balance :: "'w agent \<Rightarrow> 'w \<Rightarrow> 'w \<times> u256 option \<times> bool" where
  "gas_balance a w =
     (case rd_balance (an_reader a) w (id_address (an_identity a)) of
        (w, Inr balance) \<Rightarrow> (w, Some balance, balance < mc_gas_warn_below (an_config a))
      | (w, Inl _) \<Rightarrow> (w, None, False))"

definition refresh :: "'e agent_in \<Rightarrow> 'e world \<Rightarrow> 'e world \<times> nat" where
  "refresh a w =
     (let (w, balance, low) = gas_balance a w;
          (w, head) = (case rd_block_number (an_reader a) w of
              (w, Inr head) \<Rightarrow> (w, Some head) | (w, Inl _) \<Rightarrow> (w, None));
          parts = refresh_batch a head (wo_pool w) (wo_known w);
          (w, sents) = send (an_writer a) w (rf_batch parts)
      in (w, sum_list (map (\<lambda>sent. case sn_result sent of
            Inr result \<Rightarrow> length (br_extended_entities result) | Inl _ \<Rightarrow> 0) sents)))"

section \<open>A tunnel's admission\<close>

definition ADMISSION_POLL :: duration where
  "ADMISSION_POLL = 200000000"

partial_function (option) admission_wait ::
    "'e agent_in \<Rightarrow> pref \<Rightarrow> instant \<Rightarrow> 'e world \<Rightarrow> ('e world \<times> bool) option" where
  "admission_wait a provider deadline w =
     (if healthy (entry (wo_pool w) provider) then Some (w, True)
      else if deadline \<le> wo_now w then Some (w, False)
      else admission_wait a provider deadline (an_sleep a w ADMISSION_POLL))"

datatype admission_end = ProbesDidNotPass | ServesWrongData | RecordExtended | ExtendFailed

definition admission_extend :: "'e agent_in \<Rightarrow> entity_key \<Rightarrow> 'e world \<Rightarrow> 'e world \<times> admission_end" where
  "admission_extend a agreement w =
     (case w_extend (an_writer a) w \<lparr>eo_entity_key = agreement,
             eo_expiration = Seconds (as_secs (mc_agreement_life (an_config a)))\<rparr> of
        (w, Inr extended) \<Rightarrow>
          (w\<lparr>wo_known := al_modify agreement
               (\<lambda>live. live\<lparr>lv_agreement := (lv_agreement live)\<lparr>st_expires_at := xd_expires_at extended\<rparr>\<rparr>)
               (wo_known w)\<rparr>, RecordExtended)
      | (w, Inl _) \<Rightarrow> (w, ExtendFailed))"

definition admission ::
    "'e agent_in \<Rightarrow> pref \<Rightarrow> entity_key \<Rightarrow> 'e world \<Rightarrow> ('e world \<times> admission_end) option" where
  "admission a provider agreement w =
     Option.bind (admission_wait a provider (wo_now w + mc_offer_max_lifetime (an_config a)) w)
       (\<lambda>(w, passed).
         if \<not> passed then Some (w, ProbesDidNotPass)
         else case an_integrity a of
                None \<Rightarrow> Some (admission_extend a agreement w)
              | Some integrity \<Rightarrow>
                  (let w = integrity w provider
                   in if serving_wrong_data (entry (wo_pool w) provider) then Some (w, ServesWrongData)
                      else Some (admission_extend a agreement w)))"

text \<open>\<open>admitted\<close>: the number of the task it spawns, when it spawns one.\<close>

definition admitted :: "'e agent_in \<Rightarrow> agreement stored \<Rightarrow> 'e world \<Rightarrow> 'e world \<times> nat option" where
  "admitted a agreement w =
     (case provider_entry (st_key agreement) w of
        None \<Rightarrow> (w, None)
      | Some provider \<Rightarrow>
          (let w = w\<lparr>wo_pool := entry_update provider (schedule_probe_now (wo_now w)) (wo_pool w)\<rparr>
           in case map_of (wo_known w) (st_key agreement) of
                None \<Rightarrow> (w, None)
              | Some live \<Rightarrow>
                  if was_extended live (mc_agreement_life (an_config a))
                     \<or> (case lv_admission_task live of None \<Rightarrow> False | Some task \<Rightarrow> task \<in> wo_tasks w)
                  then (w, None)
                  else
                    (let task = wo_spawned w
                     in (w\<lparr>wo_known := al_modify (st_key agreement)
                             (\<lambda>live. live\<lparr>lv_admission_task := Some task\<rparr>) (wo_known w),
                           wo_tasks := insert task (wo_tasks w), wo_spawned := Suc task\<rparr>, Some task))))"

section \<open>The listing and the start\<close>

datatype start_error =
    Sidecar write_error
  | StartChain read_error
  | TooManyAgreements u64
  | ListingWrite write_error
  | TooManyCounters u64

definition ensure_listing ::
    "libs \<Rightarrow> 'w chain_reader \<Rightarrow> 'w chain_writer \<Rightarrow> marketplace_config \<Rightarrow> address \<Rightarrow> u64 \<Rightarrow> 'w \<Rightarrow>
       'w \<times> (start_error + entity_key \<times> u64)" where
  "ensure_listing L reader writer config lb head w =
     (let desired = \<lparr>ll_wei_per_call = mc_wei_per_call config, ll_tunnel_server = mc_tunnel_server config,
            ll_max_providers = mc_max_providers config\<rparr>;
          query = query_expires_after head (query_creator lb (query_kind KIND_LB_LISTING))
      in sbind (serr StartChain (rd_query reader w query)) (\<lambda>w page.
         case sort_key creation (decode_page L KIND_LB_LISTING listing_decode_fields page) of
           [] \<Rightarrow>
             sbind (serr ListingWrite (w_create writer w
                 (create_new (listing_encode L desired) (Seconds (as_secs (mc_listing_life config))))))
               (\<lambda>w created. (w, Inr (cd_entity_key created, cd_expires_at created)))
         | kept # _ \<Rightarrow>
             if st_record kept = desired then (w, Inr (st_key kept, st_expires_at kept))
             else
               sbind (serr ListingWrite (w_patch writer w
                   \<lparr>po_entity_key = st_key kept, po_set = keep (listing_encode L desired) [PAYLOAD_ATTRIBUTE]\<rparr>))
                 (\<lambda>w _. (w, Inr (st_key kept, st_expires_at kept)))))"

definition with_integrity :: "('w \<Rightarrow> pref \<Rightarrow> 'w) \<Rightarrow> 'w agent \<Rightarrow> 'w agent" where
  "with_integrity integrity a = a\<lparr>an_integrity := Some integrity\<rparr>"

definition agent_of ::
    "'w chain_reader \<Rightarrow> 'w chain_writer \<Rightarrow> marketplace_config \<Rightarrow> ('w \<Rightarrow> u16 \<Rightarrow> 'w \<times> bool) \<Rightarrow>
       ('w \<Rightarrow> duration \<Rightarrow> 'w) \<Rightarrow> identity \<Rightarrow> 'w agent" where
  "agent_of reader writer config bound sleep identity =
     \<lparr>an_reader = reader, an_writer = writer, an_config = config, an_identity = identity,
      an_listing_key = 0, an_listing_expires_at = 0, an_integrity = None,
      an_port_bound = bound, an_sleep = sleep\<rparr>"

definition start ::
    "libs \<Rightarrow> 'e world chain_reader \<Rightarrow> 'e world chain_writer \<Rightarrow> marketplace_config \<Rightarrow>
       ('e world \<Rightarrow> u16 \<Rightarrow> 'e world \<times> bool) \<Rightarrow> ('e world \<Rightarrow> duration \<Rightarrow> 'e world) \<Rightarrow> 'e world \<Rightarrow>
       'e world \<times> (start_error + 'e agent_in)" where
  "start L reader writer config bound sleep w =
     sbind (serr Sidecar (w_identity writer w)) (\<lambda>w identity.
       let a = agent_of reader writer config bound sleep identity;
           w = w\<lparr>wo_known := []\<rparr>
       in sbind (serr (\<lambda>e. case e of ChainRead e \<Rightarrow> StartChain e | TooMany _ n \<Rightarrow> TooManyAgreements n)
                  (reconcile_agreements L a w)) (\<lambda>w head.
          sbind (serr (\<lambda>e. case e of ChainRead e \<Rightarrow> StartChain e | TooMany _ n \<Rightarrow> TooManyCounters n)
                  (reconcile_counters L a head w)) (\<lambda>w _.
          sbind (serr StartChain (rd_block_number reader w)) (\<lambda>w head.
          sbind (ensure_listing L reader writer config (id_address identity) head w) (\<lambda>w (key, expires_at).
            (w, Inr (a\<lparr>an_listing_key := key, an_listing_expires_at := expires_at\<rparr>)))))))"

end
