(* ===== verification/Settlement.thy ===== *)
theory Settlement
  imports Discovery
begin

text \<open>
  \<open>crates/lb/src/marketplace/agent.rs\<close>: the flush, which writes what each provider served into
  its agreement's counter record, closes the records whose settlement period is over and opens
  their successors; and the task that runs the polls, the refreshes and the flushes.
\<close>

section \<open>The flush\<close>

record landed =
  ld_patched :: "entity_key list"
  ld_created :: nat
  ld_deleted :: nat

record closing =
  cl_agreement :: entity_key
  cl_counter :: entity_key
  cl_count :: u64

definition counted :: "counter_record stored \<Rightarrow> u64 \<Rightarrow> counter_record" where
  "counted stored n = (st_record stored)\<lparr>cr_count := n\<rparr>"

definition closed :: "counter_record \<Rightarrow> u64 \<Rightarrow> u64 \<Rightarrow> counter_record" where
  "closed record n head = record\<lparr>cr_count := n, cr_state := Closed, cr_closed_block := Some head\<rparr>"

definition fresh_counter :: "libs \<Rightarrow> 'w agent \<Rightarrow> entity_key \<Rightarrow> agreement \<Rightarrow> u64 \<Rightarrow> operation" where
  "fresh_counter L a key record head =
     Create (create_new
       (counter_encode L \<lparr>cr_agreement = key, cr_provider = ag_provider record, cr_state = Open, cr_count = 0,
          cr_wei_per_call = ag_wei_per_call record, cr_opened_block = head, cr_closed_block = None\<rparr>)
       (Seconds (as_secs (mc_counter_record_life (an_config a)))))"

definition stray_operation :: "libs \<Rightarrow> u64 \<Rightarrow> counter_record stored \<Rightarrow> operation" where
  "stray_operation L head stray =
     (if cr_count (st_record stray) = 0 then Delete \<lparr>do_entity_key = st_key stray\<rparr>
      else Patch (patch_record L (st_key stray) (closed (st_record stray) (cr_count (st_record stray)) head)))"

definition flush_one ::
    "libs \<Rightarrow> 'w agent \<Rightarrow> counters \<Rightarrow> u64 \<Rightarrow> flush_kind \<Rightarrow> pool \<Rightarrow> entity_key \<times> live \<Rightarrow>
       batch \<times> closing list \<Rightarrow> batch \<times> closing list" where
  "flush_one L a counters head flush pool = (\<lambda>(key, live) (batch, closing).
     let period = blocks (mc_settlement_period (an_config a));
         record = st_record (lv_agreement live);
         served = p_served (entry pool (lv_provider live))
     in case map_of (ct_open counters) key of
          Some stored \<Rightarrow>
            if flush = ScheduledFlush \<and> served > 0 \<and> head \<ge> cr_opened_block (st_record stored) + period
            then (batch_push (Patch (patch_record L (st_key stored) (closed (st_record stored) served head))) batch,
                  closing @ [\<lparr>cl_agreement = key, cl_counter = st_key stored, cl_count = served\<rparr>])
            else if cr_count (st_record stored) = served then (batch, closing)
            else (batch_push (Patch (patch_record L (st_key stored) (counted stored served))) batch, closing)
        | None \<Rightarrow>
            if flush = StopFlush then (batch, closing)
            else (batch_push (fresh_counter L a key record head) batch, closing))"

definition counts_batch ::
    "libs \<Rightarrow> 'w agent \<Rightarrow> counters \<Rightarrow> u64 \<Rightarrow> flush_kind \<Rightarrow> pool \<Rightarrow> known_agreements \<Rightarrow> batch \<times> closing list" where
  "counts_batch L a counters head flush pool known =
     (let batch =
        (if flush = ScheduledFlush then
           fold (\<lambda>stray. batch_push (stray_operation L head stray)) (ct_strays counters)
             (fold (\<lambda>duplicate. batch_push (Delete \<lparr>do_entity_key = duplicate\<rparr>)) (ct_duplicates counters) [])
         else [])
      in fold (flush_one L a counters head flush pool) known (batch, []))"

definition end_period ::
    "libs \<Rightarrow> 'w agent \<Rightarrow> landed \<Rightarrow> u64 \<Rightarrow> closing \<Rightarrow> batch \<times> pool \<times> known_agreements \<Rightarrow>
       batch \<times> pool \<times> known_agreements" where
  "end_period L a landed head close = (\<lambda>(successors, pool, known).
     if cl_counter close \<notin> set (ld_patched landed) then (successors, pool, known)
     else case map_of known (cl_agreement close) of
            None \<Rightarrow> (successors, pool, known)
          | Some live \<Rightarrow>
              (batch_push (fresh_counter L a (cl_agreement close) (st_record (lv_agreement live)) head) successors,
               entry_update (lv_provider live) (subtract_served (cl_count close)) pool,
               al_modify (cl_agreement close) (\<lambda>l. l\<lparr>lv_counter := None\<rparr>) known))"

definition end_periods ::
    "libs \<Rightarrow> 'e agent_in \<Rightarrow> closing list \<Rightarrow> landed \<Rightarrow> u64 \<Rightarrow> 'e world \<Rightarrow> batch \<times> 'e world" where
  "end_periods L a closing landed head w =
     (let (successors, pool, known) =
        fold (end_period L a landed head) closing ([], wo_pool w, wo_known w)
      in (successors, w\<lparr>wo_pool := pool, wo_known := known\<rparr>))"

text \<open>What a batch landed, and whether an answer named fewer patches than the batch made.\<close>

definition unnamed_patches :: "batch \<Rightarrow> batch_result \<Rightarrow> bool" where
  "unnamed_patches batch result \<longleftrightarrow> length (br_patched_entities result) \<noteq> length (patches batch)"

definition landed_default :: landed where
  "landed_default = \<lparr>ld_patched = [], ld_created = 0, ld_deleted = 0\<rparr>"

definition landed_one :: "sent \<Rightarrow> landed \<Rightarrow> landed" where
  "landed_one sent landed =
     (case sn_result sent of
        Inr result \<Rightarrow>
          \<lparr>ld_patched = ld_patched landed @ br_patched_entities result,
           ld_created = ld_created landed + length (br_created_entities result),
           ld_deleted = ld_deleted landed + length (br_deleted_entities result)\<rparr>
      | Inl _ \<Rightarrow> landed)"

definition send_flush :: "'w agent \<Rightarrow> batch \<Rightarrow> 'w \<Rightarrow> 'w \<times> landed" where
  "send_flush a batch w =
     (if batch = [] then (w, landed_default)
      else case send (an_writer a) w batch of (w, sents) \<Rightarrow> (w, fold landed_one sents landed_default))"

record flush_report =
  fr_patched :: nat
  fr_closed :: nat
  fr_opened :: nat
  fr_deleted :: nat

definition flush_with :: "libs \<Rightarrow> 'e agent_in \<Rightarrow> flush_kind \<Rightarrow> 'e world \<Rightarrow> 'e world \<times> flush_report option" where
  "flush_with L a flush w =
     (case rd_block_number (an_reader a) w of
        (w, Inl _) \<Rightarrow> (w, None)
      | (w, Inr head) \<Rightarrow>
          (case reconcile_counters L a head w of
             (w, Inl _) \<Rightarrow> (w, None)
           | (w, Inr counters) \<Rightarrow>
               (let (counts, closing) = counts_batch L a counters head flush (wo_pool w) (wo_known w);
                    (w, landed) = send_flush a counts w;
                    (successors, w) = end_periods L a closing landed head w;
                    closed_periods = length successors;
                    (w, followed) = send_flush a successors w
                in (w, Some \<lparr>fr_patched = length (ld_patched landed) - closed_periods,
                     fr_closed = closed_periods, fr_opened = ld_created landed + ld_created followed,
                     fr_deleted = ld_deleted landed\<rparr>))))"

definition flush :: "libs \<Rightarrow> 'e agent_in \<Rightarrow> 'e world \<Rightarrow> 'e world" where
  "flush L a w = fst (flush_with L a ScheduledFlush w)"

definition shutdown_flush :: "libs \<Rightarrow> 'e agent_in \<Rightarrow> 'e world \<Rightarrow> 'e world" where
  "shutdown_flush L a w = fst (flush_with L a StopFlush w)"

section \<open>The task\<close>

text \<open>
  The loop over \<open>select!\<close>, by the branch each turn takes; what passes while it waits for one is
  the environment's. The shutdown branch is the last.
\<close>

datatype agent_tick = DiscoveryTick | RefreshTick | FlushTick | ShutdownSignal

fun agent_run :: "libs \<Rightarrow> 'e agent_in \<Rightarrow> ('e world \<Rightarrow> 'e world) \<Rightarrow> agent_tick list \<Rightarrow> 'e world \<Rightarrow> 'e world" where
  "agent_run L a wait [] w = w"
| "agent_run L a wait (tick # ticks) w =
     (let w = wait w
      in case tick of
           DiscoveryTick \<Rightarrow> agent_run L a wait ticks (discovery_poll L a w)
         | RefreshTick \<Rightarrow> agent_run L a wait ticks (fst (refresh a w))
         | FlushTick \<Rightarrow> agent_run L a wait ticks (flush L a w)
         | ShutdownSignal \<Rightarrow> shutdown_flush L a w)"

end
