(* ===== verification/Rely.thy ===== *)
theory Rely
  imports Agent Clients
begin

text \<open>
  What the agent relies on while it awaits: the other tasks of the process serve traffic, probe,
  judge, move the cursor, extend an agreement whose tunnel was admitted and note which admission
  runs, but none of them adds or drops an agreement or a pool entry, or touches a counter record.
  The contract is the locale \<open>steady\<close>; it is met by an agent over the HTTP clients, whatever the
  answers and whichever steps of the other tasks fall into each await.
\<close>

section \<open>The contract\<close>

definition core :: "known_agreements \<Rightarrow> (entity_key \<times> entity_key \<times> agreement \<times> pref \<times> open_counter option) list" where
  "core known = map (\<lambda>(k, l). (k, st_key (lv_agreement l), st_record (lv_agreement l), lv_provider l, lv_counter l)) known"

definition kept :: "'e world \<Rightarrow> 'e world \<Rightarrow> bool" where
  "kept w w' \<longleftrightarrow> core (wo_known w') = core (wo_known w) \<and>
     pl_members (wo_pool w') = pl_members (wo_pool w) \<and> pl_fresh (wo_pool w') = pl_fresh (wo_pool w) \<and>
     (\<forall>r. p_id (entry (wo_pool w') r) = p_id (entry (wo_pool w) r) \<and>
          p_source (entry (wo_pool w') r) = p_source (entry (wo_pool w) r))"

lemma kept_refl [simp]: "kept w w" and kept_trans: "kept w w' \<Longrightarrow> kept w' w'' \<Longrightarrow> kept w w''"
  by (auto simp: kept_def)

lemma sketch_core: "sketch known = map (\<lambda>(k, sk, r, p, _). (k, ag_provider r, ag_remote_port r, p, sk)) (core known)"
  by (simp add: sketch_def core_def o_def split_def)

lemma kept_sketch: "kept w w' \<Longrightarrow> sketch (wo_known w') = sketch (wo_known w)"
  by (simp add: sketch_core kept_def)

text \<open>What the invariants need of an operation that does touch the counter records.\<close>

definition framed :: "'e world \<Rightarrow> 'e world \<Rightarrow> bool" where
  "framed w w' \<longleftrightarrow> sketch (wo_known w') = sketch (wo_known w) \<and>
     pl_members (wo_pool w') = pl_members (wo_pool w) \<and> pl_fresh (wo_pool w') = pl_fresh (wo_pool w) \<and>
     (\<forall>r. p_id (entry (wo_pool w') r) = p_id (entry (wo_pool w) r) \<and>
          p_source (entry (wo_pool w') r) = p_source (entry (wo_pool w) r))"

lemma framed_refl [simp]: "framed w w" and framed_trans: "framed w w' \<Longrightarrow> framed w' w'' \<Longrightarrow> framed w w''"
  and kept_framed: "kept w w' \<Longrightarrow> framed w w'"
  by (auto simp: framed_def kept_sketch) (simp_all add: kept_def)

lemma framed_wf:
  assumes "framed w w'"
  shows "memory_wf (wo_known w') \<longleftrightarrow> memory_wf (wo_known w)"
    and "linked L (wo_pool w') (wo_known w') \<longleftrightarrow> linked L (wo_pool w) (wo_known w)"
    and "map fst (wo_known w') = map fst (wo_known w)" "slots (wo_known w') = slots (wo_known w)"
proof -
  note f = assms [unfolded framed_def]
  note c = sketch_cong [OF f [THEN conjunct1]]
  show "memory_wf (wo_known w') \<longleftrightarrow> memory_wf (wo_known w)"
    "map fst (wo_known w') = map fst (wo_known w)" "slots (wo_known w') = slots (wo_known w)"
    using c by blast+
  have "pool_wf (wo_pool w') \<longleftrightarrow> pool_wf (wo_pool w)"
    using f by (simp add: pool_wf_def)
  then have "linked L (wo_pool w') (wo_known w) \<longleftrightarrow> linked L (wo_pool w) (wo_known w)"
    using f unfolding linked_def by simp
  with c(2) show "linked L (wo_pool w') (wo_known w') \<longleftrightarrow> linked L (wo_pool w) (wo_known w)" by blast
qed

lemmas kept_wf = framed_wf [OF kept_framed]

locale steady =
  fixes a :: "'e agent_in"
  assumes number_keeps: "kept w (fst (rd_block_number (an_reader a) w))"
    and balance_keeps: "kept w (fst (rd_balance (an_reader a) w account))"
    and query_keeps: "kept w (fst (rd_query (an_reader a) w q))"
    and count_keeps: "kept w (fst (rd_count (an_reader a) w q))"
    and identity_keeps: "kept w (fst (w_identity (an_writer a) w))"
    and create_keeps: "kept w (fst (w_create (an_writer a) w c))"
    and patch_keeps: "kept w (fst (w_patch (an_writer a) w p))"
    and extend_keeps: "kept w (fst (w_extend (an_writer a) w e))"
    and batch_keeps: "kept w (fst (w_execute_batch (an_writer a) w b))"
    and port_keeps: "kept w (fst (an_port_bound a w port))"
begin

lemma send_keeps: "kept w (fst (send (an_writer a) w b))"
proof -
  have "kept w (fst (send_loop (w_execute_batch (an_writer a)) w queue))" for queue
  proof (induction w queue rule: send_loop_rule [of _ "w_execute_batch (an_writer a)"])
    case (Split w chunk queue w' result first second)
    with batch_keeps [of w chunk] show ?case
      by (simp add: send_loop_split) (metis kept_trans fst_conv)
  next
    case (Report w chunk queue w' result)
    with batch_keeps [of w chunk] show ?case
      by (simp add: send_loop_report) (metis kept_trans fst_conv)
  qed simp
  then show ?thesis by (simp add: send_def)
qed

text \<open>A sequence of awaits keeps what each keeps.\<close>

lemma sbind_keeps:
  assumes "kept w (fst x)" and "\<And>w' v. x = (w', Inr v) \<Longrightarrow> kept w' (fst (f w' v))"
  shows "kept w (fst (sbind x f))"
  using assms by (cases "(x, f)" rule: sbind.cases) (auto intro: kept_trans)

lemma serr_keeps: "kept w (fst (serr g x)) \<longleftrightarrow> kept w (fst x)"
  by (cases x) simp

lemma read_agreements_keeps: "kept w (fst (read_agreements L a head w))"
  unfolding read_agreements_def Let_def
  by (intro sbind_keeps) (auto simp: serr_keeps count_keeps query_keeps intro!: sbind_keeps)

lemma read_open_counters_keeps: "kept w (fst (read_open_counters L a head w))"
  unfolding read_open_counters_def Let_def
  by (intro sbind_keeps) (auto simp: serr_keeps count_keeps query_keeps intro!: sbind_keeps)

lemma closed_count_keeps: "kept w (fst (closed_count L a counter w))"
  unfolding closed_count_def Let_def
  by (intro sbind_keeps) (auto simp: serr_keeps query_keeps)

lemma closed_counts_keeps: "kept w (fst (closed_counts L a missing w))"
proof (induction missing arbitrary: w)
  case (Cons x missing)
  then show ?case
    by (cases x) (auto intro!: sbind_keeps simp: closed_count_keeps)
qed simp

lemma close_ended_keeps: "kept w (close_ended L a ended head w)"
  unfolding close_ended_def Let_def by (rule send_keeps)

end

section \<open>The other tasks\<close>

datatype other_step =
    EntryEvent pref u32 instant provider_event
  | ProbeScheduled pref instant
  | CursorMoved u64
  | OutcomeCounted lb_outcomes
  | ExpiryLearned entity_key u64
  | TaskNoted entity_key nat
  | TaskFinished nat
  | TimePassed duration

text \<open>The agent alone seeds and subtracts.\<close>

fun agents_own :: "provider_event \<Rightarrow> bool" where
  "agents_own (PeriodSubtracted _) = True"
| "agents_own (PeriodSeeded _) = True"
| "agents_own _ = False"

fun other_apply :: "other_step \<Rightarrow> 'e world \<Rightarrow> 'e world" where
  "other_apply (EntryEvent r f now ev) w =
     (if agents_own ev then w else w\<lparr>wo_pool := entry_update r (provider_apply f now ev) (wo_pool w)\<rparr>)"
| "other_apply (ProbeScheduled r at) w =
     w\<lparr>wo_pool := entry_update r (\<lambda>p. p\<lparr>p_next_probe := at\<rparr>) (wo_pool w)\<rparr>"
| "other_apply (CursorMoved c) w = w\<lparr>wo_pool := (wo_pool w)\<lparr>pl_cursor := c\<rparr>\<rparr>"
| "other_apply (OutcomeCounted out) w = w\<lparr>wo_pool := (wo_pool w)\<lparr>pl_outcomes := out\<rparr>\<rparr>"
| "other_apply (ExpiryLearned key block) w = w\<lparr>wo_known := al_modify key
     (\<lambda>live. live\<lparr>lv_agreement := (lv_agreement live)\<lparr>st_expires_at := block\<rparr>\<rparr>) (wo_known w)\<rparr>"
| "other_apply (TaskNoted key task) w = w\<lparr>
     wo_known := al_modify key (\<lambda>live. live\<lparr>lv_admission_task := Some task\<rparr>) (wo_known w),
     wo_tasks := insert task (wo_tasks w), wo_spawned := Suc task\<rparr>"
| "other_apply (TaskFinished task) w = w\<lparr>wo_tasks := wo_tasks w - {task}\<rparr>"
| "other_apply (TimePassed d) w = w\<lparr>wo_now := wo_now w + d\<rparr>"

lemmas touch_defs = schedule_probe_now_def take_chain_check_due_def record_unanswered_probe_def
  record_answered_probe_def record_answer_def record_transport_failure_def record_probe_duration_def
  record_height_def record_integrity_def quarantine_def

lemma provider_apply_frame:
  "p_id (provider_apply f now ev p) = p_id p \<and> p_source (provider_apply f now ev p) = p_source p \<and>
   (\<not> agents_own ev \<longrightarrow>
      p_served (provider_apply f now ev p) = p_served p + (if ev = RequestServed then 1 else 0))"
  by (cases ev) (simp_all add: touch_defs record_health_source_def frame_simps Let_def split: verdict.split)

lemmas provider_apply_ids [simp] = provider_apply_frame [THEN conjunct1]
  provider_apply_frame [THEN conjunct2, THEN conjunct1]

lemma entry_cursor [simp]:
  "entry (pool\<lparr>pl_cursor := c\<rparr>) = entry pool" "entry (pool\<lparr>pl_outcomes := out\<rparr>) = entry pool"
  by (simp_all add: entry_def fun_eq_iff)

lemma core_al_modify:
  assumes "\<And>l. (st_key (lv_agreement (f l)), st_record (lv_agreement (f l)), lv_provider (f l), lv_counter (f l)) =
    (st_key (lv_agreement l), st_record (lv_agreement l), lv_provider l, lv_counter l)"
  shows "core (al_modify k f known) = core known"
  using assms by (auto simp: core_def al_modify_def)

lemma other_keeps: "kept w (other_apply step w)"
  by (cases step) (simp_all add: kept_def core_al_modify)

lemma others_keep: "kept w (fold other_apply steps w)"
  by (induction steps arbitrary: w) (auto intro: kept_trans other_keeps)

section \<open>An agent over the HTTP clients\<close>

text \<open>
  The environment is a script: the exchange each request of the process ends with, the steps the
  other tasks take until it is answered, and the ports something listens on.
\<close>

record script =
  sc_exchange :: "nat \<Rightarrow> exchange"
  sc_others :: "nat \<Rightarrow> other_step list"
  sc_bound :: "nat \<Rightarrow> u16 \<Rightarrow> bool"
  sc_turn :: nat

definition await :: "script world \<Rightarrow> script world" where
  "await w = fold other_apply (sc_others (wo_env w) (sc_turn (wo_env w)))
     (w\<lparr>wo_env := (wo_env w)\<lparr>sc_turn := Suc (sc_turn (wo_env w))\<rparr>\<rparr>)"

definition scripted_exchange :: "script world \<Rightarrow> script world \<times> exchange" where
  "scripted_exchange w = (await w, sc_exchange (wo_env w) (sc_turn (wo_env w)))"

definition scripted_port :: "script world \<Rightarrow> u16 \<Rightarrow> script world \<times> bool" where
  "scripted_port w port = (await w, sc_bound (wo_env w) (sc_turn (wo_env w)) port)"

definition http_agent ::
    "libs \<Rightarrow> (json \<Rightarrow> u256 option) \<Rightarrow> u32 \<Rightarrow> nat \<Rightarrow> marketplace_config \<Rightarrow> identity \<Rightarrow> entity_key \<Rightarrow> u64 \<Rightarrow> script agent_in" where
  "http_agent L quantity ident cap config identity listing_key listing_expires_at =
     \<lparr>an_reader = reader_over L quantity ident (\<lambda>w _. scripted_exchange w) (reader_new cap),
      an_writer = writer_over L (\<lambda>w _ _. scripted_exchange w),
      an_config = config, an_identity = identity, an_listing_key = listing_key,
      an_listing_expires_at = listing_expires_at, an_integrity = None,
      an_port_bound = scripted_port, an_sleep = (\<lambda>w d. other_apply (TimePassed d) (await w))\<rparr>"

lemma await_keeps: "kept w (await w)"
proof -
  have "kept w (w\<lparr>wo_env := (wo_env w)\<lparr>sc_turn := Suc (sc_turn (wo_env w))\<rparr>\<rparr>)"
    by (simp add: kept_def)
  then show ?thesis unfolding await_def by (rule kept_trans) (rule others_keep)
qed

interpretation http: steady "http_agent L quantity ident cap config identity listing_key listing_expires_at"
  by unfold_locales
    (simp_all add: http_agent_def reader_over_frame writer_over_frame scripted_exchange_def
      scripted_port_def await_keeps)

text \<open>
  An agent over a shelf: a chain at block 100 that answers each query with the entities on it, and
  a sidecar that accepts every write, with a key that no agreement has, of four, for a new entity.
  No other task runs.
\<close>

definition shelf_reader :: "(query \<Rightarrow> arkiv_entity list) \<Rightarrow> 'w chain_reader" where
  "shelf_reader shelf = \<lparr>rd_block_number = (\<lambda>w. (w, Inr 100)), rd_block = (\<lambda>w _. (w, Inr None)),
     rd_balance = (\<lambda>w _. (w, Inr 0)),
     rd_query = (\<lambda>w q. (w, Inr \<lparr>pg_entities = shelf q, pg_more = False, pg_block = 100\<rparr>)),
     rd_count = (\<lambda>w q. (w, Inr (word_of_nat (length (shelf q)))))\<rparr>"

definition shelf_writer :: "'e world chain_writer" where
  "shelf_writer = \<lparr>w_identity = (\<lambda>w. (w, Inr \<lparr>id_address = 1, id_chain_id = 1\<rparr>)),
     w_create = (\<lambda>w _. (w, case find (\<lambda>k. k \<notin> held_keys (wo_known w)) [31, 32, 33, 34] of
        Some k \<Rightarrow> Inr \<lparr>cd_entity_key = k, cd_tx_hash = [], cd_expires_at = 400\<rparr> | None \<Rightarrow> Inl (Refused []))),
     w_patch = (\<lambda>w p. (w, Inr \<lparr>wr_entity_key = po_entity_key p, wr_tx_hash = []\<rparr>)),
     w_delete = (\<lambda>w d. (w, Inr \<lparr>wr_entity_key = do_entity_key d, wr_tx_hash = []\<rparr>)),
     w_extend = (\<lambda>w e. (w, Inr \<lparr>xd_entity_key = eo_entity_key e, xd_tx_hash = [], xd_expires_at = 500\<rparr>)),
     w_execute_batch = (\<lambda>w b. (w, Inr \<lparr>br_tx_hash = [],
        br_created_entities = map (\<lambda>_. 31) (creates b),
        br_patched_entities = map po_entity_key (patches b),
        br_deleted_entities = map do_entity_key (deletes b),
        br_extended_entities = map eo_entity_key (extensions b)\<rparr>))\<rparr>"

definition shelf_agent :: "(query \<Rightarrow> arkiv_entity list) \<Rightarrow> 'e agent_in" where
  "shelf_agent shelf = \<lparr>an_reader = shelf_reader shelf, an_writer = shelf_writer,
     an_config = default_market, an_identity = \<lparr>id_address = 1, id_chain_id = 1\<rparr>,
     an_listing_key = 4, an_listing_expires_at = 200, an_integrity = None,
     an_port_bound = (\<lambda>w port. (w, port = 20000)), an_sleep = (\<lambda>w d. other_apply (TimePassed d) w)\<rparr>"

lemma shelf_simps [simp]:
  "rd_block_number (an_reader (shelf_agent shelf)) w = (w, Inr 100)"
  "rd_query (an_reader (shelf_agent shelf)) w q = (w, Inr \<lparr>pg_entities = shelf q, pg_more = False, pg_block = 100\<rparr>)"
  "rd_count (an_reader (shelf_agent shelf)) w q = (w, Inr (word_of_nat (length (shelf q))))"
  "rd_balance (an_reader (shelf_agent shelf)) w account = (w, Inr 0)"
  "an_writer (shelf_agent shelf) = shelf_writer" "an_config (shelf_agent shelf) = default_market"
  "an_identity (shelf_agent shelf) = \<lparr>id_address = 1, id_chain_id = 1\<rparr>"
  "an_listing_key (shelf_agent shelf) = 4" "an_listing_expires_at (shelf_agent shelf) = 200"
  "an_integrity (shelf_agent shelf) = None" "an_port_bound (shelf_agent shelf) w port = (w, port = 20000)"
  "an_sleep (shelf_agent shelf) w d = other_apply (TimePassed d) w"
  by (simp_all add: shelf_agent_def shelf_reader_def)

interpretation shelf: steady "shelf_agent shelf"
  by unfold_locales (simp_all add: shelf_writer_def)

end
