(* ===== verification/Counters.thy ===== *)
theory Counters
  imports Rely
begin

text \<open>
  The counter records' reconcile: which of several open records counts, what a lost answer takes
  off an entry, what a restart adds to one, and that each happens once.
\<close>

section \<open>The record an agreement counts into\<close>

lemma oldest_fold:
  assumes "fold oldest_one rs (old, dups) = (old', dups')" "distinct (map fst old)"
  shows "distinct (map fst old') \<and>
    (\<forall>k. map_of old' k = (case map_of old k of Some st \<Rightarrow> Some st
       | None \<Rightarrow> find (\<lambda>st. cr_agreement (st_record st) = k) rs)) \<and>
    mset (map (st_key \<circ> snd) old') + mset dups' =
      mset (map (st_key \<circ> snd) old) + mset dups + mset (map st_key rs)"
  using assms
proof (induction rs arbitrary: old dups)
  case Nil
  then show ?case by (simp split: option.split)
next
  case (Cons st rs)
  let ?k = "cr_agreement (st_record st)"
  show ?case
  proof (cases "map_of old ?k")
    case None
    then have new: "?k \<notin> fst ` set old" by (simp add: map_of_eq_None_iff)
    let ?old = "old @ [(?k, st)]"
    have "oldest_one st (old, dups) = (?old, dups)"
      using None new by (simp add: oldest_one_def Let_def update_new)
    then have "fold oldest_one rs (?old, dups) = (old', dups')"
      using Cons.prems(1) by simp
    moreover have "distinct (map fst ?old)" using Cons.prems(2) new by simp
    ultimately show ?thesis
      using Cons.IH [of ?old dups] None by (auto simp: map_add_def split: option.splits)
  next
    case (Some x)
    have "oldest_one st (old, dups) = (old, dups @ [st_key st])"
      using Some by (simp add: oldest_one_def Let_def)
    then have "fold oldest_one rs (old, dups @ [st_key st]) = (old', dups')"
      using Cons.prems(1) by simp
    with Cons.IH [OF _ Cons.prems(2)] Some show ?thesis by (auto split: option.splits)
  qed
qed

lemma find_sorted_least:
  assumes "sorted (map f rs)" "find P rs = Some x"
  shows "x \<in> set rs \<and> P x \<and> (\<forall>y \<in> set rs. P y \<longrightarrow> f x \<le> f y)"
  using assms by (induction rs) (auto split: if_splits)

lemma find_NoneD: "find P rs = None \<longleftrightarrow> (\<forall>x \<in> set rs. \<not> P x)"
  by (auto simp: find_None_iff)

section \<open>Counts forgotten and seeded\<close>

lemma map_al_modify_keys:
  "distinct (map fst known) \<Longrightarrow> k \<notin> K \<Longrightarrow>
   map (\<lambda>(j, l). (j, if j \<in> K then g l else l)) (al_modify k g known) =
     map (\<lambda>(j, l). (j, if j \<in> insert k K then g l else l)) known"
  by (auto simp: al_modify_def)

definition no_counter :: "live \<Rightarrow> live" where
  "no_counter l = l\<lparr>lv_counter := None\<rparr>"

lemma no_counter_simps [simp]:
  "lv_counter (no_counter l) = None" "lv_provider (no_counter l) = lv_provider l"
  "lv_agreement (no_counter l) = lv_agreement l" "no_counter (no_counter l) = no_counter l"
  by (simp_all add: no_counter_def)

lemma map_of_known: "distinct (map fst known) \<Longrightarrow> (k, l) \<in> set known \<Longrightarrow> map_of known k = Some l"
  by (rule map_of_is_SomeI)

lemma pref_inj:
  assumes "distinct (map (lv_provider \<circ> snd) known)" "(k, l) \<in> set known" "(k', l') \<in> set known"
    and "lv_provider l = lv_provider l'"
  shows "k = k' \<and> l = l'"
proof -
  have "inj_on (lv_provider \<circ> snd) (set known)" using assms(1) by (simp add: distinct_map)
  from inj_onD [OF this, of "(k, l)" "(k', l')"] assms(2-4) show ?thesis by simp
qed

text \<open>Forgetting: each closed record's count leaves its agreement's entry, once.\<close>

lemma forget_all:
  assumes "distinct (map fst (wo_known w))" "distinct (map (lv_provider \<circ> snd) (wo_known w))"
    and "distinct (map fst closed)"
  shows "wo_known (fold forget_one closed w) =
      map (\<lambda>(k, l). (k, if k \<in> fst ` set closed then no_counter l else l)) (wo_known w) \<and>
    pl_members (wo_pool (fold forget_one closed w)) = pl_members (wo_pool w) \<and>
    (\<forall>k l. (k, l) \<in> set (wo_known w) \<longrightarrow> entry (wo_pool (fold forget_one closed w)) (lv_provider l) =
       (case map_of closed k of Some n \<Rightarrow> subtract_served n (entry (wo_pool w) (lv_provider l))
        | None \<Rightarrow> entry (wo_pool w) (lv_provider l))) \<and>
    (\<forall>r. r \<notin> lv_provider ` snd ` set (wo_known w) \<longrightarrow>
       entry (wo_pool (fold forget_one closed w)) r = entry (wo_pool w) r)"
  using assms
proof (induction closed arbitrary: w)
  case Nil
  then show ?case by (simp add: map_idI case_prod_beta)
next
  case (Cons c closed)
  obtain key n where c: "c = (key, n)" by fastforce
  let ?w = "forget_one c w"
  have new: "key \<notin> fst ` set closed" using Cons.prems(3) c by (auto simp: image_iff)
  show ?case
  proof (cases "map_of (wo_known w) key")
    case None
    then have w: "forget_one (key, n) w = w" by (simp add: forget_one_def)
    have "key \<notin> fst ` set (wo_known w)" using None by (simp add: map_of_eq_None_iff)
    then have "k \<noteq> key" if "(k, l) \<in> set (wo_known w)" for k l using that by force
    with Cons.IH [of w] Cons.prems show ?thesis by (auto simp: w c)
  next
    case (Some over)
    have in_known: "(key, over) \<in> set (wo_known w)" by (rule map_of_SomeD [OF Some])
    have known: "wo_known ?w = al_modify key no_counter (wo_known w)"
      and pool: "wo_pool ?w = entry_update (lv_provider over) (subtract_served n) (wo_pool w)"
      by (simp_all add: c forget_one_def Some no_counter_def [abs_def])
    have prefs: "map (lv_provider \<circ> snd) (wo_known ?w) = map (lv_provider \<circ> snd) (wo_known w)"
      unfolding known by (auto simp: al_modify_def)
    have d: "distinct (map fst (wo_known ?w))" "distinct (map fst closed)"
      using Cons.prems(1,3) by (simp_all add: known)
    have p: "distinct (map (lv_provider \<circ> snd) (wo_known ?w))" unfolding prefs by (rule Cons.prems(2))
    note ih = Cons.IH [OF d(1) p d(2)]
    have set_prefs: "lv_provider ` snd ` set (wo_known ?w) = lv_provider ` snd ` set (wo_known w)"
      using arg_cong [OF prefs, of set] by (simp add: image_comp)
    have other: "lv_provider l \<noteq> lv_provider over" if "(k, l) \<in> set (wo_known w)" "k \<noteq> key" for k l
      using pref_inj [OF Cons.prems(2) that(1) in_known] that(2) by auto
    have e: "entry (wo_pool (fold forget_one closed ?w)) (lv_provider l) =
        (case map_of ((key, n) # closed) k of Some m \<Rightarrow> subtract_served m (entry (wo_pool w) (lv_provider l))
         | None \<Rightarrow> entry (wo_pool w) (lv_provider l))"
      if kl: "(k, l) \<in> set (wo_known w)" for k l
    proof -
      have "(k, if k = key then no_counter l else l) \<in> set (wo_known ?w)"
        unfolding known al_modify_set using kl by blast
      moreover have pv: "lv_provider (if k = key then no_counter l else l) = lv_provider l" by simp
      ultimately have "entry (wo_pool (fold forget_one closed ?w)) (lv_provider l) =
          (case map_of closed k of Some m \<Rightarrow> subtract_served m (entry (wo_pool ?w) (lv_provider l))
           | None \<Rightarrow> entry (wo_pool ?w) (lv_provider l))"
        using ih [THEN conjunct2, THEN conjunct2, THEN conjunct1, rule_format, of k "if k = key then no_counter l else l"]
        unfolding pv by blast
      moreover have "map_of closed key = None" using new by (simp add: map_of_eq_None_iff)
      moreover have "l = over" if "k = key"
        using kl that Some map_of_known [OF Cons.prems(1) kl] by simp
      ultimately show ?thesis using other [OF kl] by (auto simp: pool split: option.split)
    qed
    have "wo_known (fold forget_one (c # closed) w) =
        map (\<lambda>(k, l). (k, if k \<in> fst ` set closed then no_counter l else l)) (wo_known ?w)"
      using ih by simp
    also have "\<dots> = map (\<lambda>(k, l). (k, if k \<in> insert key (fst ` set closed) then no_counter l else l)) (wo_known w)"
      unfolding known by (rule map_al_modify_keys [OF Cons.prems(1) new])
    finally have known': "wo_known (fold forget_one (c # closed) w) =
        map (\<lambda>(k, l). (k, if k \<in> fst ` set (c # closed) then no_counter l else l)) (wo_known w)"
      by (simp only: c list.set image_insert fst_conv)
    have mem: "pl_members (wo_pool (fold forget_one closed ?w)) = pl_members (wo_pool w)"
      using ih [THEN conjunct2, THEN conjunct1] by (simp add: pool)
    have rest: "entry (wo_pool (fold forget_one closed ?w)) r = entry (wo_pool w) r"
      if r: "r \<notin> lv_provider ` snd ` set (wo_known w)" for r
    proof -
      have "r \<noteq> lv_provider over" using r in_known by (auto simp: image_iff)
      with ih [THEN conjunct2, THEN conjunct2, THEN conjunct2, rule_format, unfolded set_prefs, OF r]
      show ?thesis by (simp add: pool)
    qed
    from known' mem e rest show ?thesis unfolding c by (simp only: fold_simps) blast
  qed
qed

text \<open>Matching: each agreement takes its record; only one that held none adds its count.\<close>

definition seeded :: "live \<Rightarrow> counter_record stored option \<Rightarrow> provider \<Rightarrow> provider" where
  "seeded l found p = (case (lv_counter l, found) of
     (None, Some stored) \<Rightarrow> seed_served (cr_count (st_record stored)) p | _ \<Rightarrow> p)"

lemma seed_entry_simps:
  "entry (seed_entry l found pool) r = (if r = lv_provider l then seeded l found (entry pool r) else entry pool r)"
  "pl_members (seed_entry l found pool) = pl_members pool"
  by (auto simp: seed_entry_def seeded_def split: option.split)

lemma map_of_delete: "map_of (AList.delete k m) j = (if j = k then None else map_of m j)"
  by (simp add: delete_conv')

lemma match_loop_eq:
  assumes "match_loop known records pool = (opened, rest, pool', known')"
    and "distinct (map fst known)" "distinct (map (lv_provider \<circ> snd) known)" "distinct (map fst records)"
  shows "known' = map (\<lambda>(k, l). (k, l\<lparr>lv_counter := map_option open_counter_of (map_of records k)\<rparr>)) known \<and>
    (\<forall>k. map_of opened k = (if k \<in> fst ` set known then map_of records k else None)) \<and>
    map fst opened = filter (\<lambda>k. k \<in> fst ` set records) (map fst known) \<and>
    rest = filter (\<lambda>x. fst x \<notin> fst ` set known) records \<and>
    pl_members pool' = pl_members pool \<and>
    (\<forall>k l. (k, l) \<in> set known \<longrightarrow> entry pool' (lv_provider l) =
       seeded l (map_of records k) (entry pool (lv_provider l))) \<and>
    (\<forall>r. r \<notin> lv_provider ` snd ` set known \<longrightarrow> entry pool' r = entry pool r)"
  using assms
proof (induction known arbitrary: records pool opened rest pool' known')
  case Nil
  then show ?case by simp
next
  case (Cons x known)
  obtain key live where x: "x = (key, live)" by fastforce
  let ?found = "map_of records key"
  let ?records = "AList.delete key records"
  let ?pool = "seed_entry live ?found pool"
  obtain o1 r1 p1 k1 where m: "match_loop known ?records ?pool = (o1, r1, p1, k1)" by (metis prod_cases4)
  have res: "opened = (case ?found of Some st \<Rightarrow> (key, st) # o1 | None \<Rightarrow> o1)" "rest = r1" "pool' = p1"
    "known' = (key, live\<lparr>lv_counter := map_option open_counter_of ?found\<rparr>) # k1"
    using Cons.prems(1) by (simp_all add: x Let_def m)
  have d: "distinct (map fst known)" "distinct (map (lv_provider \<circ> snd) known)" "distinct (map fst ?records)"
    and key: "key \<notin> fst ` set known" and pref: "lv_provider live \<notin> lv_provider ` snd ` set known"
    using Cons.prems(2-4) by (auto simp: x distinct_delete image_comp o_def)
  note ih = Cons.IH [OF m d]
  have other: "map_of ?records k = map_of records k" if "(k, l) \<in> set known" for k l
    using that key by (force simp: map_of_delete)
  have "k1 = map (\<lambda>(k, l). (k, l\<lparr>lv_counter := map_option open_counter_of (map_of records k)\<rparr>)) known"
    using ih other by auto
  moreover have "map_of opened k = (if k \<in> fst ` set (x # known) then map_of records k else None)" for k
    using ih key by (auto simp: x res(1) map_of_delete split: option.split)
  moreover have "map fst opened = filter (\<lambda>k. k \<in> fst ` set records) (map fst (x # known))"
  proof -
    have "map fst o1 = filter (\<lambda>k. k \<in> fst ` set ?records) (map fst known)" using ih by blast
    also have "\<dots> = filter (\<lambda>k. k \<in> fst ` set records) (map fst known)"
    proof (rule filter_cong)
      fix k assume "k \<in> set (map fst known)"
      then have "k \<noteq> key" using key by auto
      then show "(k \<in> fst ` set ?records) = (k \<in> fst ` set records)" by (force simp: delete_eq_filter)
    qed simp
    finally have "map fst o1 = filter (\<lambda>k. k \<in> fst ` set records) (map fst known)" .
    note o1 = this
    show ?thesis
    proof (cases ?found)
      case None
      then have "key \<notin> fst ` set records" by (simp add: map_of_eq_None_iff)
      with None o1 show ?thesis by (simp add: x res(1))
    next
      case (Some st)
      from map_of_SomeD [OF this] have "key \<in> fst ` set records" by force
      with Some o1 show ?thesis by (simp add: x res(1))
    qed
  qed
  moreover have "r1 = filter (\<lambda>y. fst y \<notin> fst ` set (x # known)) records"
    using ih by (auto simp: x delete_eq_filter intro!: filter_cong)
  moreover have "entry p1 (lv_provider l) = seeded l (map_of records k) (entry pool (lv_provider l))"
    if kl: "(k, l) \<in> set (x # known)" for k l
  proof (cases "(k, l) \<in> set known")
    case True
    then have "lv_provider l \<noteq> lv_provider live" using pref by (auto simp: image_iff)
    with ih other [OF True] True show ?thesis by (simp add: seed_entry_simps)
  next
    case False
    with kl x have "k = key" "l = live" by auto
    with ih pref show ?thesis by (simp add: seed_entry_simps)
  qed
  moreover have "entry p1 r = entry pool r" if "r \<notin> lv_provider ` snd ` set (x # known)" for r
    using that ih by (simp add: x seed_entry_simps)
  ultimately show ?case
    using ih unfolding res x by (auto simp: seed_entry_simps)
qed

section \<open>The reconcile as a whole\<close>

lemma closed_counts_keys:
  assumes "closed_counts L a missing w = (w', Inr closed)"
  shows "set (map fst closed) \<subseteq> set (map fst missing)"
    and "distinct (map fst missing) \<Longrightarrow> distinct (map fst closed)"
proof -
  have "set (map fst closed) \<subseteq> set (map fst missing) \<and>
      (distinct (map fst missing) \<longrightarrow> distinct (map fst closed))"
    using assms
  proof (induction missing arbitrary: w w' closed)
    case (Cons x missing)
    obtain agreement counter where x: "x = (agreement, counter)" by fastforce
    from Cons.prems obtain w1 found w2 cs where c:
      "closed_counts L a missing w1 = (w2, Inr cs)"
      "closed = (case found of Some n \<Rightarrow> (agreement, n) # cs | None \<Rightarrow> cs)"
      by (auto simp: x await_simps)
    from Cons.IH [OF c(1)] c(2) show ?case
      by (cases found) (auto simp: x)
  qed simp
  then show "set (map fst closed) \<subseteq> set (map fst missing)"
    "distinct (map fst missing) \<Longrightarrow> distinct (map fst closed)" by blast+
qed

lemma missing_keys:
  assumes "distinct (map fst known)"
  shows "distinct (map fst (missing_counters opened known))"
    and "k \<in> fst ` set (missing_counters opened known) \<longleftrightarrow>
      k \<notin> fst ` set opened \<and> (\<exists>l. (k, l) \<in> set known \<and> lv_counter l \<noteq> None)"
proof -
  have keys: "map fst (missing_counters opened known) =
      map fst (filter (\<lambda>(k, l). k \<notin> fst ` set opened \<and> lv_counter l \<noteq> None) known)"
    by (induction known)
      (auto simp: missing_counters_def List.map_filter_simps split: option.split)
  show "distinct (map fst (missing_counters opened known))"
    unfolding keys using assms by (rule distinct_map_filter)
  have "k \<in> fst ` set (missing_counters opened known) \<longleftrightarrow>
      k \<in> set (map fst (missing_counters opened known))" by simp
  also have "\<dots> \<longleftrightarrow> k \<notin> fst ` set opened \<and> (\<exists>l. (k, l) \<in> set known \<and> lv_counter l \<noteq> None)"
    unfolding keys by force
  finally show "k \<in> fst ` set (missing_counters opened known) \<longleftrightarrow>
      k \<notin> fst ` set opened \<and> (\<exists>l. (k, l) \<in> set known \<and> lv_counter l \<noteq> None)" .
qed

lemma oldest_per_agreement_eq:
  assumes "oldest_per_agreement records = (oldest, dups)"
  shows "distinct (map fst oldest)"
    and "map_of oldest k = find (\<lambda>st. cr_agreement (st_record st) = k) (sort_key creation records)"
    and "mset (map (st_key \<circ> snd) oldest) + mset dups = mset (map st_key records)"
proof -
  have f: "fold oldest_one (sort_key creation records) ([], []) = (oldest, dups)"
    using assms by (simp add: oldest_per_agreement_def)
  note o = oldest_fold [OF f]
  show "distinct (map fst oldest)"
    "map_of oldest k = find (\<lambda>st. cr_agreement (st_record st) = k) (sort_key creation records)"
    using o by simp_all
  have "mset (map st_key (sort_key creation records)) = mset (map st_key records)"
    by (simp only: mset_map mset_sort)
  with o show "mset (map (st_key \<circ> snd) oldest) + mset dups = mset (map st_key records)" by simp
qed

text \<open>What is matched and what is left over is what was read.\<close>

lemma match_partition:
  assumes "distinct (map fst records)" "distinct (map fst known)"
    and "map fst opened = filter (\<lambda>k. k \<in> fst ` set records) (map fst known)"
    and "\<And>k. map_of opened k = (if k \<in> fst ` set known then map_of records k else None)"
    and "rest = filter (\<lambda>x. fst x \<notin> fst ` set known) records"
  shows "mset opened + mset rest = mset records"
proof -
  let ?in = "filter (\<lambda>x. fst x \<in> fst ` set known) records"
  have d: "distinct (map fst opened)" using assms(2,3) by simp
  have "(k, v) \<in> set opened \<longleftrightarrow> (k, v) \<in> set ?in" for k v
  proof -
    have "(k, v) \<in> set opened \<longleftrightarrow> map_of opened k = Some v" using map_of_eq_Some_iff [OF d] by simp
    also have "\<dots> \<longleftrightarrow> k \<in> fst ` set known \<and> map_of records k = Some v" unfolding assms(4) by simp
    also have "\<dots> \<longleftrightarrow> (k, v) \<in> set ?in"
      unfolding map_of_eq_Some_iff [OF assms(1)] set_filter mem_Collect_eq fst_conv by blast
    finally show ?thesis .
  qed
  then have "set opened = set ?in" by (intro set_eqI) (simp only: split_paired_all)
  moreover have "distinct opened" "distinct ?in" using d assms(1) by (auto simp: distinct_map)
  ultimately have "mset opened = mset ?in" using set_eq_iff_mset_eq_distinct by blast
  then show ?thesis using assms(5) by (simp add: multiset_partition [symmetric])
qed

text \<open>One agreement's count, through a reconcile: what the three cases do to it.\<close>

definition settled ::
    "open_counter option \<Rightarrow> u64 option \<Rightarrow> counter_record stored option \<Rightarrow> u64 \<Rightarrow> u64" where
  "settled held closed_at found served =
     (case (held, found) of
        (None, Some stored) \<Rightarrow> served + cr_count (st_record stored)
      | (Some _, None) \<Rightarrow> (case closed_at of Some n \<Rightarrow> sat_sub served n | None \<Rightarrow> served)
      | _ \<Rightarrow> served)"

lemma forget_seed_settled:
  assumes "k \<in> fst ` set closed \<longrightarrow> found = None \<and> lv_counter l \<noteq> None"
  shows "p_served (seeded (if k \<in> fst ` set closed then no_counter l else l) found
      (case map_of closed k of Some n \<Rightarrow> subtract_served n p | None \<Rightarrow> p)) =
    settled (lv_counter l) (map_of closed k) found (p_served p)"
proof (cases "k \<in> fst ` set closed")
  case True
  then obtain n where "map_of closed k = Some n" by (metis map_of_eq_None_iff not_Some_eq)
  with True assms show ?thesis
    by (auto simp: seeded_def settled_def subtract_served_def split: option.split)
next
  case False
  then have "map_of closed k = None" by (simp add: map_of_eq_None_iff)
  with False show ?thesis
    by (simp add: seeded_def settled_def seed_served_def split: option.split)
qed

lemma core_counter_held:
  assumes "core known = core known'" "\<exists>l. (k, l) \<in> set known' \<and> lv_counter l \<noteq> None"
  shows "\<exists>l. (k, l) \<in> set known \<and> lv_counter l \<noteq> None"
proof -
  have held: "(\<exists>l. (k, l) \<in> set m \<and> lv_counter l \<noteq> None) \<longleftrightarrow>
      (\<exists>y \<in> set (core m). fst y = k \<and> snd (snd (snd (snd y))) \<noteq> None)" for m
  proof -
    have "(\<exists>l. (k, l) \<in> set m \<and> lv_counter l \<noteq> None) \<longleftrightarrow>
        (\<exists>x \<in> set m. fst x = k \<and> lv_counter (snd x) \<noteq> None)" by force
    also have "\<dots> \<longleftrightarrow> (\<exists>y \<in> set (core m). fst y = k \<and> snd (snd (snd (snd y))) \<noteq> None)"
      by (simp add: core_def split_def)
    finally show ?thesis .
  qed
  from assms show ?thesis unfolding held by simp
qed

lemma reconcile_counters_eq:
  assumes "read_open_counters L a head w = (w1, Inr records)"
    and "oldest_per_agreement records = (oldest, dups)"
    and "closed_counts L a (missing_counters oldest (wo_known w1)) w1 = (w2, Inr closed)"
    and "match_loop (wo_known (fold forget_one closed w2)) oldest (wo_pool (fold forget_one closed w2)) =
      (opened, rest, pool', known')"
  shows "reconcile_counters L a head w =
    ((fold forget_one closed w2)\<lparr>wo_pool := pool', wo_known := known'\<rparr>,
     Inr \<lparr>ct_open = opened, ct_duplicates = dups, ct_strays = map snd rest\<rparr>)"
  using assms by (simp add: reconcile_counters_def forget_closed_counters_def match_to_agreements_def)

text \<open>Memory right after the last read, the counts gone, and what the matching then leaves.\<close>

lemma settle_all:
  assumes "distinct (map fst known)" "distinct (map (lv_provider \<circ> snd) known)" "wo_known w = known"
    and "distinct (map fst oldest)" "distinct (map fst closed)"
    and "\<forall>k \<in> fst ` set closed.
      k \<notin> fst ` set oldest \<and> (\<exists>l. (k, l) \<in> set known \<and> lv_counter l \<noteq> None)"
    and "match_loop (wo_known (fold forget_one closed w)) oldest (wo_pool (fold forget_one closed w)) =
      (opened, rest, pool', known')"
  shows "known' = map (\<lambda>(k, l). (k, l\<lparr>lv_counter := map_option open_counter_of (map_of oldest k)\<rparr>)) known"
    and "mset opened + mset rest = mset oldest"
    and "map_of opened k = (if k \<in> fst ` set known then map_of oldest k else None)"
    and "(k, l) \<in> set known \<Longrightarrow> p_served (entry pool' (lv_provider l)) =
      settled (lv_counter l) (map_of closed k) (map_of oldest k) (p_served (entry (wo_pool w) (lv_provider l)))"
    and "r \<notin> lv_provider ` snd ` set known \<Longrightarrow> entry pool' r = entry (wo_pool w) r"
    and "pl_members pool' = pl_members (wo_pool w)" and "distinct (map fst opened)"
proof -
  let ?w = "fold forget_one closed w"
  note forget = forget_all [of w closed, unfolded assms(3), OF assms(1,2,5)]
  have known3: "wo_known ?w = map (\<lambda>(k, l). (k, if k \<in> fst ` set closed then no_counter l else l)) known"
    using forget by blast
  have keys: "map fst (wo_known ?w) = map fst known"
    and prefs: "map (lv_provider \<circ> snd) (wo_known ?w) = map (lv_provider \<circ> snd) known"
    unfolding known3 by auto
  have keyset: "fst ` set (wo_known ?w) = fst ` set known" using arg_cong [OF keys, of set] by simp
  have prefset: "lv_provider ` snd ` set (wo_known ?w) = lv_provider ` snd ` set known"
    using arg_cong [OF prefs, of set] by (simp add: image_comp)
  note ma = match_loop_eq [OF assms(7), unfolded keys prefs keyset prefset, OF assms(1,2,4)]
  show op: "map_of opened k = (if k \<in> fst ` set known then map_of oldest k else None)" for k
    using ma by blast
  show "known' = map (\<lambda>(k, l). (k, l\<lparr>lv_counter := map_option open_counter_of (map_of oldest k)\<rparr>)) known"
    using ma [THEN conjunct1] unfolding known3 by (auto simp: no_counter_def)
  have of: "map fst opened = filter (\<lambda>k. k \<in> fst ` set oldest) (map fst known)"
    and re: "rest = filter (\<lambda>x. fst x \<notin> fst ` set known) oldest" using ma by blast+
  show "mset opened + mset rest = mset oldest" by (rule match_partition [OF assms(4,1) of op re])
  show "distinct (map fst opened)" unfolding of using assms(1) by simp
  have "pl_members pool' = pl_members (wo_pool ?w)" using ma by blast
  moreover have "pl_members (wo_pool ?w) = pl_members (wo_pool w)" using forget by blast
  ultimately show "pl_members pool' = pl_members (wo_pool w)" by (rule trans)
  show "entry pool' r = entry (wo_pool w) r" if "r \<notin> lv_provider ` snd ` set known"
  proof -
    have "entry pool' r = entry (wo_pool ?w) r" using ma that by blast
    moreover have "entry (wo_pool ?w) r = entry (wo_pool w) r" using forget that by blast
    ultimately show ?thesis by (rule trans)
  qed
  assume kl: "(k, l) \<in> set known"
  let ?l = "if k \<in> fst ` set closed then no_counter l else l"
  have "(k, ?l) \<in> set (wo_known ?w)" 
    unfolding known3 set_map using kl by (rule image_eqI [rotated]) simp
  then have "entry pool' (lv_provider ?l) = seeded ?l (map_of oldest k) (entry (wo_pool ?w) (lv_provider ?l))"
    using ma by blast
  moreover have "lv_provider ?l = lv_provider l" by simp
  moreover have "entry (wo_pool ?w) (lv_provider l) = (case map_of closed k of
      Some n \<Rightarrow> subtract_served n (entry (wo_pool w) (lv_provider l)) | None \<Rightarrow> entry (wo_pool w) (lv_provider l))"
    using forget kl by blast
  ultimately have e: "entry pool' (lv_provider l) = seeded ?l (map_of oldest k) (case map_of closed k of
      Some n \<Rightarrow> subtract_served n (entry (wo_pool w) (lv_provider l)) | None \<Rightarrow> entry (wo_pool w) (lv_provider l))"
    by simp
  have "k \<in> fst ` set closed \<longrightarrow> map_of oldest k = None \<and> lv_counter l \<noteq> None"
  proof
    assume "k \<in> fst ` set closed"
    with assms(6) obtain l' where "k \<notin> fst ` set oldest" "(k, l') \<in> set known" "lv_counter l' \<noteq> None" by blast
    with kl eq_key_imp_eq_value [OF assms(1)] show "map_of oldest k = None \<and> lv_counter l \<noteq> None"
      by (auto simp: map_of_eq_None_iff)
  qed
  with e show "p_served (entry pool' (lv_provider l)) =
      settled (lv_counter l) (map_of closed k) (map_of oldest k) (p_served (entry (wo_pool w) (lv_provider l)))"
    by (simp add: forget_seed_settled)
qed

text \<open>The invariants of memory and the pool hold through it, whatever it ends in.\<close>

lemma entry_framed:
  assumes "\<And>p. p_id (f p) = p_id p \<and> p_source (f p) = p_source p"
  shows "p_id (entry (entry_update r f pool) s) = p_id (entry pool s) \<and>
    p_source (entry (entry_update r f pool) s) = p_source (entry pool s)"
  using assms by (simp add: fun_upd_def)

lemma forget_one_framed: "framed w (forget_one c w)"
proof -
  obtain key n where c: "c = (key, n)" by fastforce
  show ?thesis
    by (cases "map_of (wo_known w) key")
      (auto simp: framed_def c forget_one_def subtract_served_def intro!: sketch_al_modify)
qed

lemma forget_framed: "framed w (fold forget_one closed w)"
  by (induction closed arbitrary: w) (auto intro: framed_trans forget_one_framed)

lemma match_loop_framed:
  assumes "match_loop known records pool = (opened, rest, pool', known')"
  shows "sketch known' = sketch known \<and> pl_members pool' = pl_members pool \<and> pl_fresh pool' = pl_fresh pool \<and>
    (\<forall>r. p_id (entry pool' r) = p_id (entry pool r) \<and> p_source (entry pool' r) = p_source (entry pool r))"
  using assms
proof (induction known arbitrary: records pool opened rest pool' known')
  case (Cons x known)
  obtain key live where x: "x = (key, live)" by fastforce
  let ?pool = "seed_entry live (map_of records key) pool"
  obtain o1 r1 p1 k1 where m: "match_loop known (AList.delete key records) ?pool = (o1, r1, p1, k1)"
    by (metis prod_cases4)
  have seed: "pl_members ?pool = pl_members pool \<and> pl_fresh ?pool = pl_fresh pool \<and>
      p_id (entry ?pool r) = p_id (entry pool r) \<and> p_source (entry ?pool r) = p_source (entry pool r)" for r
    by (auto simp: seed_entry_def seed_served_def split: option.split)
  have "sketch ((key, live\<lparr>lv_counter := c\<rparr>) # k1) = sketch (x # k1)" for c
    by (simp add: sketch_def x)
  with Cons.IH [OF m] Cons.prems seed m show ?case
    by (auto simp: x Let_def) (simp_all add: sketch_def)
qed simp

lemma reconcile_counters_framed:
  assumes "steady a"
  shows "framed w (fst (reconcile_counters L a head w))"
proof -
  note keeps = steady.read_open_counters_keeps [OF assms] steady.closed_counts_keeps [OF assms]
  obtain w1 r where r: "read_open_counters L a head w = (w1, r)" by fastforce
  have k1: "kept w w1" using keeps(1) [of w L head] by (simp add: r)
  show ?thesis
  proof (cases r)
    case (Inl e)
    with k1 show ?thesis by (simp add: reconcile_counters_def r kept_framed)
  next
    case (Inr records)
    obtain oldest dups where o: "oldest_per_agreement records = (oldest, dups)" by fastforce
    obtain w2 c where c: "closed_counts L a (missing_counters oldest (wo_known w1)) w1 = (w2, c)" by fastforce
    have "kept w1 w2" using keeps(2) [of w1 L "missing_counters oldest (wo_known w1)"] by (simp add: c)
    then have f2: "framed w w2" using k1 by (blast intro: framed_trans kept_framed)
    show ?thesis
    proof (cases c)
      case (Inl e)
      with f2 show ?thesis by (simp add: reconcile_counters_def r Inr o forget_closed_counters_def c)
    next
      case (Inr closed)
      let ?w = "fold forget_one closed w2"
      obtain opened rest pool' known' where m: "match_loop (wo_known ?w) oldest (wo_pool ?w) =
          (opened, rest, pool', known')" by (metis prod_cases4)
      have "framed ?w (?w\<lparr>wo_pool := pool', wo_known := known'\<rparr>)"
        using match_loop_framed [OF m] by (simp add: framed_def)
      then have "framed w (?w\<lparr>wo_pool := pool', wo_known := known'\<rparr>)"
        using f2 forget_framed by (blast intro: framed_trans)
      then show ?thesis
        using reconcile_counters_eq [OF _ o _ m] r \<open>r = Inr records\<close> c Inr by simp
    qed
  qed
qed

section \<open>Properties of the counters' reconcile\<close>

text \<open>
  Which record an agreement counts into. Of several open records for one agreement, the one
  with the smallest creation block counts, and among those of one block the smallest key; every
  record read is either some agreement's counting record or reported as a duplicate, none both and
  none twice.
\<close>

theorem oldest_record_counts:
  assumes "oldest_per_agreement records = (oldest, dups)"
  shows "mset (map (st_key \<circ> snd) oldest) + mset dups = mset (map st_key records) \<and>
    distinct (map fst oldest) \<and>
    (map_of oldest k = None \<longleftrightarrow> (\<forall>st \<in> set records. cr_agreement (st_record st) \<noteq> k)) \<and>
    (\<forall>st. map_of oldest k = Some st \<longrightarrow> st \<in> set records \<and> cr_agreement (st_record st) = k \<and>
       (\<forall>other \<in> set records. cr_agreement (st_record other) = k \<longrightarrow> creation st \<le> creation other))"
proof -
  note o = oldest_per_agreement_eq [OF assms]
  have "st \<in> set records \<and> cr_agreement (st_record st) = k \<and>
      (\<forall>other \<in> set records. cr_agreement (st_record other) = k \<longrightarrow> creation st \<le> creation other)"
    if "map_of oldest k = Some st" for st
    using find_sorted_least [OF sorted_sort_key that [unfolded o(2)]] by simp
  moreover have "map_of oldest k = None \<longleftrightarrow> (\<forall>st \<in> set records. cr_agreement (st_record st) \<noteq> k)"
    unfolding o(2) find_NoneD by simp
  ultimately show ?thesis using o(1,3) by blast
qed

definition open_record :: "entity_key \<Rightarrow> u64 \<Rightarrow> counter_record stored" where
  "open_record key block = \<lparr>st_key = key, st_creator = 1, st_created_at = block, st_expires_at = 90,
     st_record = sample_counter\<lparr>cr_state := Open, cr_closed_block := None\<rparr>\<rparr>"

lemma oldest_record_counts_witness:
  "\<exists>oldest dups. oldest_per_agreement [open_record 8 12, open_record 7 11] = (oldest, dups) \<and>
     map_of oldest 9 = Some (open_record 7 11) \<and> map_of oldest 3 = None"
proof -
  obtain oldest dups where o: "oldest_per_agreement [open_record 8 12, open_record 7 11] = (oldest, dups)"
    by fastforce
  note r = oldest_record_counts [OF o]
  have nine: "cr_agreement (st_record (open_record k b)) = 9" for k b
    by (simp add: open_record_def sample_counter_def)
  have "map_of oldest 9 \<noteq> None" using r [of 9] nine by auto
  then obtain st where st: "map_of oldest 9 = Some st" by blast
  with r [of 9] have "st \<in> {open_record 8 12, open_record 7 11}" "creation st \<le> creation (open_record 7 11)"
    by (auto simp: nine)
  then have "st = open_record 7 11" by (auto simp: creation_def open_record_def)
  moreover have "map_of oldest 3 = None" using r [of 3] by (simp add: nine)
  ultimately show ?thesis using o st by blast
qed

text \<open>
  C5. A reconcile settles each agreement's count once. Take the records read, the closed ones asked
  for after them, and the world as the last of those answers finds it. Then every agreement stays,
  under the oldest open record of its own or under none; its provider's count grows by the record's
  only where memory held no record (a restart resumes it), shrinks by the closed record's only where
  memory held one that is no longer open (its closing answer was lost), and is untouched otherwise,
  as is every entry of the pool that no agreement holds. Each record read goes one way: it counts,
  is a duplicate, or is a stray.
\<close>

theorem reconcile_settles_once:
  assumes "steady a" "linked L (wo_pool w) (wo_known w)" "memory_wf (wo_known w)"
    and r1: "read_open_counters L a head w = (w1, Inr records)"
    and r2: "oldest_per_agreement records = (oldest, dups)"
    and r3: "closed_counts L a (missing_counters oldest (wo_known w1)) w1 = (w2, Inr closed)"
  shows "\<exists>w' cs. reconcile_counters L a head w = (w', Inr cs) \<and>
    wo_known w' = map (\<lambda>(k, l). (k, l\<lparr>lv_counter := map_option open_counter_of (map_of oldest k)\<rparr>)) (wo_known w2) \<and>
    map fst (wo_known w') = map fst (wo_known w) \<and>
    (\<forall>(k, l) \<in> set (wo_known w2). p_served (entry (wo_pool w') (lv_provider l)) =
       settled (lv_counter l) (map_of closed k) (map_of oldest k) (p_served (entry (wo_pool w2) (lv_provider l)))) \<and>
    (\<forall>r. r \<notin> lv_provider ` snd ` set (wo_known w2) \<longrightarrow> entry (wo_pool w') r = entry (wo_pool w2) r) \<and>
    (\<forall>k. map_of (ct_open cs) k = (if k \<in> fst ` set (wo_known w) then map_of oldest k else None)) \<and>
    mset (map (st_key \<circ> snd) (ct_open cs)) + mset (ct_duplicates cs) + mset (map st_key (ct_strays cs)) =
      mset (map st_key records)"
proof -
  note keeps = steady.read_open_counters_keeps [OF assms(1), of w L head]
    steady.closed_counts_keeps [OF assms(1), of w1 L "missing_counters oldest (wo_known w1)"]
  have k1: "kept w w1" and k2: "kept w1 w2" using keeps by (simp_all add: r1 r3)
  have k12: "kept w w2" by (rule kept_trans [OF k1 k2])
  let ?known = "wo_known w2"
  have wf: "memory_wf ?known" "linked L (wo_pool w2) ?known"
    using kept_wf(1,2) [OF k12] assms(2,3) by blast+
  note d = memory_wfD(1) [OF wf(1)] prefs_distinct [OF wf(2,1)]
  have same: "core ?known = core (wo_known w1)" using k2 by (simp add: kept_def)
  obtain opened rest pool' known' where m:
    "match_loop (wo_known (fold forget_one closed w2)) oldest (wo_pool (fold forget_one closed w2)) =
      (opened, rest, pool', known')" by (metis prod_cases4)
  note o = oldest_per_agreement_eq [OF r2]
  have dm: "distinct (map fst (wo_known w1))"
    using kept_wf(3) [OF k2] d(1) by simp
  have dc: "distinct (map fst closed)"
    by (rule closed_counts_keys(2) [OF r3 missing_keys(1) [OF dm]])
  have closed_in: "\<forall>k \<in> fst ` set closed.
      k \<notin> fst ` set oldest \<and> (\<exists>l. (k, l) \<in> set ?known \<and> lv_counter l \<noteq> None)"
  proof
    fix k assume "k \<in> fst ` set closed"
    then have "k \<in> fst ` set (missing_counters oldest (wo_known w1))"
      using closed_counts_keys(1) [OF r3] by auto
    then have "k \<notin> fst ` set oldest" "\<exists>l. (k, l) \<in> set (wo_known w1) \<and> lv_counter l \<noteq> None"
      unfolding missing_keys(2) [OF dm] by blast+
    moreover from this(2) have "\<exists>l. (k, l) \<in> set ?known \<and> lv_counter l \<noteq> None"
      by (rule core_counter_held [OF same])
    ultimately show "k \<notin> fst ` set oldest \<and> (\<exists>l. (k, l) \<in> set ?known \<and> lv_counter l \<noteq> None)"
      by blast
  qed
  note s = settle_all [OF d refl o(1) dc closed_in m]
  have "wo_known ((fold forget_one closed w2)\<lparr>wo_pool := pool', wo_known := known'\<rparr>) = known'" by simp
  have keys: "map fst known' = map fst (wo_known w)"
    unfolding s(1) using kept_wf(3) [OF k12] by (simp add: o_def split_def)
  have keyset: "fst ` set ?known = fst ` set (wo_known w)"
    using arg_cong [OF kept_wf(3) [OF k12], of set] by simp
  have "mset (map (st_key \<circ> snd) opened) + mset dups + mset (map st_key (map snd rest)) = mset (map st_key records)"
    using arg_cong [OF s(2), of "image_mset (st_key \<circ> snd)"] o(3)
    by (simp add: ac_simps flip: mset_map)
  then show ?thesis
    using reconcile_counters_eq [OF r1 r2 r3 m] s(1,3-5) keys
    by (intro exI [of _ "(fold forget_one closed w2)\<lparr>wo_pool := pool', wo_known := known'\<rparr>"]
        exI [of _ "\<lparr>ct_open = opened, ct_duplicates = dups, ct_strays = map snd rest\<rparr>"])
      (auto simp: keyset)
qed

text \<open>
  A reconcile that fails changes nothing of its own. When either reconcile ends in an error, on
  any of its reads or on a count over the limit, memory holds the same agreements with the same
  counter records and the pool the same members under the same ids as before it: only what the
  other tasks did meanwhile is left.
\<close>

theorem failed_reconcile_keeps:
  assumes "steady a"
  shows "(reconcile_agreements L a w = (w1, Inl e1) \<longrightarrow> kept w w1) \<and>
    (reconcile_counters L a head w = (w2, Inl e2) \<longrightarrow> kept w w2)"
proof (intro conjI impI)
  note keeps = steady.number_keeps [OF assms] steady.read_agreements_keeps [OF assms]
    steady.read_open_counters_keeps [OF assms] steady.closed_counts_keeps [OF assms]
  assume "reconcile_agreements L a w = (w1, Inl e1)"
  then show "kept w w1"
    unfolding reconcile_agreements_def sbind_Inl_iff serr_Inl_iff serr_Inr_iff
    using keeps(1) [of w] keeps(2)
    by (auto simp: Let_def split: prod.splits) (metis fst_conv kept_trans)+
next
  note keeps = steady.read_open_counters_keeps [OF assms] steady.closed_counts_keeps [OF assms]
  assume "reconcile_counters L a head w = (w2, Inl e2)"
  then consider (first) "read_open_counters L a head w = (w2, Inl e2)"
    | (later) w1 records where "read_open_counters L a head w = (w1, Inr records)"
      "(let (oldest, duplicates) = oldest_per_agreement records
        in sbind (forget_closed_counters L a oldest w1) (\<lambda>w _.
             let ((open_records, strays), w) = match_to_agreements oldest w
             in (w, Inr \<lparr>ct_open = open_records, ct_duplicates = duplicates, ct_strays = strays\<rparr>))) =
       (w2, Inl e2)"
    unfolding reconcile_counters_def sbind_Inl_iff by blast
  then show "kept w w2"
  proof cases
    case first
    with keeps(1) [of w L head] show ?thesis by simp
  next
    case later
    obtain oldest dups where o: "oldest_per_agreement records = (oldest, dups)" by fastforce
    have "closed_counts L a (missing_counters oldest (wo_known w1)) w1 = (w2, Inl e2)"
      using later(2) by (simp add: o forget_closed_counters_def sbind_Inl_iff Let_def split_def)
    with keeps(2) [of w1 L] have "kept w1 w2" by (metis fst_conv)
    moreover have "kept w w1" using keeps(1) [of w L head] later(1) by simp
    ultimately show ?thesis by (rule kept_trans [rotated])
  qed
qed

text \<open>A chain where counter record 8, which memory still counts into, was closed at 41 requests.\<close>

definition closed_entity :: arkiv_entity where
  "closed_entity = \<lparr>e_key = 8, e_creator = 1, e_created_at = 10, e_updated_at = 20, e_expires_at = 90,
     e_attributes = attributes_to_read sample_libs (counter_encode sample_libs sample_counter)\<rparr>"

definition closed_shelf :: "query \<Rightarrow> arkiv_entity list" where
  "closed_shelf q = (if CondKey 8 \<in> set (q_conditions q) then [closed_entity] else [])"

lemma closed_shelf_reads:
  "read_open_counters sample_libs (shelf_agent closed_shelf) 100 w = (w, Inr [])"
  "closed_counts sample_libs (shelf_agent closed_shelf) [(9, 8)] w = (w, Inr [(9, 41)])"
proof -
  note reader = read_open_counters_def closed_count_def query_defs
  show "read_open_counters sample_libs (shelf_agent closed_shelf) 100 w = (w, Inr [])"
    by (simp add: reader closed_shelf_def decode_page_def List.map_filter_simps)
  have e: "stored_decode sample_libs KIND_COUNTER counter_decode_fields closed_entity =
      Inr \<lparr>st_key = 8, st_creator = 1, st_created_at = 10, st_expires_at = 90, st_record = sample_counter\<rparr>"
    by (subst counter.stored_back [OF sample_libs_text_laws sample_libs_prints]) (simp_all add: closed_entity_def)
  show "closed_counts sample_libs (shelf_agent closed_shelf) [(9, 8)] w = (w, Inr [(9, 41)])"
    by (simp add: reader closed_shelf_def e) (simp add: sample_counter_def)
qed

lemma lone_linked: "linked sample_libs (wo_pool lone_world) (wo_known lone_world)"
  using lone_wf(1) by (simp add: linked_def marketplace_id_def sample_libs_def)

lemma reconcile_settles_once_witness:
  "\<exists>w' cs. reconcile_counters sample_libs (shelf_agent closed_shelf) 100 lone_world = (w', Inr cs) \<and>
     wo_known w' = [(9, lone_live\<lparr>lv_counter := None\<rparr>)] \<and> p_served (entry (wo_pool w') 0) = 0 \<and> ct_open cs = []"
proof -
  let ?a = "shelf_agent closed_shelf :: unit agent_in"
  have o: "oldest_per_agreement [] = ([], [])" by (simp add: oldest_per_agreement_def)
  have m: "missing_counters [] (wo_known lone_world) = [(9, 8)]"
    by (simp add: missing_counters_def lone_defs List.map_filter_simps)
  have c: "closed_counts sample_libs ?a (missing_counters [] (wo_known lone_world)) lone_world =
      (lone_world, Inr [(9, 41)])" unfolding m by (rule closed_shelf_reads)
  note r = reconcile_settles_once [OF shelf.steady_axioms lone_linked lone_wf(2) closed_shelf_reads(1) o c]
  then show ?thesis
    by (elim exE) (auto simp: lone_world_def settled_def sat_sub_def lone_live_def entry_def)
qed

lemma failed_reconcile_keeps_witness:
  "\<exists>w'. reconcile_agreements sample_libs (shelf_agent (\<lambda>_. replicate 101 closed_entity)) lone_world =
      (w', Inl (TooMany ''agreement'' 101)) \<and> kept lone_world w'"
proof -
  let ?a = "shelf_agent (\<lambda>_. replicate 101 closed_entity) :: unit agent_in"
  have e: "reconcile_agreements sample_libs ?a lone_world = (lone_world, Inl (TooMany ''agreement'' 101))"
    by (simp add: reconcile_agreements_def read_agreements_def PAGE_LIMIT_def)
  moreover have "kept lone_world lone_world"
    using failed_reconcile_keeps [OF shelf.steady_axioms, THEN conjunct1, rule_format, OF e] .
  ultimately show ?thesis by blast
qed

end
