(* ===== verification/Flush.thy ===== *)
theory Flush
  imports Settlement Counters
begin

text \<open>
  What the flush writes: the chain's records before and after its batch, the periods it ends in
  memory, and the successors it opens.
\<close>

section \<open>A patch and the record it reaches\<close>

lemma map_of_keep: "map_of (keep m names) name = (if name \<in> set names then map_of m name else None)"
  by (induction m) (auto simp: keep_def)

lemma map_of_counter_encode:
  "map_of (counter_encode L r) = (map_of (attributes_new KIND_COUNTER))
     (''agreement'' \<mapsto> Key (cr_agreement r), ''provider'' \<mapsto> Addr (cr_provider r),
      ''state'' \<mapsto> Str (counter_state_str (cr_state r)),
      PAYLOAD_ATTRIBUTE \<mapsto> Bytes (json_to_vec L (counter_payload L r)))"
  by (simp add: counter_encode_def encode_payload_def)

lemma patch_merges:
  assumes "cr_agreement new = cr_agreement old" "cr_provider new = cr_provider old"
    and "cr_state new = Open \<Longrightarrow> cr_state old = Open"
  shows "map_of (counter_encode L old) ++ map_of (po_set (patch_record L key new)) = map_of (counter_encode L new)"
proof
  fix name
  show "(map_of (counter_encode L old) ++ map_of (po_set (patch_record L key new))) name =
      map_of (counter_encode L new) name"
    using assms
    by (cases "cr_state new")
      (auto simp: map_add_def patch_record_def map_of_keep map_of_counter_encode PAYLOAD_ATTRIBUTE_def)
qed

lemma closed_merges:
  "map_of (counter_encode L r) ++ map_of (po_set (patch_record L key (closed r n head))) =
     map_of (counter_encode L (closed r n head))"
  by (rule patch_merges) (simp_all add: closed_def)

lemma po_key_patch_record [simp]: "po_entity_key (patch_record L key r) = key"
  by (simp add: patch_record_def)

lemma listing_patch_merges:
  "map_of (listing_encode L old) ++ map_of (keep (listing_encode L desired) [PAYLOAD_ATTRIBUTE]) =
     map_of (listing_encode L desired)"
proof
  fix name
  show "(map_of (listing_encode L old) ++ map_of (keep (listing_encode L desired) [PAYLOAD_ATTRIBUTE])) name =
      map_of (listing_encode L desired) name"
    by (simp add: map_add_def map_of_keep listing_encode_def encode_payload_def)
qed

section \<open>The chain's records under a batch\<close>

text \<open>
  An entity is what its attributes are; a patch sets the attributes it names. Entities that are
  created get keys of their own and an extension moves an expiry: neither changes one that is there.
\<close>

type_synonym chain = "entity_key \<rightharpoonup> (string \<rightharpoonup> attribute_value)"

fun chain_apply :: "operation \<Rightarrow> chain \<Rightarrow> chain" where
  "chain_apply (Patch p) chain =
     chain(po_entity_key p := map_option (\<lambda>old. old ++ map_of (po_set p)) (chain (po_entity_key p)))"
| "chain_apply (Delete d) chain = chain(do_entity_key d := None)"
| "chain_apply _ chain = chain"

fun named :: "operation \<Rightarrow> entity_key list" where
  "named (Patch p) = [po_entity_key p]"
| "named (Delete d) = [do_entity_key d]"
| "named _ = []"

abbreviation named_by :: "batch \<Rightarrow> entity_key list" where
  "named_by b \<equiv> concat (map named b)"

lemma chain_apply_other: "k \<notin> set (named op) \<Longrightarrow> chain_apply op chain k = chain k"
  by (cases op) auto

lemma chain_apply_local: "c k = c' k \<Longrightarrow> chain_apply op c k = chain_apply op c' k"
  by (cases op) auto

lemma fold_chain_other: "k \<notin> set (named_by ops) \<Longrightarrow> fold chain_apply ops chain k = chain k"
  by (induction ops arbitrary: chain) (simp_all add: chain_apply_other)

lemma fold_chain_one:
  "distinct (named_by ops) \<Longrightarrow> op \<in> set ops \<Longrightarrow> k \<in> set (named op) \<Longrightarrow>
   fold chain_apply ops chain k = chain_apply op chain k"
proof (induction ops arbitrary: chain)
  case (Cons x ops)
  show ?case
  proof (cases "k \<in> set (named_by ops)")
    case True
    then have "k \<notin> set (named x)" using Cons.prems(1) by auto
    moreover have "op \<in> set ops" using Cons.prems(2,3) calculation by auto
    ultimately show ?thesis
      using Cons.IH [of "chain_apply x chain"] Cons.prems
      by (simp add: chain_apply_other chain_apply_local [of "chain_apply x chain" k chain])
  next
    case False
    then have "x = op" using Cons.prems(2,3) by auto
    then show ?thesis using fold_chain_other [OF False] by simp
  qed
qed simp

section \<open>The batch\<close>

text \<open>The record a kind leaves under an agreement that has one.\<close>

definition period_over :: "'w agent \<Rightarrow> u64 \<Rightarrow> counter_record \<Rightarrow> bool" where
  "period_over a head record \<longleftrightarrow> cr_opened_block record + blocks (mc_settlement_period (an_config a)) \<le> head"

definition closes :: "'w agent \<Rightarrow> u64 \<Rightarrow> flush_kind \<Rightarrow> u64 \<Rightarrow> counter_record stored \<Rightarrow> bool" where
  "closes a head kind served stored \<longleftrightarrow>
     kind = ScheduledFlush \<and> served > 0 \<and> period_over a head (st_record stored)"

definition flushed_record ::
    "'w agent \<Rightarrow> u64 \<Rightarrow> flush_kind \<Rightarrow> u64 \<Rightarrow> counter_record stored \<Rightarrow> counter_record" where
  "flushed_record a head kind served stored =
     (if closes a head kind served stored
      then closed (st_record stored) served head else counted stored served)"

definition flush_op ::
    "libs \<Rightarrow> 'w agent \<Rightarrow> counters \<Rightarrow> u64 \<Rightarrow> flush_kind \<Rightarrow> pool \<Rightarrow> entity_key \<times> live \<Rightarrow> operation option" where
  "flush_op L a counters head kind pool = (\<lambda>(key, live).
     let served = p_served (entry pool (lv_provider live))
     in case map_of (ct_open counters) key of
          Some stored \<Rightarrow>
            if \<not> closes a head kind served stored \<and> cr_count (st_record stored) = served then None
            else Some (Patch (patch_record L (st_key stored) (flushed_record a head kind served stored)))
        | None \<Rightarrow> if kind = StopFlush then None else Some (fresh_counter L a key (st_record (lv_agreement live)) head))"

definition flush_closing ::
    "'w agent \<Rightarrow> counters \<Rightarrow> u64 \<Rightarrow> flush_kind \<Rightarrow> pool \<Rightarrow> entity_key \<times> live \<Rightarrow> closing option" where
  "flush_closing a counters head kind pool = (\<lambda>(key, live).
     let served = p_served (entry pool (lv_provider live))
     in case map_of (ct_open counters) key of
          Some stored \<Rightarrow>
            if closes a head kind served stored
            then Some \<lparr>cl_agreement = key, cl_counter = st_key stored, cl_count = served\<rparr> else None
        | None \<Rightarrow> None)"

lemmas flush_defs = flush_op_def flush_closing_def flushed_record_def closes_def period_over_def

lemma flush_one_eq:
  "flush_one L a counters head kind pool x (batch, closing) =
     (batch @ (case flush_op L a counters head kind pool x of None \<Rightarrow> [] | Some op \<Rightarrow> [op]),
      closing @ (case flush_closing a counters head kind pool x of None \<Rightarrow> [] | Some c \<Rightarrow> [c]))"
  by (cases x) (auto simp: flush_one_def flush_defs batch_push_def Let_def split: option.split)

lemma fold_flush_one:
  "fold (flush_one L a counters head kind pool) known (batch, closing) =
     (batch @ List.map_filter (flush_op L a counters head kind pool) known,
      closing @ List.map_filter (flush_closing a counters head kind pool) known)"
  by (induction known arbitrary: batch closing)
    (simp_all add: List.map_filter_simps flush_one_eq split: option.split)

lemma fold_batch_push: "fold (\<lambda>x. batch_push (f x)) xs b = b @ map f xs"
  by (induction xs arbitrary: b) (simp_all add: batch_push_def)

definition flush_prefix :: "libs \<Rightarrow> counters \<Rightarrow> u64 \<Rightarrow> flush_kind \<Rightarrow> batch" where
  "flush_prefix L counters head kind =
     (if kind = ScheduledFlush then map (\<lambda>d. Delete \<lparr>do_entity_key = d\<rparr>) (ct_duplicates counters) @
        map (stray_operation L head) (ct_strays counters) else [])"

lemma counts_batch_eq:
  "counts_batch L a counters head kind pool known =
     (flush_prefix L counters head kind @ List.map_filter (flush_op L a counters head kind pool) known,
      List.map_filter (flush_closing a counters head kind pool) known)"
  by (simp add: counts_batch_def flush_prefix_def fold_flush_one fold_batch_push)

lemma distinct_map_filter_inj:
  assumes "distinct xs" "\<And>x x' y. x \<in> set xs \<Longrightarrow> x' \<in> set xs \<Longrightarrow> f x = Some y \<Longrightarrow> f x' = Some y \<Longrightarrow> x = x'"
  shows "distinct (List.map_filter f xs)"
  using assms
proof (induction xs)
  case (Cons x xs)
  then have "distinct (List.map_filter f xs)" by simp
  with Cons.prems show ?case
    by (fastforce simp: List.map_filter_simps map_filter_def split: option.split)
qed (simp add: List.map_filter_simps)

lemma set_map_filter: "y \<in> set (List.map_filter f xs) \<longleftrightarrow> (\<exists>x \<in> set xs. f x = Some y)"
  by (induction xs) (auto simp: List.map_filter_simps split: option.split)

lemma concat_named_map_filter:
  "(\<And>x op. f x = Some op \<Longrightarrow> named op = (case g x of None \<Rightarrow> [] | Some k \<Rightarrow> [k])) \<Longrightarrow>
   (\<And>x. f x = None \<Longrightarrow> g x = None) \<Longrightarrow>
   named_by (List.map_filter f xs) = List.map_filter g xs"
  by (induction xs) (simp_all add: List.map_filter_simps split: option.split)

definition flush_name ::
    "'w agent \<Rightarrow> counters \<Rightarrow> u64 \<Rightarrow> flush_kind \<Rightarrow> pool \<Rightarrow> entity_key \<times> live \<Rightarrow> entity_key option" where
  "flush_name a counters head kind pool = (\<lambda>(key, live).
     case map_of (ct_open counters) key of
       Some stored \<Rightarrow>
         if \<not> closes a head kind (p_served (entry pool (lv_provider live))) stored
            \<and> cr_count (st_record stored) = p_served (entry pool (lv_provider live))
         then None else Some (st_key stored)
     | None \<Rightarrow> None)"

lemma named_flush_ops:
  "named_by (List.map_filter (flush_op L a counters head kind pool) known) =
     List.map_filter (flush_name a counters head kind pool) known"
  by (rule concat_named_map_filter)
    (auto simp: flush_op_def flush_name_def fresh_counter_def Let_def split: option.splits if_splits)

lemma named_stray: "named (stray_operation L head stray) = [st_key stray]"
  by (simp add: stray_operation_def)

lemma named_flush_prefix: "named_by (flush_prefix L counters head kind) =
    (if kind = ScheduledFlush then ct_duplicates counters @ map st_key (ct_strays counters) else [])"
  by (simp add: flush_prefix_def named_stray o_def)

lemma flush_name_Some: "flush_name a counters head kind pool x = Some y \<Longrightarrow>
    \<exists>st. map_of (ct_open counters) (fst x) = Some st \<and> y = st_key st"
  by (cases x) (auto simp: flush_name_def split: option.splits if_splits)

abbreviation counter_keys :: "counters \<Rightarrow> entity_key list" where
  "counter_keys cs \<equiv> map (st_key \<circ> snd) (ct_open cs) @ ct_duplicates cs @ map st_key (ct_strays cs)"

lemma open_key_inj:
  assumes "distinct (map (st_key \<circ> snd) opened)"
    and "map_of opened k = Some st" "map_of opened k' = Some st'" "st_key st = st_key st'"
  shows "k = k'"
proof -
  have "inj_on (st_key \<circ> snd) (set opened)" using assms(1) by (simp add: distinct_map)
  from inj_onD [OF this, of "(k, st)" "(k', st')"] map_of_SomeD [OF assms(2)] map_of_SomeD [OF assms(3)] assms(4)
  show ?thesis by simp
qed

text \<open>Each record is named at most once.\<close>

lemma counts_batch_names:
  assumes "distinct (map fst known)" "distinct (counter_keys cs)"
    and "counts_batch L a cs head kind pool known = (batch, closing)"
  shows "distinct (named_by batch)" and "set (named_by batch) \<subseteq> set (counter_keys cs)"
    and "map_of (ct_open cs) k = Some st \<Longrightarrow> (k, l) \<in> set known \<Longrightarrow>
      st_key st \<in> set (named_by batch) \<Longrightarrow> flush_name a cs head kind pool (k, l) \<noteq> None"
    and "kind = StopFlush \<Longrightarrow> set (named_by batch) \<subseteq> set (map (st_key \<circ> snd) (ct_open cs))"
proof -
  let ?names = "List.map_filter (flush_name a cs head kind pool) known"
  have "batch = flush_prefix L cs head kind @ List.map_filter (flush_op L a cs head kind pool) known"
    using assms(3) by (simp add: counts_batch_eq)
  then have b: "named_by batch = named_by (flush_prefix L cs head kind) @ ?names"
    by (simp add: named_flush_ops)
  have in_open: "y \<in> set (map (st_key \<circ> snd) (ct_open cs))" if "y \<in> set ?names" for y
    using that unfolding set_map_filter
    by (auto dest!: flush_name_Some map_of_SomeD simp: image_iff) (metis comp_apply snd_conv)
  have same: "x = x'" if x: "x \<in> set known" "x' \<in> set known" "map_of (ct_open cs) (fst x) = Some st"
    "map_of (ct_open cs) (fst x') = Some st'" "st_key st = st_key st'" for x x' st st'
  proof -
    have "distinct (map (st_key \<circ> snd) (ct_open cs))" using assms(2) by (simp only: distinct_append)
    from open_key_inj [OF this x(3-5)] have "fst x = fst x'" .
    with x(1,2) assms(1) show "x = x'" by (metis eq_key_imp_eq_value prod.collapse)
  qed
  have d: "distinct ?names"
  proof (rule distinct_map_filter_inj)
    show "distinct known" using assms(1) by (simp add: distinct_map)
    fix x x' y assume x: "x \<in> set known" "x' \<in> set known"
      "flush_name a cs head kind pool x = Some y" "flush_name a cs head kind pool x' = Some y"
    with flush_name_Some [OF x(3)] flush_name_Some [OF x(4)] same [OF x(1,2)] show "x = x'" by auto
  qed
  have disjoint: "set (ct_duplicates cs @ map st_key (ct_strays cs)) \<inter> set ?names = {}"
    using in_open assms(2) unfolding distinct_append set_append by blast
  with d assms(2) show "distinct (named_by batch)"
    unfolding b named_flush_prefix distinct_append by (cases kind) simp_all
  from in_open show "set (named_by batch) \<subseteq> set (counter_keys cs)"
    unfolding b named_flush_prefix by (auto simp: image_iff)
  from in_open show "kind = StopFlush \<Longrightarrow> set (named_by batch) \<subseteq> set (map (st_key \<circ> snd) (ct_open cs))"
    unfolding b named_flush_prefix by auto
  assume st: "map_of (ct_open cs) k = Some st" "(k, l) \<in> set known" "st_key st \<in> set (named_by batch)"
  then have "st_key st \<in> set (map (st_key \<circ> snd) (ct_open cs))"
    by (auto dest!: map_of_SomeD simp: image_iff) (metis comp_apply snd_conv)
  with st(3) assms(2) have "st_key st \<in> set ?names"
    unfolding b named_flush_prefix by (auto split: if_splits)
  then obtain x where x: "x \<in> set known" "flush_name a cs head kind pool x = Some (st_key st)"
    unfolding set_map_filter by blast
  from flush_name_Some [OF x(2)] same [OF x(1) st(2)] st(1) have "x = (k, l)" by auto
  with x(2) show "flush_name a cs head kind pool (k, l) \<noteq> None" by simp
qed

lemma flushed_unchanged:
  "\<not> closes a head kind served stored \<Longrightarrow> cr_count (st_record stored) = served \<Longrightarrow>
   flushed_record a head kind served stored = st_record stored"
  by (cases "st_record stored") (auto simp: flushed_record_def counted_def)

lemma flushed_fields:
  "cr_agreement (flushed_record a head kind served stored) = cr_agreement (st_record stored)"
  "cr_provider (flushed_record a head kind served stored) = cr_provider (st_record stored)"
  "cr_state (flushed_record a head kind served stored) = Open \<Longrightarrow> cr_state (st_record stored) = Open"
  by (auto simp: flushed_record_def counted_def closed_def split: if_splits)

lemma flush_name_None:
  assumes "map_of (ct_open cs) k = Some stored"
  shows "flush_name a cs head kind pool (k, l) = None \<longleftrightarrow>
    \<not> closes a head kind (p_served (entry pool (lv_provider l))) stored \<and>
    cr_count (st_record stored) = p_served (entry pool (lv_provider l))"
  using assms by (simp add: flush_name_def)

lemma creates_prefix: "creates (flush_prefix L cs head kind) = []"
proof -
  have "creates (map (\<lambda>d. Delete \<lparr>do_entity_key = d\<rparr>) ds) = []" for ds by (induction ds) simp_all
  moreover have "creates (map (stray_operation L head) ss) = []" for ss
    by (induction ss) (simp_all add: stray_operation_def)
  ultimately show ?thesis by (simp add: flush_prefix_def)
qed

lemma creates_flush_ops: "creates (List.map_filter (flush_op L a cs head kind pool) known) =
    (if kind = StopFlush then [] else
      concat (map (\<lambda>(k, l). creates [fresh_counter L a k (st_record (lv_agreement l)) head])
        (filter (\<lambda>(k, _). map_of (ct_open cs) k = None) known)))"
proof (induction known)
  case (Cons x known)
  obtain k l where x: "x = (k, l)" by fastforce
  show ?case
  proof (cases "map_of (ct_open cs) k")
    case None
    then show ?thesis
      using Cons unfolding x by (simp add: List.map_filter_simps flush_op_def fresh_counter_def)
  next
    case (Some st)
    then show ?thesis
      using Cons unfolding x by (simp add: List.map_filter_simps flush_op_def Let_def)
  qed
qed (simp add: List.map_filter_simps)

section \<open>Properties of the flush\<close>


text \<open>
  Agreement 9 counted up to 40 in record 8, with provider 5 at 41 requests; record 30 is a
  duplicate, record 40 a stray of nothing.
\<close>

definition flush_counters :: counters where
  "flush_counters = \<lparr>ct_open = [(9, (open_record 8 10)\<lparr>st_record := sample_counter\<lparr>cr_state := Open,
       cr_closed_block := None, cr_count := 40\<rparr>\<rparr>)],
     ct_duplicates = [30],
     ct_strays = [(open_record 40 10)\<lparr>st_record := sample_counter\<lparr>cr_state := Open, cr_count := 0\<rparr>\<rparr>]\<rparr>"

definition flush_chain :: chain where
  "flush_chain = [8 \<mapsto> map_of (counter_encode std_libs (st_record (snd (hd (ct_open flush_counters))))),
     30 \<mapsto> Map.empty, 40 \<mapsto> map_of (counter_encode std_libs (st_record (hd (ct_strays flush_counters))))]"


section \<open>Periods that end\<close>

text \<open>
  Ending a period whose closing landed is what a reconcile does when it finds a record closed: the
  count comes off the entry and memory counts into nothing. What is new is the successor.
\<close>

abbreviation has_landed :: "landed \<Rightarrow> closing \<Rightarrow> bool" where
  "has_landed landed c \<equiv> cl_counter c \<in> set (ld_patched landed)"

definition landed_counts :: "landed \<Rightarrow> closing list \<Rightarrow> (entity_key \<times> u64) list" where
  "landed_counts landed closing = map (\<lambda>c. (cl_agreement c, cl_count c)) (filter (has_landed landed) closing)"

definition successor_of :: "libs \<Rightarrow> 'w agent \<Rightarrow> u64 \<Rightarrow> known_agreements \<Rightarrow> closing \<Rightarrow> operation option" where
  "successor_of L a head known c =
     map_option (\<lambda>l. fresh_counter L a (cl_agreement c) (st_record (lv_agreement l)) head)
       (map_of known (cl_agreement c))"

lemma end_period_step:
  "end_period L a landed head c (succ, wo_pool w, wo_known w) =
     (if has_landed landed c
      then (succ @ (case successor_of L a head (wo_known w) c of None \<Rightarrow> [] | Some op \<Rightarrow> [op]),
            wo_pool (forget_one (cl_agreement c, cl_count c) w), wo_known (forget_one (cl_agreement c, cl_count c) w))
      else (succ, wo_pool w, wo_known w))"
  by (auto simp: end_period_def forget_one_def successor_of_def batch_push_def split: option.split)

lemma successor_of_forget:
  "successor_of L a head (wo_known (forget_one x w)) c = successor_of L a head (wo_known w) c"
proof -
  obtain key n where x: "x = (key, n)" by fastforce
  show ?thesis
    by (cases "map_of (wo_known w) key")
      (auto simp: successor_of_def forget_one_def x map_of_al_modify option.map_comp o_def)
qed

lemma fold_end_period:
  "fold (end_period L a landed head) closing (succ, wo_pool w, wo_known w) =
     (let w' = fold forget_one (landed_counts landed closing) w in
      (succ @ List.map_filter (successor_of L a head (wo_known w)) (filter (has_landed landed) closing),
       wo_pool w', wo_known w'))"
proof (induction closing arbitrary: succ w)
  case (Cons c closing)
  show ?case
  proof (cases "has_landed landed c")
    case True
    with Cons [where w = "forget_one (cl_agreement c, cl_count c) w"] show ?thesis
      by (simp add: end_period_step landed_counts_def List.map_filter_simps successor_of_forget [abs_def] Let_def
          split: option.split)
  next
    case False
    with Cons show ?thesis by (simp add: end_period_step landed_counts_def)
  qed
qed (simp add: landed_counts_def List.map_filter_simps)

lemma end_periods_eq:
  "end_periods L a closing landed head w =
     (List.map_filter (successor_of L a head (wo_known w)) (filter (has_landed landed) closing),
      w\<lparr>wo_pool := wo_pool (fold forget_one (landed_counts landed closing) w),
        wo_known := wo_known (fold forget_one (landed_counts landed closing) w)\<rparr>)"
  by (simp add: end_periods_def fold_end_period Let_def)

text \<open>The closings a batch makes: an agreement of memory each, under the record it counts into.\<close>

lemma closing_in_known:
  assumes "counts_batch L a cs head kind pool known = (batch, closing)" "c \<in> set closing"
  shows "\<exists>l st. (cl_agreement c, l) \<in> set known \<and> map_of (ct_open cs) (cl_agreement c) = Some st \<and>
    cl_counter c = st_key st \<and> cl_count c = p_served (entry pool (lv_provider l)) \<and>
    closes a head kind (cl_count c) st"
proof -
  have "closing = List.map_filter (flush_closing a cs head kind pool) known"
    using assms(1) by (simp add: counts_batch_eq)
  with assms(2) obtain k l where "(k, l) \<in> set known" "flush_closing a cs head kind pool (k, l) = Some c"
    by (auto simp: set_map_filter)
  then show ?thesis
    by (auto simp: flush_closing_def Let_def split: option.splits if_splits)
qed

lemma closings_distinct:
  assumes "distinct (map fst known)" "distinct (map (st_key \<circ> snd) (ct_open cs))"
    and "counts_batch L a cs head kind pool known = (batch, closing)"
  shows "distinct (map cl_agreement closing)" and "distinct (map cl_counter closing)"
proof -
  have eq: "closing = List.map_filter (flush_closing a cs head kind pool) known"
    using assms(3) by (simp add: counts_batch_eq)
  have key: "fst x = cl_agreement c" if "flush_closing a cs head kind pool x = Some c" for x c
    using that by (cases x) (auto simp: flush_closing_def Let_def split: option.splits if_splits)
  have "distinct closing" unfolding eq
  proof (rule distinct_map_filter_inj)
    show "distinct known" using assms(1) by (simp add: distinct_map)
    fix x x' c assume "x \<in> set known" "x' \<in> set known"
      "flush_closing a cs head kind pool x = Some c" "flush_closing a cs head kind pool x' = Some c"
    with key assms(1) show "x = x'" by (metis eq_key_imp_eq_value prod.collapse)
  qed
  moreover have "inj_on cl_agreement (set closing)"
  proof (rule inj_onI)
    fix c c' assume c: "c \<in> set closing" "c' \<in> set closing" "cl_agreement c = cl_agreement c'"
    then obtain x x' where x: "x \<in> set known" "flush_closing a cs head kind pool x = Some c"
      "x' \<in> set known" "flush_closing a cs head kind pool x' = Some c'" unfolding eq set_map_filter by blast
    with key c(3) have "fst x = fst x'" by simp
    with x assms(1) have "x = x'" by (metis eq_key_imp_eq_value prod.collapse)
    with x show "c = c'" by simp
  qed
  moreover have "inj_on cl_counter (set closing)"
  proof (rule inj_onI)
    fix c c' assume c: "c \<in> set closing" "c' \<in> set closing" "cl_counter c = cl_counter c'"
    from closing_in_known [OF assms(3) c(1)] closing_in_known [OF assms(3) c(2)] c(3)
    obtain st st' where "map_of (ct_open cs) (cl_agreement c) = Some st"
      "map_of (ct_open cs) (cl_agreement c') = Some st'" "st_key st = st_key st'" by metis
    from open_key_inj [OF assms(2) this] have "cl_agreement c = cl_agreement c'" .
    with \<open>inj_on cl_agreement (set closing)\<close> c(1,2) show "c = c'" by (auto dest: inj_onD)
  qed
  ultimately show "distinct (map cl_agreement closing)" "distinct (map cl_counter closing)"
    by (simp_all add: distinct_map)
qed

lemma send_flush_keeps: "steady a \<Longrightarrow> kept w (fst (send_flush a batch w))"
  using steady.send_keeps [of a w batch] by (auto simp: send_flush_def split: prod.split)

lemma length_map_filter_total:
  "(\<And>x. x \<in> set xs \<Longrightarrow> f x \<noteq> None) \<Longrightarrow> length (List.map_filter f xs) = length xs"
  by (induction xs) (fastforce simp: List.map_filter_simps split: option.split)+

lemma landed_bounded:
  assumes "distinct (map cl_counter closing)"
  shows "length (filter (has_landed landed) closing) \<le> length (ld_patched landed)"
proof -
  let ?keys = "map cl_counter (filter (has_landed landed) closing)"
  have "length ?keys = card (set ?keys)"
    using assms by (intro distinct_card [symmetric]) (rule distinct_map_filter)
  also have "\<dots> \<le> card (set (ld_patched landed))" by (rule card_mono) auto
  also have "\<dots> \<le> length (ld_patched landed)" by (rule card_length)
  finally show ?thesis by simp
qed

lemma core_providers:
  "core known = core known' \<Longrightarrow> (k, l) \<in> set known \<Longrightarrow> \<exists>l'. (k, l') \<in> set known' \<and> lv_provider l' = lv_provider l"
proof -
  assume c: "core known = core known'" and kl: "(k, l) \<in> set known"
  have "(k, lv_provider l) \<in> (\<lambda>(k, _, _, p, _). (k, p)) ` set (core known)"
    using kl by (force simp: core_def)
  then show ?thesis unfolding c by (auto simp: core_def)
qed

lemma landed_counts_map_of:
  assumes "distinct (map cl_agreement closing)"
  shows "map_of (landed_counts landed closing) k = Some n \<longleftrightarrow>
    (\<exists>c \<in> set closing. has_landed landed c \<and> cl_agreement c = k \<and> cl_count c = n)"
    and "fst ` set (landed_counts landed closing) = cl_agreement ` {c \<in> set closing. has_landed landed c}"
    and "distinct (map fst (landed_counts landed closing))"
proof -
  show d: "distinct (map fst (landed_counts landed closing))"
    using assms by (simp add: landed_counts_def o_def distinct_map_filter)
  show "map_of (landed_counts landed closing) k = Some n \<longleftrightarrow>
      (\<exists>c \<in> set closing. has_landed landed c \<and> cl_agreement c = k \<and> cl_count c = n)"
    unfolding map_of_eq_Some_iff [OF d] by (auto simp: landed_counts_def)
  show "fst ` set (landed_counts landed closing) = cl_agreement ` {c \<in> set closing. has_landed landed c}"
    by (force simp: landed_counts_def)
qed


text \<open>
  The lone agreement's record 8, open since block 10 and up to date at 41 requests, with a
  settlement period of 30 blocks: the flush at block 100 closes it, and its answer names it.
\<close>

definition due_record :: "counter_record stored" where
  "due_record = \<lparr>st_key = 8, st_creator = 1, st_created_at = 10, st_expires_at = 90,
     st_record = sample_counter\<lparr>cr_state := Open\<rparr>\<rparr>"

definition due_agent :: "unit agent_in" where
  "due_agent = (shelf_agent (\<lambda>_. [\<lparr>e_key = 8, e_creator = 1, e_created_at = 10, e_updated_at = 20,
       e_expires_at = 90, e_attributes = attributes_to_read sample_libs
         (counter_encode sample_libs (sample_counter\<lparr>cr_state := Open\<rparr>))\<rparr>]))
     \<lparr>an_config := default_market\<lparr>mc_settlement_period := secs 60\<rparr>\<rparr>"

lemma steady_due: "steady due_agent"
  unfolding due_agent_def steady_def using shelf.steady_axioms [unfolded steady_def] by simp

lemma due_reconcile:
  "reconcile_counters sample_libs due_agent 100 lone_world =
     (lone_world, Inr \<lparr>ct_open = [(9, due_record)], ct_duplicates = [], ct_strays = []\<rparr>)"
proof -
  have payload: "counter_payload sample_libs (sample_counter\<lparr>cr_state := Open\<rparr>) = counter_payload sample_libs sample_counter"
    by (simp add: counter_payload_def sample_counter_def)
  have e: "stored_decode sample_libs KIND_COUNTER counter_decode_fields \<lparr>e_key = 8, e_creator = 1,
      e_created_at = 10, e_updated_at = 20, e_expires_at = 90, e_attributes = attributes_to_read sample_libs
         (counter_encode sample_libs (sample_counter\<lparr>cr_state := Open\<rparr>))\<rparr> = Inr due_record"
    by (subst counter.stored_back [OF sample_libs_text_laws]) (simp_all only: payload sample_libs_prints
        insert_iff simp_thms arkiv_entity.simps due_record_def)
  have r: "read_open_counters sample_libs due_agent 100 lone_world = (lone_world, Inr [due_record])"
    by (simp add: read_open_counters_def due_agent_def PAGE_LIMIT_def decode_page_def e List.map_filter_simps)
  have o: "oldest_per_agreement [due_record] = ([(9, due_record)], [])"
    by (simp add: oldest_per_agreement_def oldest_one_def due_record_def sample_counter_def)
  have m: "missing_counters [(9, due_record)] (wo_known lone_world) = []"
    by (simp add: missing_counters_def lone_world_def List.map_filter_simps)
  have c: "closed_counts sample_libs due_agent (missing_counters [(9, due_record)] (wo_known lone_world)) lone_world =
      (lone_world, Inr [])" unfolding m by simp
  have l: "match_loop (wo_known (fold forget_one [] lone_world)) [(9, due_record)]
      (wo_pool (fold forget_one [] lone_world)) = ([(9, due_record)], [], wo_pool lone_world, wo_known lone_world)"
    by (simp add: lone_world_def seed_entry_def lone_live_def open_counter_of_def due_record_def sample_counter_def)
  show ?thesis using reconcile_counters_eq [OF r o c l] by simp
qed


end
