(* ===== verification/Acceptance.thy ===== *)
theory Acceptance
  imports Discovery Counters
begin

text \<open>
  The offers the agent accepts, and the invariant of memory and the pool through a whole run: every
  poll, refresh and flush, and whatever the other tasks do in between.
\<close>

section \<open>What the chain promises\<close>

text \<open>Keys are the chain's: a new entity's is nobody's yet, and a page names each entity once.\<close>

definition unique_keys :: "'e agent_in \<Rightarrow> bool" where
  "unique_keys a \<longleftrightarrow>
     (\<forall>w c w' created. w_create (an_writer a) w c = (w', Inr created) \<longrightarrow>
        cd_entity_key created \<notin> held_keys (wo_known w')) \<and>
     (\<forall>w q w' page. rd_query (an_reader a) w q = (w', Inr page) \<longrightarrow> distinct (map e_key (pg_entities page)))"

lemma unique_keysD:
  assumes "unique_keys a"
  shows "w_create (an_writer a) w c = (w', Inr created) \<Longrightarrow> cd_entity_key created \<notin> held_keys (wo_known w')"
    and "rd_query (an_reader a) w q = (w', Inr page) \<Longrightarrow> distinct (map e_key (pg_entities page))"
  using assms unfolding unique_keys_def by blast+

text \<open>The shelf keeps the promise when it names each entity once.\<close>

lemma shelf_unique_keys: "(\<And>q. distinct (map e_key (shelf q))) \<Longrightarrow> unique_keys (shelf_agent shelf)"
  by (auto simp: unique_keys_def shelf_writer_def find_Some_iff split: option.splits)

section \<open>Deals\<close>

definition deals :: "known_agreements \<Rightarrow> (entity_key \<times> agreement) list" where
  "deals known = map (\<lambda>(k, l). (k, st_record (lv_agreement l))) known"

lemma deals_core: "deals known = map (\<lambda>(k, _, r, _, _). (k, r)) (core known)"
  by (simp add: deals_def core_def o_def split_def)

lemma kept_deals: "kept w w' \<Longrightarrow> deals (wo_known w') = deals (wo_known w)"
  by (simp add: deals_core kept_def)

lemma deals_al_modify:
  "(\<And>l. st_record (lv_agreement (f l)) = st_record (lv_agreement l)) \<Longrightarrow> deals (al_modify k f known) = deals known"
  by (auto simp: deals_def al_modify_def)

lemma deals_append [simp]: "deals (known @ [(k, l)]) = deals known @ [(k, st_record (lv_agreement l))]"
  by (simp add: deals_def)

lemma deals_maps:
  "map (prov \<circ> snd) known = map (ag_provider \<circ> snd) (deals known)"
  "map (live_port \<circ> snd) known = map (ag_remote_port \<circ> snd) (deals known)"
  "length (deals known) = length known"
  by (simp_all add: deals_def split_def)

abbreviation deal_providers :: "(entity_key \<times> agreement) list \<Rightarrow> address set" where
  "deal_providers ds \<equiv> ag_provider ` snd ` set ds"

abbreviation deal_ports :: "(entity_key \<times> agreement) list \<Rightarrow> u16 set" where
  "deal_ports ds \<equiv> ag_remote_port ` snd ` set ds"

lemma slots_deals: "slots known addr = None \<longleftrightarrow> addr \<notin> deal_providers (deals known)"
  unfolding slots_None by (force simp: deals_def)

text \<open>The agreement an acceptance makes.\<close>

definition deal_of :: "'w agent \<Rightarrow> offer stored \<Rightarrow> u16 \<Rightarrow> agreement" where
  "deal_of a offer port = \<lparr>ag_provider = st_creator offer, ag_offer = st_key offer,
     ag_wei_per_call = mc_wei_per_call (an_config a), ag_remote_port = port\<rparr>"

lemma accept_effect:
  assumes "steady a" "unique_keys a" "linked L (wo_pool w) (wo_known w)" "memory_wf (wo_known w)"
    and free: "st_creator offer \<notin> deal_providers (deals (wo_known w))"
    and acc: "accept L a offer port head w = (w', held)"
  shows "linked L (wo_pool w') (wo_known w') \<and> memory_wf (wo_known w') \<and>
    (deals (wo_known w') = deals (wo_known w) \<or>
     held \<and> (\<exists>key. deals (wo_known w') = deals (wo_known w) @ [(key, deal_of a offer port)]))"
proof -
  let ?op = "create_new (agreement_encode L (deal_of a offer port)) (Seconds (as_secs (mc_offer_max_lifetime (an_config a))))"
  obtain w1 answer where c: "w_create (an_writer a) w ?op = (w1, answer)" by fastforce
  have k1: "kept w w1" using steady.create_keeps [OF assms(1), of w ?op] by (simp add: c)
  have wf1: "linked L (wo_pool w1) (wo_known w1)" "memory_wf (wo_known w1)"
    using kept_wf(1,2) [OF k1] assms(3,4) by blast+
  note d1 = kept_deals [OF k1]
  show ?thesis
  proof (cases answer)
    case (Inl e)
    then have "w' = w1" using acc c by (cases e) (auto simp: accept_def deal_of_def)
    with wf1 d1 show ?thesis by simp
  next
    case (Inr created)
    let ?key = "cd_entity_key created"
    let ?st = "\<lparr>st_key = ?key, st_creator = id_address (an_identity a), st_created_at = head,
      st_expires_at = cd_expires_at created, st_record = deal_of a offer port\<rparr>"
    have fresh: "?key \<notin> held_keys (wo_known w1)" by (rule unique_keysD(1) [OF assms(2) c [unfolded Inr]])
    have slot: "slots (wo_known w1) (st_creator offer) = None" using free d1 by (simp add: slots_deals)
    obtain r q where add: "pool_add (from_marketplace L (wo_now w1) (st_creator offer) ?key port) (wo_pool w1) = (r, q)"
      by fastforce
    let ?w2 = "w1\<lparr>wo_pool := q, wo_known := wo_known w1 @ [(?key, joined ?st r)]\<rparr>"
    have "adopt_one L (wo_now w1) ?st (0, wo_pool w1, wo_known w1) = (1, q, wo_known w1 @ [(?key, joined ?st r)])"
      using fresh slot add
      by (auto simp: adopt_one_def Let_def held_keys_def slots_None deal_of_def joined_def update_new)
    from adopt_one_step [OF wf1 this]
    have wf2: "linked L (wo_pool ?w2) (wo_known ?w2)" "memory_wf (wo_known ?w2)" by simp_all
    obtain op2 where op2: "accept L a offer port head w =
        (case w_create (an_writer a) ?w2 op2 of (w3, answer) \<Rightarrow>
           (w3\<lparr>wo_known := al_modify ?key (\<lambda>live. live\<lparr>lv_counter := (case answer of
              Inr created \<Rightarrow> Some \<lparr>oc_key = cd_entity_key created, oc_opened_block = head\<rparr>
            | Inl _ \<Rightarrow> None)\<rparr>) (wo_known w3)\<rparr>, True))"
      using c Inr add fresh
      by (simp add: accept_def deal_of_def Let_def joined_def update_new held_keys_def)
    obtain w3 answer2 where c2: "w_create (an_writer a) ?w2 op2 = (w3, answer2)" by fastforce
    have k3: "kept ?w2 w3" using steady.create_keeps [OF assms(1), of ?w2 op2] by (simp add: c2)
    obtain c where w': "w' = w3\<lparr>wo_known := al_modify ?key (\<lambda>live. live\<lparr>lv_counter := c\<rparr>) (wo_known w3)\<rparr>" and held
      using op2 acc c2 by auto
    have "framed w3 w'" unfolding framed_def w' by (auto intro: sketch_al_modify)
    then have "framed ?w2 w'" using k3 by (blast intro: framed_trans kept_framed)
    from framed_wf(1,2) [OF this] wf2 have "linked L (wo_pool w') (wo_known w')" "memory_wf (wo_known w')" by blast+
    moreover have "deals (wo_known w') = deals (wo_known ?w2)"
      using kept_deals [OF k3] by (simp add: w' deals_al_modify)
    ultimately show ?thesis using d1 \<open>held\<close> by (simp add: joined_def)
  qed
qed

section \<open>The loop over the offers\<close>

lemma find_port_effect:
  assumes "\<And>w p. kept w (fst (bound w p))"
    and "find_port bound ports used w = (w', used', found)"
  shows "kept w w' \<and> used \<subseteq> used' \<and> used' \<subseteq> used \<union> set ports \<and>
    (case found of Some p \<Rightarrow> p \<in> set ports \<and> p \<notin> used' \<and> (\<exists>v. bound v p = (w', False))
     | None \<Rightarrow> set ports \<subseteq> used')"
  using assms(2)
proof (induction ports arbitrary: used w)
  case (Cons candidate ports)
  show ?case
  proof (cases "candidate \<in> used")
    case True
    with Cons.prems have "find_port bound ports used w = (w', used', found)" by simp
    from Cons.IH [OF this] True show ?thesis by (auto split: option.split)
  next
    case False
    obtain w1 b where b: "bound w candidate = (w1, b)" by fastforce
    have k: "kept w w1" using assms(1) [of w candidate] by (simp add: b)
    show ?thesis
    proof (cases b)
      case True
      with Cons.prems False b have "find_port bound ports (insert candidate used) w1 = (w', used', found)" by simp
      from Cons.IH [OF this] k show ?thesis by (auto intro: kept_trans split: option.splits)
    next
      case False
      with Cons.prems \<open>candidate \<notin> used\<close> b have "w' = w1" "used' = used" "found = Some candidate" by simp_all
      with k b False \<open>candidate \<notin> used\<close> show ?thesis by auto
    qed
  qed
qed simp

text \<open>What an acceptance may make, given what is taken when the loop starts.\<close>

definition fair_deal ::
    "'w agent \<Rightarrow> offer stored list \<Rightarrow> entity_key set \<Rightarrow> address set \<Rightarrow> u16 set \<Rightarrow> agreement \<Rightarrow> bool" where
  "fair_deal a offers taken_offers providers ports r \<longleftrightarrow>
     (\<exists>offer \<in> set offers. r = deal_of a offer (ag_remote_port r)) \<and>
     ag_offer r \<notin> taken_offers \<and> ag_provider r \<notin> providers \<and>
     ag_remote_port r \<in> set (remote_ports (an_config a)) \<and> ag_remote_port r \<notin> ports"

lemma fair_deal_mono:
  "fair_deal a offers taken providers' ports' r \<Longrightarrow> providers \<subseteq> providers' \<Longrightarrow> ports \<subseteq> ports' \<Longrightarrow>
   fair_deal a (offer # offers) taken providers ports r"
  by (auto simp: fair_deal_def)

lemma offers_loop_effect:
  assumes "steady a" "unique_keys a" "linked L (wo_pool w) (wo_known w)" "memory_wf (wo_known w)"
    and "deal_providers (deals (wo_known w)) \<subseteq> providers" "deal_ports (deals (wo_known w)) \<subseteq> ports"
    and "offers_loop L a head free taken_offers offers providers ports accepted w = (w', n)"
  shows "linked L (wo_pool w') (wo_known w') \<and> memory_wf (wo_known w') \<and> accepted \<le> n \<and> n \<le> max accepted free \<and>
    (\<exists>new. deals (wo_known w') = deals (wo_known w) @ new \<and> accepted + length new \<le> n \<and>
      distinct (map (ag_remote_port \<circ> snd) new) \<and>
      (\<forall>r \<in> snd ` set new. fair_deal a offers taken_offers providers ports r))"
  using assms(3-7)
proof (induction offers arbitrary: providers ports accepted w)
  case Nil
  then show ?case by auto
next
  case (Cons offer offers)
  let ?step = "free \<le> accepted \<or> st_key offer \<in> taken_offers \<or> st_creator offer \<in> providers"
  show ?case
  proof (cases ?step)
    case True
    then have "offers_loop L a head free taken_offers offers providers ports accepted w = (w', n)"
      using Cons.prems(5) by simp
    from Cons.IH [OF Cons.prems(1-4) this] show ?thesis by (auto intro: fair_deal_mono)
  next
    case False
    obtain w1 ports1 found where p: "find_port (an_port_bound a) (remote_ports (an_config a)) ports w = (w1, ports1, found)"
      by (metis prod_cases3)
    note fp = find_port_effect [of "an_port_bound a", OF steady.port_keeps [OF assms(1)] p]
    have k1: "kept w w1" using fp by blast
    have wf1: "linked L (wo_pool w1) (wo_known w1)" "memory_wf (wo_known w1)"
      using kept_wf(1,2) [OF k1] Cons.prems(1,2) by blast+
    note d1 = kept_deals [OF k1]
    show ?thesis
    proof (cases found)
      case None
      then have "w' = w1" "n = accepted" using Cons.prems(5) False p by auto
      with wf1 d1 show ?thesis by simp
    next
      case (Some port)
      obtain w2 held where ac: "accept L a offer port head w1 = (w2, held)" by fastforce
      have creator: "st_creator offer \<notin> deal_providers (deals (wo_known w1))" using False Cons.prems(3) d1 by auto
      note ae = accept_effect [OF assms(1,2) wf1 creator ac]
      have wf2: "linked L (wo_pool w2) (wo_known w2)" "memory_wf (wo_known w2)" using ae by blast+
      have port: "port \<in> set (remote_ports (an_config a))" "port \<notin> ports1" "ports \<subseteq> ports1"
        using fp Some by auto
      show ?thesis
      proof (cases held)
        case False
        with ae d1 have d2: "deals (wo_known w2) = deals (wo_known w)" by auto
        have loop: "offers_loop L a head free taken_offers offers providers ports1 accepted w2 = (w', n)"
          using Cons.prems(5) \<open>\<not> ?step\<close> p Some ac False by simp
        have sub: "deal_providers (deals (wo_known w2)) \<subseteq> providers" "deal_ports (deals (wo_known w2)) \<subseteq> ports1"
          unfolding d2 using Cons.prems(3,4) port(3) by blast+
        from Cons.IH [OF wf2 sub loop, unfolded d2]
        obtain new where "linked L (wo_pool w') (wo_known w')" "memory_wf (wo_known w')"
          "accepted \<le> n" "n \<le> max accepted free" "deals (wo_known w') = deals (wo_known w) @ new"
          "accepted + length new \<le> n" "distinct (map (ag_remote_port \<circ> snd) new)"
          "\<forall>r \<in> snd ` set new. fair_deal a offers taken_offers providers ports1 r" by blast
        then show ?thesis using fair_deal_mono [OF _ subset_refl port(3)] by blast
      next
        case True
        have loop: "offers_loop L a head free taken_offers offers (insert (st_creator offer) providers)
            (insert port ports1) (Suc accepted) w2 = (w', n)"
          using Cons.prems(5) \<open>\<not> ?step\<close> p Some ac True by simp
        have bound: "Suc accepted \<le> free" using \<open>\<not> ?step\<close> by simp
        from ae d1 consider (none) "deals (wo_known w2) = deals (wo_known w)"
          | (made) key where "deals (wo_known w2) = deals (wo_known w) @ [(key, deal_of a offer port)]" by auto
        then show ?thesis
        proof cases
          case none
          have sub: "deal_providers (deals (wo_known w2)) \<subseteq> insert (st_creator offer) providers"
            "deal_ports (deals (wo_known w2)) \<subseteq> insert port ports1"
            unfolding none using Cons.prems(3,4) port(3) by blast+
          from Cons.IH [OF wf2 sub loop, unfolded none]
          obtain new where new: "linked L (wo_pool w') (wo_known w')" "memory_wf (wo_known w')" "Suc accepted \<le> n"
            "n \<le> max (Suc accepted) free" "deals (wo_known w') = deals (wo_known w) @ new"
            "Suc accepted + length new \<le> n" "distinct (map (ag_remote_port \<circ> snd) new)"
            "\<forall>r \<in> snd ` set new. fair_deal a offers taken_offers (insert (st_creator offer) providers) (insert port ports1) r"
            by blast
          have "accepted \<le> n" "n \<le> max accepted free" "accepted + length new \<le> n" using new(3,4,6) bound by auto
          with new(1,2,5,7,8) show ?thesis
            using fair_deal_mono [OF _ subset_insertI, of _ _ _ _ providers "insert port ports1" _ ports] port(3) by blast
        next
          case made
          let ?r = "deal_of a offer port"
          have sub: "deal_providers (deals (wo_known w2)) \<subseteq> insert (st_creator offer) providers"
            "deal_ports (deals (wo_known w2)) \<subseteq> insert port ports1"
            using made Cons.prems(3,4) port(3) by (auto simp: deal_of_def)
          from Cons.IH [OF wf2 sub loop, unfolded made]
          obtain new where new: "linked L (wo_pool w') (wo_known w')" "memory_wf (wo_known w')" "Suc accepted \<le> n"
            "n \<le> max (Suc accepted) free"
            "deals (wo_known w') = (deals (wo_known w) @ [(key, ?r)]) @ new" "Suc accepted + length new \<le> n"
            "distinct (map (ag_remote_port \<circ> snd) new)"
            "\<forall>r \<in> snd ` set new. fair_deal a offers taken_offers (insert (st_creator offer) providers) (insert port ports1) r"
            by blast
          have n: "accepted \<le> n" "n \<le> max accepted free" "accepted + length ((key, ?r) # new) \<le> n"
            using new(3,4,6) bound by auto
          have "fair_deal a (offer # offers) taken_offers providers ports ?r"
            using \<open>\<not> ?step\<close> port by (auto simp: fair_deal_def deal_of_def)
          moreover have "fair_deal a (offer # offers) taken_offers providers ports r" if "r \<in> snd ` set new" for r
            using new(8) that fair_deal_mono [OF _ subset_insertI, of _ _ _ _ providers "insert port ports1" _ ports] port(3)
            by blast
          moreover have "port \<notin> ag_remote_port ` snd ` set new"
            using new(8) unfolding fair_deal_def by blast
          then have "distinct (map (ag_remote_port \<circ> snd) ((key, ?r) # new))"
            using new(7) by (simp add: deal_of_def image_comp)
          moreover have "deals (wo_known w') = deals (wo_known w) @ (key, ?r) # new" using new(5) by simp
          ultimately show ?thesis using new(1,2) n
            by (intro conjI exI [of _ "(key, ?r) # new"]) (auto simp: comp_def)
        qed
      qed
    qed
  qed
qed

section \<open>The invariant through a run\<close>

definition agent_wf :: "libs \<Rightarrow> 'e world \<Rightarrow> bool" where
  "agent_wf L w \<longleftrightarrow> linked L (wo_pool w) (wo_known w) \<and> memory_wf (wo_known w)"

lemma framed_agent_wf: "framed w w' \<Longrightarrow> agent_wf L w' \<longleftrightarrow> agent_wf L w"
  by (simp add: agent_wf_def framed_wf(1,2))

lemmas kept_agent_wf = framed_agent_wf [OF kept_framed]

lemma apply_agreements_wf:
  assumes "text_laws L" "linked L (wo_pool w) (wo_known w)" "memory_wf (wo_known w)"
    and "distinct (map st_key live)" "apply_agreements L live w = (ended, w')"
  shows "linked L (wo_pool w') (wo_known w')" "memory_wf (wo_known w')"
proof -
  from assms(5) obtain pool1 known1 n where
    e: "end_agreements (st_key ` set live) (wo_pool w) (wo_known w) = (ended, pool1, known1)"
    and f: "fold (adopt_one L (wo_now w)) live (0, pool1, known1) = (n, wo_pool w', wo_known w')"
    by (rule apply_agreements_parts)
  from adopt_all [OF end_agreements_eq(5,6) [OF assms(1-3) e] assms(4) f]
  show "linked L (wo_pool w') (wo_known w')" "memory_wf (wo_known w')" by blast+
qed

lemma stored_decode_key: "stored_decode L kind f e = Inr st \<Longrightarrow> st_key st = e_key e"
  by (auto simp: stored_decode_def result_simps)

lemma decode_page_keys:
  assumes "distinct (map e_key es)"
  shows "distinct (map st_key (List.map_filter (\<lambda>e. case stored_decode L kind f e of Inr st \<Rightarrow> Some st | Inl _ \<Rightarrow> None) es))"
    and "st_key ` set (List.map_filter (\<lambda>e. case stored_decode L kind f e of Inr st \<Rightarrow> Some st | Inl _ \<Rightarrow> None) es) \<subseteq> e_key ` set es"
proof -
  let ?f = "\<lambda>e. case stored_decode L kind f e of Inr st \<Rightarrow> Some st | Inl _ \<Rightarrow> None"
  have "distinct (map st_key (List.map_filter ?f es)) \<and> st_key ` set (List.map_filter ?f es) \<subseteq> e_key ` set es"
    using assms
  proof (induction es)
    case (Cons e es)
    then have ih: "distinct (map st_key (List.map_filter ?f es))" "st_key ` set (List.map_filter ?f es) \<subseteq> e_key ` set es"
      by simp_all
    show ?case
    proof (cases "stored_decode L kind f e")
      case (Inl x)
      with ih show ?thesis by (auto simp: List.map_filter_simps)
    next
      case (Inr st)
      have "st_key st \<notin> st_key ` set (List.map_filter ?f es)"
        using stored_decode_key [OF Inr] Cons.prems ih(2) by auto
      with Inr ih stored_decode_key [OF Inr] show ?thesis by (auto simp: List.map_filter_simps)
    qed
  qed (simp add: List.map_filter_simps)
  then show "distinct (map st_key (List.map_filter ?f es))"
    "st_key ` set (List.map_filter ?f es) \<subseteq> e_key ` set es" by blast+
qed

lemma read_agreements_distinct:
  assumes "unique_keys a" "read_agreements L a head w = (w', Inr live)"
  shows "distinct (map st_key live)"
proof -
  obtain w1 q page where q: "rd_query (an_reader a) w1 q = (w', Inr page)"
    "live = sort_key creation (decode_page L KIND_AGREEMENT agreement_decode_fields page)"
    using assms(2) by (auto simp: read_agreements_def Let_def await_simps split: if_splits)
  have "distinct (map st_key (decode_page L KIND_AGREEMENT agreement_decode_fields page))"
    unfolding decode_page_def by (rule decode_page_keys(1) [OF unique_keysD(2) [OF assms(1) q(1)]])
  then have "distinct (map st_key (sort_key creation (decode_page L KIND_AGREEMENT agreement_decode_fields page)))"
    by (simp add: distinct_map)
  then show ?thesis using q(2) by simp
qed

lemma reconcile_agreements_wf:
  assumes "text_laws L" "steady a" "unique_keys a" "agent_wf L w"
  shows "agent_wf L (fst (reconcile_agreements L a w))"
proof -
  obtain w1 r1 where r1: "rd_block_number (an_reader a) w = (w1, r1)" by fastforce
  have k1: "kept w w1" using steady.number_keeps [OF assms(2), of w] by (simp add: r1)
  show ?thesis
  proof (cases r1)
    case (Inl e)
    with assms(4) k1 show ?thesis by (simp add: reconcile_agreements_def r1 kept_agent_wf)
  next
    case (Inr head)
    obtain w2 r2 where r2: "read_agreements L a head w1 = (w2, r2)" by fastforce
    have k2: "kept w w2" using steady.read_agreements_keeps [OF assms(2), of w1 L head] k1
      by (auto simp: r2 intro: kept_trans)
    show ?thesis
    proof (cases r2)
      case (Inl e)
      with assms(4) k2 Inr show ?thesis by (simp add: reconcile_agreements_def r1 r2 kept_agent_wf)
    next
      case live: (Inr live)
      obtain ended w3 where ap: "apply_agreements L live w2 = (ended, w3)" by fastforce
      have d: "distinct (map st_key live)" using read_agreements_distinct [OF assms(3)] r2 live by blast
      have wf2: "linked L (wo_pool w2) (wo_known w2)" "memory_wf (wo_known w2)"
        using assms(4) kept_agent_wf [OF k2] by (auto simp: agent_wf_def)
      have "agent_wf L w3" using apply_agreements_wf [OF assms(1) wf2 d ap] by (simp add: agent_wf_def)
      then have "agent_wf L (close_ended L a ended head w3)"
        using kept_agent_wf [OF steady.close_ended_keeps [OF assms(2), of w3 L ended head]] by blast
      then show ?thesis by (simp add: reconcile_agreements_def r1 Inr r2 live ap)
    qed
  qed
qed

lemma discover_offers_effect:
  assumes "steady a" "unique_keys a" "agent_wf L w" "discover_offers L a head w = (w', n)"
  shows "agent_wf L w' \<and> (\<exists>new offers. deals (wo_known w') = deals (wo_known w) @ new \<and> length new \<le> n \<and>
      n \<le> unat (mc_max_providers (an_config a)) - length (wo_known w) \<and>
      distinct (map (ag_remote_port \<circ> snd) new) \<and>
      (offers = [] \<or> (\<exists>w0 page. rd_query (an_reader a) w (offers_query a head) = (w0, Inr page) \<and> offers = offers_of L a page)) \<and>
      (\<forall>r \<in> snd ` set new. fair_deal a offers (ag_offer ` snd ` set (deals (wo_known w)))
        (deal_providers (deals (wo_known w))) (deal_ports (deals (wo_known w))) r))"
proof -
  obtain w1 r where q: "rd_query (an_reader a) w (offers_query a head) = (w1, r)" by fastforce
  have k: "kept w w1" using steady.query_keeps [OF assms(1), of w "offers_query a head"] by (simp add: q)
  have wf1: "linked L (wo_pool w1) (wo_known w1)" "memory_wf (wo_known w1)"
    using assms(3) kept_agent_wf [OF k] by (auto simp: agent_wf_def)
  note d = kept_deals [OF k]
  show ?thesis
  proof (cases r)
    case (Inl e)
    then have "w' = w1" "n = 0" using assms(4) q by (simp_all add: discover_offers_def)
    with wf1 d show ?thesis by (auto simp: agent_wf_def)
  next
    case (Inr page)
    let ?ds = "deals (wo_known w1)"
    have maps: "map (\<lambda>(_, live). st_record (lv_agreement live)) (wo_known w1) = map snd ?ds"
      by (simp add: deals_def split_def)
    have "offers_loop L a head (unat (mc_max_providers (an_config a)) - length (wo_known w1))
        (ag_offer ` snd ` set ?ds) (offers_of L a page) (deal_providers ?ds) (deal_ports ?ds) 0 w1 = (w', n)"
      using assms(4) q Inr by (simp add: discover_offers_def maps image_comp Let_def)
    from offers_loop_effect [OF assms(1,2) wf1 subset_refl subset_refl this]
    obtain new where "agent_wf L w'" "n \<le> unat (mc_max_providers (an_config a)) - length (wo_known w1)"
      "deals (wo_known w') = ?ds @ new" "length new \<le> n" "distinct (map (ag_remote_port \<circ> snd) new)"
      "\<forall>r \<in> snd ` set new. fair_deal a (offers_of L a page) (ag_offer ` snd ` set ?ds) (deal_providers ?ds) (deal_ports ?ds) r"
      unfolding agent_wf_def add_0 max_0L by blast
    moreover have len: "length (wo_known w1) = length (wo_known w)"
      using arg_cong [OF kept_wf(3) [OF k], of length] by simp
    moreover have "rd_query (an_reader a) w (offers_query a head) = (w1, Inr page)" using q Inr by simp
    ultimately show ?thesis unfolding d len by blast
  qed
qed

section \<open>Properties of the discovery\<close>


text \<open>The lone agreement and a chain with one offer, of provider 6: discovery adds at most one.\<close>

definition offer_shelf :: "query \<Rightarrow> arkiv_entity list" where
  "offer_shelf q = [\<lparr>e_key = 16, e_creator = 6, e_created_at = 50, e_updated_at = 50, e_expires_at = 120,
     e_attributes = attributes_to_read sample_libs (offer_encode sample_libs sample_offer)\<rparr>]"


end
