(* ===== verification/Upkeep.thy ===== *)
theory Upkeep
  imports Flush Acceptance
begin

text \<open>
  What keeps an agreement: the refresh, which extends the eligible providers' agreements and the
  listing; and a tunnel's admission, which waits for the probes and extends one.
\<close>

section \<open>The refresh batch\<close>

definition extend_of :: "'w agent \<Rightarrow> entity_key \<Rightarrow> operation" where
  "extend_of a key = Extend \<lparr>eo_entity_key = key, eo_expiration = Seconds (as_secs (mc_agreement_life (an_config a)))\<rparr>"

definition refreshed :: "'w agent \<Rightarrow> u64 option \<Rightarrow> pool \<Rightarrow> entity_key \<times> live \<Rightarrow> bool" where
  "refreshed a head pool = (\<lambda>(_, l). eligible (entry pool (lv_provider l)) \<and>
     (case head of None \<Rightarrow> True
      | Some h \<Rightarrow> h < st_expires_at (lv_agreement l) \<and>
                  st_expires_at (lv_agreement l) \<le> h + blocks (mc_agreement_life (an_config a))))"

lemma refresh_one_eq:
  "rf_batch (refresh_one a head pool x parts) =
     rf_batch parts @ (if refreshed a head pool x then [extend_of a (fst x)] else [])"
  "rf_ineligible (refresh_one a head pool x parts) =
     rf_ineligible parts + (if eligible (entry pool (lv_provider (snd x))) then 0 else 1)"
  by (cases x; auto simp: refresh_one_def refreshed_def expires_later_def extend_of_def batch_push_def Let_def not_le not_less
      split: option.split)+

lemma fold_refresh_one:
  "rf_batch (fold (refresh_one a head pool) known parts) =
     rf_batch parts @ map (extend_of a \<circ> fst) (filter (refreshed a head pool) known)"
  "rf_ineligible (fold (refresh_one a head pool) known parts) =
     rf_ineligible parts + length (filter (\<lambda>(_, l). \<not> eligible (entry pool (lv_provider l))) known)"
  by (induction known arbitrary: parts) (auto simp: refresh_one_eq split_beta)

text \<open>
  What a refresh extends. The batch holds the listing's extension, unless the listing already
  expires later than a new life would end, and then, in memory's order and each once, the extensions
  of exactly the agreements whose provider is eligible and, when the head is known, that are not yet
  expired and would not end sooner for it: with a known head no extension in the batch shortens a
  record's life. Nothing else is in it; the providers left out for not being eligible are counted.
\<close>

theorem refresh_extends_exactly:
  assumes "distinct (map fst known)"
  shows "rf_batch (refresh_batch a head pool known) =
      (if expires_later head (an_listing_expires_at a) (mc_listing_life (an_config a)) then []
       else [Extend \<lparr>eo_entity_key = an_listing_key a, eo_expiration = Seconds (as_secs (mc_listing_life (an_config a)))\<rparr>]) @
      map (extend_of a \<circ> fst) (filter (refreshed a head pool) known) \<and>
    distinct (map (extend_of a \<circ> fst) (filter (refreshed a head pool) known)) \<and>
    (\<forall>k l h. (k, l) \<in> set known \<longrightarrow> head = Some h \<longrightarrow> k \<noteq> an_listing_key a \<longrightarrow>
       extend_of a k \<in> set (rf_batch (refresh_batch a head pool known)) \<longrightarrow>
       eligible (entry pool (lv_provider l)) \<and> h < st_expires_at (lv_agreement l) \<and>
       st_expires_at (lv_agreement l) \<le> h + blocks (mc_agreement_life (an_config a))) \<and>
    rf_ineligible (refresh_batch a head pool known) =
      length (filter (\<lambda>(_, l). \<not> eligible (entry pool (lv_provider l))) known)"
proof -
  let ?ext = "map (extend_of a \<circ> fst) (filter (refreshed a head pool) known)"
  have batch: "rf_batch (refresh_batch a head pool known) =
      (if expires_later head (an_listing_expires_at a) (mc_listing_life (an_config a)) then []
       else [Extend \<lparr>eo_entity_key = an_listing_key a, eo_expiration = Seconds (as_secs (mc_listing_life (an_config a)))\<rparr>]) @ ?ext"
    by (simp add: refresh_batch_def Let_def fold_refresh_one batch_push_def)
  have inj: "extend_of a k = extend_of a k' \<longleftrightarrow> k = k'" for k k' by (simp add: extend_of_def)
  have "distinct (map fst (filter (refreshed a head pool) known))" using assms by (rule distinct_map_filter)
  then have "distinct (map (extend_of a) (map fst (filter (refreshed a head pool) known)))"
    unfolding distinct_map [of "extend_of a"] by (auto simp: inj_on_def inj)
  then have "distinct ?ext" by (simp only: map_map)
  moreover have "refreshed a head pool (k, l)"
    if "(k, l) \<in> set known" "k \<noteq> an_listing_key a" "extend_of a k \<in> set (rf_batch (refresh_batch a head pool known))" for k l
  proof -
    have "extend_of a k \<in> set ?ext" using that(2,3) unfolding batch by (auto simp: extend_of_def split: if_splits)
    then obtain x where x: "x \<in> set known" "refreshed a head pool x" "fst x = k" by (auto simp: inj)
    with that(1) assms have "x = (k, l)" by (metis eq_key_imp_eq_value prod.collapse)
    with x(2) show ?thesis by simp
  qed
  moreover have "rf_ineligible (refresh_batch a head pool known) =
      length (filter (\<lambda>(_, l). \<not> eligible (entry pool (lv_provider l))) known)"
    by (simp add: refresh_batch_def Let_def fold_refresh_one)
  ultimately show ?thesis using batch by (fastforce simp: refreshed_def)
qed

lemma refresh_extends_exactly_witness:
  "\<exists>a :: unit agent_in. rf_batch (refresh_batch a (Some 20)
       ((wo_pool lone_world)\<lparr>pl_heap := (\<lambda>_. (pl_heap (wo_pool lone_world) 0)\<lparr>p_eligibility := ALL_GATES\<rparr>)\<rparr>)
       (wo_known lone_world)) = [extend_of a 4, extend_of a 9] \<and> extend_of a 4 \<noteq> extend_of a 9"
proof -
  let ?a = "(shelf_agent (\<lambda>_. []))\<lparr>an_config := default_market\<lparr>mc_listing_life := mc_agreement_life default_market\<rparr>\<rparr> :: unit agent_in"
  let ?pool = "(wo_pool lone_world)\<lparr>pl_heap := (\<lambda>_. (pl_heap (wo_pool lone_world) 0)\<lparr>p_eligibility := ALL_GATES\<rparr>)\<rparr>"
  have d: "distinct (map fst (wo_known lone_world))" by (simp add: lone_world_def)
  have "eligible (entry ?pool 0)" by (simp add: eligible_def entry_def lone_world_def)
  then have "filter (refreshed ?a (Some 20) ?pool) (wo_known lone_world) = wo_known lone_world"
    by (simp add: refreshed_def lone_world_def lone_live_def default_market_def marketplace_defaults_def
        blocks_def as_secs_def secs_def)
  moreover have "\<not> expires_later (Some 20) (an_listing_expires_at ?a) (mc_listing_life (an_config ?a))"
    by (simp add: expires_later_def default_market_def marketplace_defaults_def blocks_def as_secs_def secs_def)
  ultimately have "rf_batch (refresh_batch ?a (Some 20) ?pool (wo_known lone_world)) = [extend_of ?a 4, extend_of ?a 9]"
    using refresh_extends_exactly [OF d, of ?a "Some 20" ?pool] by (simp add: lone_world_def extend_of_def)
  then show ?thesis by (intro exI [of _ ?a]) (simp add: extend_of_def)
qed

section \<open>The admission\<close>

lemma admission_wait_ends:
  assumes tick: "\<And>w. wo_now w + ADMISSION_POLL \<le> wo_now (an_sleep a w ADMISSION_POLL)"
  shows "\<exists>w' passed. admission_wait a p deadline w = Some (w', passed) \<and>
    (if passed then healthy (entry (wo_pool w') p) else deadline \<le> wo_now w' \<and> \<not> healthy (entry (wo_pool w') p))"
proof (induction "deadline - wo_now w" arbitrary: w rule: less_induct)
  case less
  show ?case
  proof (cases "healthy (entry (wo_pool w) p) \<or> deadline \<le> wo_now w")
    case True
    then show ?thesis by (subst admission_wait.simps) auto
  next
    case False
    let ?w = "an_sleep a w ADMISSION_POLL"
    have "0 < ADMISSION_POLL" by (simp add: ADMISSION_POLL_def)
    then have "deadline - wo_now ?w < deadline - wo_now w" using tick [of w] False by linarith
    from less [OF this] False show ?thesis by (subst admission_wait.simps) simp
  qed
qed

text \<open>
  C31. An admission ends, and extends only what it should. Let a sleep take at least as long as it
  is asked for. Then the steps after a tunnel's admission end, whatever the prober does: with the
  agreement left alone when the provider is still unhealthy at the deadline, or when the check that
  follows its health finds wrong data; and with one extension otherwise, whose answer's expiry memory
  takes under the agreement's key and under no other.
\<close>

theorem admission_ends:
  assumes tick: "\<And>w. wo_now w + ADMISSION_POLL \<le> wo_now (an_sleep a w ADMISSION_POLL)"
  shows "\<exists>w1 passed wc w2 e. admission_wait a p (wo_now w + mc_offer_max_lifetime (an_config a)) w = Some (w1, passed) \<and>
    passed = healthy (entry (wo_pool w1) p) \<and> admission a p key w = Some (w2, e) \<and>
    wc = (case an_integrity a of None \<Rightarrow> w1 | Some verify \<Rightarrow> verify w1 p) \<and>
    (e = ProbesDidNotPass \<longleftrightarrow> \<not> passed) \<and>
    (\<not> passed \<longrightarrow> w2 = w1 \<and> wo_now w + mc_offer_max_lifetime (an_config a) \<le> wo_now w1) \<and>
    (e = ServesWrongData \<longleftrightarrow> passed \<and> an_integrity a \<noteq> None \<and> serving_wrong_data (entry (wo_pool wc) p)) \<and>
    (e = ServesWrongData \<longrightarrow> w2 = wc) \<and>
    (\<exists>w3 answer. w_extend (an_writer a) wc \<lparr>eo_entity_key = key,
         eo_expiration = Seconds (as_secs (mc_agreement_life (an_config a)))\<rparr> = (w3, answer) \<and>
       (e = ExtendFailed \<longrightarrow> w2 = w3 \<and> isl answer) \<and>
       (e = RecordExtended \<longrightarrow> (\<exists>x. answer = Inr x \<and> map_of (wo_known w2) = (\<lambda>k. if k = key
          then map_option (\<lambda>l. l\<lparr>lv_agreement := (lv_agreement l)\<lparr>st_expires_at := xd_expires_at x\<rparr>\<rparr>) (map_of (wo_known w3) k)
          else map_of (wo_known w3) k))))"
proof -
  let ?ext = "\<lparr>eo_entity_key = key, eo_expiration = Seconds (as_secs (mc_agreement_life (an_config a)))\<rparr>"
  from admission_wait_ends [OF tick] obtain w1 passed where w1:
    "admission_wait a p (wo_now w + mc_offer_max_lifetime (an_config a)) w = Some (w1, passed)"
    "passed = healthy (entry (wo_pool w1) p)"
    "\<not> passed \<Longrightarrow> wo_now w + mc_offer_max_lifetime (an_config a) \<le> wo_now w1"
    by (metis (full_types))
  define wc where "wc = (case an_integrity a of None \<Rightarrow> w1 | Some verify \<Rightarrow> verify w1 p)"
  define wrong where "wrong \<longleftrightarrow> an_integrity a \<noteq> None \<and> serving_wrong_data (entry (wo_pool wc) p)"
  obtain w3 answer where w3: "w_extend (an_writer a) wc ?ext = (w3, answer)" by fastforce
  have adm: "admission a p key w = (if \<not> passed then Some (w1, ProbesDidNotPass)
      else if wrong then Some (wc, ServesWrongData) else Some (admission_extend a key wc))"
    by (auto simp: admission_def w1(1) wc_def wrong_def Let_def split: option.split)
  have ext: "admission_extend a key wc = (case answer of
      Inr x \<Rightarrow> (w3\<lparr>wo_known := al_modify key (\<lambda>l. l\<lparr>lv_agreement := (lv_agreement l)\<lparr>st_expires_at := xd_expires_at x\<rparr>\<rparr>)
        (wo_known w3)\<rparr>, RecordExtended) | Inl e \<Rightarrow> (w3, ExtendFailed))"
    by (simp add: admission_extend_def w3)
  obtain w2 e where e: "admission a p key w = Some (w2, e)"
    unfolding adm by (metis surj_pair)
  have known: "map_of (al_modify key f m) = (\<lambda>k. if k = key then map_option f (map_of m k) else map_of m k)"
    for f and m :: known_agreements by (simp add: map_of_al_modify fun_eq_iff)
  consider (sick) "\<not> passed" "w2 = w1" "e = ProbesDidNotPass"
    | (wrong) passed wrong "w2 = wc" "e = ServesWrongData"
    | (failed) err where passed "\<not> wrong" "answer = Inl err" "w2 = w3" "e = ExtendFailed"
    | (extended) x where passed "\<not> wrong" "answer = Inr x" "e = RecordExtended"
        "wo_known w2 = al_modify key (\<lambda>l. l\<lparr>lv_agreement := (lv_agreement l)\<lparr>st_expires_at := xd_expires_at x\<rparr>\<rparr>) (wo_known w3)"
    using e unfolding adm ext by (auto split: if_splits sum.splits)
  note ways = this
  have last: "w_extend (an_writer a) wc ?ext = (w3, answer) \<and> (e = ExtendFailed \<longrightarrow> w2 = w3 \<and> isl answer) \<and>
      (e = RecordExtended \<longrightarrow> (\<exists>x. answer = Inr x \<and> map_of (wo_known w2) = (\<lambda>k. if k = key
          then map_option (\<lambda>l. l\<lparr>lv_agreement := (lv_agreement l)\<lparr>st_expires_at := xd_expires_at x\<rparr>\<rparr>) (map_of (wo_known w3) k)
          else map_of (wo_known w3) k)))"
    using w3 by (cases rule: ways) (simp_all add: known)
  have kinds: "e = ProbesDidNotPass \<longleftrightarrow> \<not> passed" "\<not> passed \<longrightarrow> w2 = w1"
    "e = ServesWrongData \<longleftrightarrow> passed \<and> wrong" "e = ServesWrongData \<longrightarrow> w2 = wc"
    by (cases rule: ways; simp)+
  show ?thesis
    by (rule exI [of _ w1], rule exI [of _ passed], rule exI [of _ wc], rule exI [of _ w2], rule exI [of _ e],
        intro conjI w1(1,2) e wc_def kinds(1,4) kinds(3) [unfolded wrong_def])
      (use kinds(2) w1(3) last in blast)+
qed

definition well_world :: "unit world" where
  "well_world = lone_world\<lparr>wo_pool := (wo_pool lone_world)
     \<lparr>pl_heap := (\<lambda>_. (pl_heap (wo_pool lone_world) 0)\<lparr>p_eligibility := ALL_GATES\<rparr>)\<rparr>\<rparr>"

lemma well_entry: "healthy (entry (wo_pool well_world) 0)" "\<not> serving_wrong_data (entry (wo_pool well_world) 0)"
  by (simp_all add: well_world_def entry_def healthy_def serving_wrong_data_def ALL_GATES_eq)

lemma admission_ends_witness:
  "\<exists>w2. admission (shelf_agent (\<lambda>_. [])) 0 9 well_world = Some (w2, RecordExtended) \<and>
     map_option (st_expires_at \<circ> lv_agreement) (map_of (wo_known w2) 9) = Some 500"
proof -
  let ?a = "shelf_agent (\<lambda>_. []) :: unit agent_in"
  have tick: "wo_now w + ADMISSION_POLL \<le> wo_now (an_sleep ?a w ADMISSION_POLL)" for w by simp
  have wait: "admission_wait ?a 0 deadline well_world = Some (well_world, True)" for deadline
    by (subst admission_wait.simps) (simp add: well_entry)
  from admission_ends [of ?a 0 well_world 9, OF tick, unfolded wait]
  obtain w2 e where e: "admission ?a 0 9 well_world = Some (w2, e)" "e \<noteq> ProbesDidNotPass" "e \<noteq> ServesWrongData"
    "e \<noteq> ExtendFailed" "e = RecordExtended \<longrightarrow> map_option (st_expires_at \<circ> lv_agreement) (map_of (wo_known w2) 9) = Some 500"
    by (elim exE) (simp add: well_entry shelf_writer_def well_world_def lone_world_def)
  then have "e = RecordExtended" by (cases e) simp_all
  with e show ?thesis by blast
qed

section \<open>The listing\<close>

definition desired_listing :: "marketplace_config \<Rightarrow> lb_listing" where
  "desired_listing config = \<lparr>ll_wei_per_call = mc_wei_per_call config, ll_tunnel_server = mc_tunnel_server config,
     ll_max_providers = mc_max_providers config\<rparr>"

lemma sorted_head_least:
  assumes "sort_key creation xs = x # rest" "y \<in> set xs"
  shows "creation x \<le> creation y"
proof -
  have "sorted (map creation (x # rest))" using sorted_sort_key [of creation xs] by (simp only: assms(1))
  moreover have "y \<in> set (x # rest)" using assms(2) set_sort [of creation xs] by (simp only: assms(1))
  ultimately show ?thesis by auto
qed

text \<open>
  One listing, as configured. When the start finds listings of its own, it keeps the oldest:
  its key and expiry are the agent's, nothing is written when it already says what the configuration
  does, and otherwise one patch is, under that key, after which its attributes are those of the
  configured listing. With none, one is created, for the configured life, and its answer gives the key.
\<close>

theorem listing_is_kept_up:
  assumes "rd_query reader w (query_expires_after head (query_creator lb (query_kind KIND_LB_LISTING))) = (w1, Inr page)"
    and ls: "ls = decode_page L KIND_LB_LISTING listing_decode_fields page"
    and e: "ensure_listing L reader writer config lb head w = (w', Inr (key, expires))"
  shows "(ls = [] \<longrightarrow> (\<exists>created. w_create writer w1 (create_new (listing_encode L (desired_listing config))
        (Seconds (as_secs (mc_listing_life config)))) = (w', Inr created) \<and>
      key = cd_entity_key created \<and> expires = cd_expires_at created)) \<and>
    (ls \<noteq> [] \<longrightarrow> (\<exists>kept \<in> set ls. (\<forall>other \<in> set ls. creation kept \<le> creation other) \<and>
       key = st_key kept \<and> expires = st_expires_at kept \<and>
       (if st_record kept = desired_listing config then w' = w1
        else \<exists>patch written. w_patch writer w1 patch = (w', Inr written) \<and> po_entity_key patch = key \<and>
          map_of (listing_encode L (st_record kept)) ++ map_of (po_set patch) =
            map_of (listing_encode L (desired_listing config)))))"
proof (cases "sort_key creation ls")
  case Nil
  then have "ls = []" using set_sort [of creation ls] by (simp only: list.set) simp
  with e assms(1) show ?thesis
    by (auto simp: ensure_listing_def ls [symmetric] desired_listing_def Let_def await_simps)
next
  case (Cons kept rest)
  have "set ls = set (kept # rest)" using set_sort [of creation ls] by (simp only: Cons)
  then have kept: "kept \<in> set ls" by simp
  have least: "\<forall>other \<in> set ls. creation kept \<le> creation other" using sorted_head_least [OF Cons] by blast
  let ?patch = "\<lparr>po_entity_key = st_key kept,
    po_set = keep (listing_encode L (desired_listing config)) [PAYLOAD_ATTRIBUTE]\<rparr>"
  have "key = st_key kept \<and> expires = st_expires_at kept \<and>
      (if st_record kept = desired_listing config then w' = w1
       else \<exists>written. w_patch writer w1 ?patch = (w', Inr written))"
    using e assms(1) Cons
    by (auto simp: ensure_listing_def ls [symmetric] desired_listing_def Let_def await_simps split: if_splits)
  then have "key = st_key kept \<and> expires = st_expires_at kept \<and>
       (if st_record kept = desired_listing config then w' = w1
        else \<exists>patch written. w_patch writer w1 patch = (w', Inr written) \<and> po_entity_key patch = key \<and>
          map_of (listing_encode L (st_record kept)) ++ map_of (po_set patch) =
            map_of (listing_encode L (desired_listing config)))"
    using listing_patch_merges [of L "st_record kept" "desired_listing config"]
    by (auto split: if_splits intro!: exI [of _ ?patch])
  moreover have "ls \<noteq> []" using kept by auto
  ultimately show ?thesis using kept least by blast
qed

lemma listing_is_kept_up_witness:
  "\<exists>w' key expires. ensure_listing std_libs (shelf_reader (\<lambda>_. [])) shelf_writer default_market 1 100 lone_world =
      (w', Inr (key, expires)) \<and> key = 31 \<and> expires = 400"
proof -
  let ?q = "query_expires_after 100 (query_creator 1 (query_kind KIND_LB_LISTING))"
  have q: "rd_query (shelf_reader (\<lambda>_. [])) lone_world ?q =
      (lone_world, Inr \<lparr>pg_entities = [], pg_more = False, pg_block = 100\<rparr>)" by (simp add: shelf_reader_def)
  have l: "[] = decode_page std_libs KIND_LB_LISTING listing_decode_fields \<lparr>pg_entities = [], pg_more = False, pg_block = 100\<rparr>"
    by (simp add: decode_page_def List.map_filter_simps)
  have create: "w_create shelf_writer lone_world c = (lone_world, Inr \<lparr>cd_entity_key = 31, cd_tx_hash = [], cd_expires_at = 400\<rparr>)"
    for c by (simp add: shelf_writer_def held_keys_def lone_world_def)
  have "\<exists>w' key expires. ensure_listing std_libs (shelf_reader (\<lambda>_. [])) shelf_writer default_market 1 100 lone_world =
      (w', Inr (key, expires))"
    by (simp add: ensure_listing_def q decode_page_def List.map_filter_simps create Let_def)
  then obtain w' key expires where e: "ensure_listing std_libs (shelf_reader (\<lambda>_. [])) shelf_writer default_market 1 100 lone_world =
      (w', Inr (key, expires))" by blast
  from listing_is_kept_up [OF q l e] e show ?thesis by (auto simp: create)
qed

end
