(* ===== verification/Running.thy ===== *)
theory Running
  imports Flush Acceptance
begin

text \<open>
  The agent's task from its start to its shutdown: memory and the pool stay well formed whatever
  the ticks, the answers and the other tasks.
\<close>

lemma agent_wf_sbind:
  assumes "agent_wf L (fst x)" "\<And>w v. x = (w, Inr v) \<Longrightarrow> agent_wf L (fst (f w v))"
  shows "agent_wf L (fst (sbind x f))"
  using assms by (cases "(x, f)" rule: sbind.cases) auto

lemma reconcile_counters_wf:
  "steady a \<Longrightarrow> agent_wf L w \<Longrightarrow> agent_wf L (fst (reconcile_counters L a head w))"
  using framed_agent_wf [OF reconcile_counters_framed] by blast

lemma discover_offers_wf:
  "steady a \<Longrightarrow> unique_keys a \<Longrightarrow> agent_wf L w \<Longrightarrow> agent_wf L (fst (discover_offers L a head w))"
  using discover_offers_effect [of a L w head] by (cases "discover_offers L a head w") auto

lemma discovery_poll_wf:
  assumes "text_laws L" "steady a" "unique_keys a" "agent_wf L w"
  shows "agent_wf L (discovery_poll L a w)"
proof -
  obtain w1 r where r: "reconcile_agreements L a w = (w1, r)" by fastforce
  have w1: "agent_wf L w1" using reconcile_agreements_wf [OF assms] by (simp add: r)
  have rest: "agent_wf L (fst (discover_offers L a head (fst (reconcile_counters L a head w'))))"
    if "agent_wf L w'" for head w'
    using that assms(2,3) by (intro discover_offers_wf reconcile_counters_wf)
  obtain w2 h where h: "rd_block_number (an_reader a) w1 = (w2, h)" by fastforce
  have "kept w1 w2" using steady.number_keeps [OF assms(2), of w1] by (simp add: h)
  then have "agent_wf L w2" using w1 kept_agent_wf by blast
  then show ?thesis
    using w1 rest
    by (auto simp: discovery_poll_def r h Let_def split: sum.split reconcile_error.split)
qed

lemma refresh_keeps:
  assumes "steady a"
  shows "kept w (fst (refresh a w))"
proof -
  obtain w1 b low where g: "gas_balance a w = (w1, b, low)" by (metis prod_cases3)
  have "fst (gas_balance a w) = fst (rd_balance (an_reader a) w (id_address (an_identity a)))"
    by (simp add: gas_balance_def split: prod.split sum.split)
  with steady.balance_keeps [OF assms, of w] have k1: "kept w w1" by (simp add: g)
  obtain w2 h where h: "rd_block_number (an_reader a) w1 = (w2, h)" by fastforce
  have k2: "kept w1 w2" using steady.number_keeps [OF assms, of w1] by (simp add: h)
  have "kept w2 (fst (send (an_writer a) w2 batch))" for batch by (rule steady.send_keeps [OF assms])
  then have "kept w2 (fst (refresh a w))"
    by (auto simp: refresh_def g h Let_def split: sum.split prod.split) (metis fst_conv)+
  with k1 k2 show ?thesis by (blast intro: kept_trans)
qed

lemma end_periods_framed: "framed w (snd (end_periods L a closing landed head w))"
  using forget_framed [of w] unfolding end_periods_eq by (simp add: framed_def)

lemma flush_with_wf:
  assumes "steady a" "agent_wf L w"
  shows "agent_wf L (fst (flush_with L a kind w))"
proof -
  obtain w1 h where h: "rd_block_number (an_reader a) w = (w1, h)" by fastforce
  have "kept w w1" using steady.number_keeps [OF assms(1), of w] by (simp add: h)
  then have wf1: "agent_wf L w1" using assms(2) kept_agent_wf by blast
  show ?thesis
  proof (cases h)
    case (Inl e)
    with wf1 show ?thesis by (simp add: flush_with_def h)
  next
    case head: (Inr head)
    obtain w2 c where c: "reconcile_counters L a head w1 = (w2, c)" by fastforce
    have wf2: "agent_wf L w2" using reconcile_counters_wf [OF assms(1) wf1, of head] by (simp add: c)
    show ?thesis
    proof (cases c)
      case (Inl e)
      with wf2 head show ?thesis by (simp add: flush_with_def h c)
    next
      case (Inr cs)
      obtain batch closing where b: "counts_batch L a cs head kind (wo_pool w2) (wo_known w2) = (batch, closing)" by fastforce
      obtain w3 landed where s: "send_flush a batch w2 = (w3, landed)" by fastforce
      obtain succ w4 where e: "end_periods L a closing landed head w3 = (succ, w4)" by fastforce
      have "kept w2 w3" using send_flush_keeps [OF assms(1), of w2 batch] by (simp add: s)
      then have "agent_wf L w3" using wf2 kept_agent_wf by blast
      moreover have "framed w3 w4" using end_periods_framed [of w3 L a closing landed head] by (simp add: e)
      ultimately have "agent_wf L w4" using framed_agent_wf by blast
      moreover have "kept w4 (fst (send_flush a succ w4))" by (rule send_flush_keeps [OF assms(1)])
      ultimately have "agent_wf L (fst (send_flush a succ w4))" using kept_agent_wf by blast
      then show ?thesis by (simp add: flush_with_def h head c Inr b s e Let_def split_beta)
    qed
  qed
qed

lemma agent_run_wf:
  assumes "text_laws L" "steady a" "unique_keys a" "\<And>w. kept w (wait w)" "agent_wf L w"
  shows "agent_wf L (agent_run L a wait ticks w)"
  using assms(5)
proof (induction ticks arbitrary: w)
  case (Cons tick ticks)
  have wf: "agent_wf L (wait w)" using Cons.prems kept_agent_wf [OF assms(4)] by blast
  show ?case
  proof (cases tick)
    case DiscoveryTick
    with Cons.IH [OF discovery_poll_wf [OF assms(1-3) wf]] show ?thesis by (simp add: Let_def)
  next
    case RefreshTick
    have "agent_wf L (fst (refresh a (wait w)))" using wf kept_agent_wf [OF refresh_keeps [OF assms(2)]] by blast
    with Cons.IH RefreshTick show ?thesis by (simp add: Let_def)
  next
    case FlushTick
    with Cons.IH flush_with_wf [OF assms(2) wf] show ?thesis by (simp add: Let_def flush_def)
  next
    case ShutdownSignal
    with flush_with_wf [OF assms(2) wf] show ?thesis by (simp add: Let_def shutdown_flush_def)
  qed
qed simp

section \<open>The start\<close>

lemma steady_same:
  "steady a \<Longrightarrow> an_reader b = an_reader a \<Longrightarrow> an_writer b = an_writer a \<Longrightarrow> an_port_bound b = an_port_bound a \<Longrightarrow> steady b"
  by (simp add: steady_def)

lemma unique_keys_same:
  "unique_keys a \<Longrightarrow> an_reader b = an_reader a \<Longrightarrow> an_writer b = an_writer a \<Longrightarrow> unique_keys b"
  by (simp add: unique_keys_def)

lemma ensure_listing_keeps:
  assumes "steady a"
  shows "kept w (fst (ensure_listing L (an_reader a) (an_writer a) config lb head w))"
  unfolding ensure_listing_def Let_def
proof (rule steady.sbind_keeps [OF assms])
  show "kept w (fst (serr StartChain (rd_query (an_reader a) w
      (query_expires_after head (query_creator lb (query_kind KIND_LB_LISTING))))))"
    using steady.query_keeps [OF assms] by (simp add: steady.serr_keeps [OF assms])
qed (auto split: list.split intro!: steady.sbind_keeps [OF assms]
      simp: steady.serr_keeps [OF assms] steady.create_keeps [OF assms] steady.patch_keeps [OF assms])

text \<open>The agent a start leaves, with the invariant it starts from.\<close>

lemma start_wf:
  assumes "text_laws L" "steady (agent_of reader writer config bound sleep i0)"
    and "unique_keys (agent_of reader writer config bound sleep i0)"
    and "agent_wf L w" "wo_known w = []"
    and "start L reader writer config bound sleep w = (w', Inr a)"
  shows "agent_wf L w' \<and> steady a \<and> unique_keys a \<and> an_config a = config"
proof -
  let ?a = "agent_of reader writer config bound sleep"
  from assms(6) obtain w0 i w1 head1 w2 cs w3 head2 key expires where s:
    "w_identity writer w = (w0, Inr i)"
    "reconcile_agreements L (?a i) (w0\<lparr>wo_known := []\<rparr>) = (w1, Inr head1)"
    "reconcile_counters L (?a i) head1 w1 = (w2, Inr cs)"
    "rd_block_number reader w2 = (w3, Inr head2)"
    "ensure_listing L reader writer config (id_address i) head2 w3 = (w', Inr (key, expires))"
    "a = (?a i)\<lparr>an_listing_key := key, an_listing_expires_at := expires\<rparr>"
    by (auto simp: start_def Let_def await_simps)
  have st: "steady (?a i)" and uk: "unique_keys (?a i)"
    by (rule steady_same [OF assms(2)] unique_keys_same [OF assms(3)]; simp add: agent_of_def)+
  have reader: "an_reader (?a i) = reader" "an_writer (?a i) = writer" by (simp_all add: agent_of_def)
  have k0: "kept w w0" using steady.identity_keeps [OF st, of w] by (simp add: reader s(1))
  then have "core (wo_known w0) = []" using assms(5) by (simp add: kept_def core_def)
  then have "wo_known w0 = []" by (simp add: core_def)
  then have "w0\<lparr>wo_known := []\<rparr> = w0" by simp
  then have "agent_wf L (w0\<lparr>wo_known := []\<rparr>)" using assms(4) kept_agent_wf [OF k0] by simp
  from reconcile_agreements_wf [OF assms(1) st uk this] have "agent_wf L w1" by (simp add: s(2))
  from reconcile_counters_wf [OF st this, of head1] have wf2: "agent_wf L w2" by (simp add: s(3))
  have "kept w2 w3" using steady.number_keeps [OF st, of w2] by (simp add: reader s(4))
  moreover have "kept w3 w'" using ensure_listing_keeps [OF st, of w3 L config "id_address i" head2]
    by (simp add: reader s(5))
  ultimately have "agent_wf L w'" using wf2 kept_agent_wf by blast
  moreover have "steady a" "unique_keys a"
    by (rule steady_same [OF st] unique_keys_same [OF uk]; simp add: s(6))+
  ultimately show ?thesis by (simp add: s(6) agent_of_def)
qed


definition static_world :: "unit world" where
  "static_world = \<lparr>wo_env = (), wo_now = 0,
     wo_pool = \<lparr>pl_members = [0], pl_cursor = 0, pl_outcomes = no_outcomes,
       pl_heap = (\<lambda>_. (from_marketplace std_libs 0 5 9 7001)\<lparr>p_id := ''static'', p_source := Static\<rparr>), pl_fresh = 1\<rparr>,
     wo_known = [], wo_tasks = {}, wo_spawned = 0\<rparr>"


end
