(* ===== verification/Tunnels.thy ===== *)
theory Tunnels
  imports Upkeep Running
begin

text \<open>
  The agent as the admission route's provider of agreements, and what its start writes.
\<close>

section \<open>The agent behind the admission route\<close>

definition tunnels_ok :: "'e world \<Rightarrow> bool" where
  "tunnels_ok w \<longleftrightarrow> memory_wf (wo_known w) \<and> distinct (map (live_port \<circ> snd) (wo_known w))"

lemma admitted_effect:
  "wo_known (fst (admitted a st w)) = wo_known w \<or>
   (\<exists>task. wo_known (fst (admitted a st w)) =
      al_modify (st_key st) (\<lambda>live. live\<lparr>lv_admission_task := Some task\<rparr>) (wo_known w))"
  by (auto simp: admitted_def Let_def split: option.splits)

lemma admitted_framed:
  "sketch (wo_known (fst (admitted a st w))) = sketch (wo_known w) \<and>
   deals (wo_known (fst (admitted a st w))) = deals (wo_known w)"
  using admitted_effect [of a st w] by (elim disjE exE) (simp_all add: sketch_al_modify deals_al_modify)

interpretation tunnels: agreements tunnels_ok agent_agreement "\<lambda>st w. fst (admitted a st w)"
proof unfold_locales
  fix w :: "'a world" and k st
  assume "tunnels_ok w" "agent_agreement w k = Some st"
  then show "st_key st = k"
    by (auto simp: tunnels_ok_def agent_agreement_def dest!: map_of_SomeD intro: memory_wfD(3))
next
  fix w :: "'a world" and k k' x y
  assume ok: "tunnels_ok w" and x: "agent_agreement w k = Some x" and y: "agent_agreement w k' = Some y"
    and port: "ag_remote_port (st_record x) = ag_remote_port (st_record y)"
  from x y obtain l l' where l: "(k, l) \<in> set (wo_known w)" "x = lv_agreement l"
    "(k', l') \<in> set (wo_known w)" "y = lv_agreement l'"
    by (auto simp: agent_agreement_def dest!: map_of_SomeD)
  have "inj_on (live_port \<circ> snd) (set (wo_known w))" using ok by (simp add: tunnels_ok_def distinct_map)
  from inj_onD [OF this, of "(k, l)" "(k', l')"] l port show "k = k'" by simp
next
  fix w :: "'a world" and st
  assume "tunnels_ok w"
  with admitted_framed [of a st w] show "tunnels_ok (fst (admitted a st w))"
    by (simp add: tunnels_ok_def sketch_cong(1) [of "wo_known (fst (admitted a st w))" "wo_known w"] deals_maps(2))
next
  fix w :: "'a world" and st
  show "agent_agreement (fst (admitted a st w)) = agent_agreement w"
    using admitted_effect [of a st w]
    by (auto simp: agent_agreement_def map_of_al_modify fun_eq_iff option.map_comp o_def)
qed

text \<open>
  One client per tunnel. While the agreements' ports differ, two clients let in under the same
  proxy name carry the same agreement and the same port, and both signed for the provider that
  agreement is with; and serving any callback, the admissions it starts included, leaves the
  agreements that decide the next one, their ports and memory's form as they were.
\<close>

theorem one_client_per_tunnel:
  assumes "tunnels_ok w"
  shows "(decide_admission L (NewProxy p name) t (agent_agreement w (tk_agreement t)) = Inr () \<longrightarrow>
      decide_admission L (NewProxy p' name) t' (agent_agreement w (tk_agreement t')) = Inr () \<longrightarrow>
      tk_agreement t = tk_agreement t' \<and> p = p' \<and>
      recover_address L (tk_signature t) (token_message L (tk_agreement t)) =
        recover_address L (tk_signature t') (token_message L (tk_agreement t'))) \<and>
    (admission_route L (agent_agreement w) (\<lambda>st w. fst (admitted a st w)) bad body w = (resp, w') \<longrightarrow>
      tunnels_ok w' \<and> agent_agreement w' = agent_agreement w)"
proof (intro conjI impI)
  assume t: "decide_admission L (NewProxy p name) t (agent_agreement w (tk_agreement t)) = Inr ()"
    "decide_admission L (NewProxy p' name) t' (agent_agreement w (tk_agreement t')) = Inr ()"
  from tunnels.one_tunnel_per_name [OF assms t] show same: "tk_agreement t = tk_agreement t'" and "p = p'" by blast+
  from t [unfolded decide_Inr] obtain x y where "agent_agreement w (tk_agreement t) = Some x"
    "recover_address L (tk_signature t) (token_message L (tk_agreement t)) = Some (ag_provider (st_record x))"
    "agent_agreement w (tk_agreement t') = Some y"
    "recover_address L (tk_signature t') (token_message L (tk_agreement t')) = Some (ag_provider (st_record y))" by blast
  with same show "recover_address L (tk_signature t) (token_message L (tk_agreement t)) =
      recover_address L (tk_signature t') (token_message L (tk_agreement t'))"
    by simp
next
  assume "admission_route L (agent_agreement w) (\<lambda>st w. fst (admitted a st w)) bad body w = (resp, w')"
  from tunnels.route_keeps [OF assms this] show "tunnels_ok w'" "agent_agreement w' = agent_agreement w" by blast+
qed

lemma one_client_per_tunnel_witness:
  "\<exists>resp w'. admission_route signed_libs (agent_agreement lone_world) (\<lambda>st w. fst (admitted (shelf_agent (\<lambda>_. [])) st w))
     [] (Inr admitted_callback) lone_world = (resp, w') \<and> tunnels_ok w' \<and> agent_agreement w' = agent_agreement lone_world"
proof -
  obtain resp w' where r: "admission_route signed_libs (agent_agreement lone_world)
      (\<lambda>st w. fst (admitted (shelf_agent (\<lambda>_. [])) st w)) [] (Inr admitted_callback) lone_world = (resp, w')" by fastforce
  have "tunnels_ok lone_world" using lone_wf(2) by (simp add: tunnels_ok_def lone_world_def)
  from one_client_per_tunnel [OF this, THEN conjunct2, rule_format, OF r] r show ?thesis by blast
qed

definition leaves_task :: "nat \<Rightarrow> entity_key \<Rightarrow> other_step \<Rightarrow> bool" where
  "leaves_task task key step \<longleftrightarrow> step \<noteq> TaskFinished task \<and> (\<forall>t. step \<noteq> TaskNoted key t)"

lemma leaves_task_running:
  "\<forall>step \<in> set steps. leaves_task task key step \<Longrightarrow>
   task \<in> wo_tasks w \<Longrightarrow> \<exists>l. map_of (wo_known w) key = Some l \<and> lv_admission_task l = Some task \<Longrightarrow>
   task \<in> wo_tasks (fold other_apply steps w) \<and>
   (\<exists>l. map_of (wo_known (fold other_apply steps w)) key = Some l \<and> lv_admission_task l = Some task)"
proof (induction steps arbitrary: w)
  case (Cons step steps)
  have "task \<in> wo_tasks (other_apply step w) \<and>
      (\<exists>l. map_of (wo_known (other_apply step w)) key = Some l \<and> lv_admission_task l = Some task)"
    using Cons.prems by (cases step) (auto simp: leaves_task_def map_of_al_modify)
  with Cons show ?case by simp
qed simp



section \<open>What the start writes\<close>

lemma read_agreements_writer:
  assumes "an_reader b = an_reader a" "an_identity b = an_identity a"
  shows "read_agreements L b head w = read_agreements L a head w"
  unfolding read_agreements_def assms ..

lemma closed_counts_writer:
  assumes "an_reader b = an_reader a" "an_identity b = an_identity a"
  shows "closed_counts L b = closed_counts L a"
proof (intro ext)
  fix missing w
  have one: "closed_count L b = closed_count L a"
    by (intro ext) (unfold closed_count_def assms, rule refl)
  show "closed_counts L b missing w = closed_counts L a missing w"
  proof (induction missing arbitrary: w)
    case (Cons x missing)
    then have "closed_counts L b missing = closed_counts L a missing" by (rule ext)
    then show ?case by (cases x) (simp add: one)
  qed simp
qed

lemma reconcile_counters_writer:
  assumes "an_reader b = an_reader a" "an_identity b = an_identity a"
  shows "reconcile_counters L b head w = reconcile_counters L a head w"
  unfolding reconcile_counters_def read_open_counters_def forget_closed_counters_def
    closed_counts_writer [OF assms] assms ..

text \<open>With nothing in memory nothing ends, so the agreements' reconcile has nothing to write.\<close>

lemma apply_agreements_empty:
  "wo_known w = [] \<Longrightarrow> fst (apply_agreements L live w) = []"
  by (simp add: apply_agreements_def end_agreements_def split: prod.split)

lemma reconcile_agreements_writer:
  assumes "steady a" "wo_known w = []" "an_reader b = an_reader a" "an_identity b = an_identity a"
  shows "reconcile_agreements L b w = reconcile_agreements L a w"
proof -
  obtain w1 r1 where r1: "rd_block_number (an_reader a) w = (w1, r1)" by fastforce
  have k1: "kept w w1" using steady.number_keeps [OF assms(1), of w] by (simp add: r1)
  show ?thesis
  proof (cases r1)
    case (Inl e)
    then show ?thesis by (simp add: reconcile_agreements_def assms(3) r1)
  next
    case (Inr head)
    obtain w2 r2 where r2: "read_agreements L a head w1 = (w2, r2)" by fastforce
    have "kept w1 w2" using steady.read_agreements_keeps [OF assms(1), of w1 L head] by (simp add: r2)
    then have "kept w w2" using k1 by (rule kept_trans [rotated])
    then have "wo_known w2 = []" using assms(2) by (simp add: kept_def core_def)
    then have "fst (apply_agreements L live w2) = []" for live by (rule apply_agreements_empty)
    then show ?thesis
      using r1 r2 Inr
      by (cases r2) (simp_all add: reconcile_agreements_def assms(3) read_agreements_writer [OF assms(3,4)]
          split_beta close_ended_def send_def)
  qed
qed

lemma ensure_listing_writer:
  assumes "w_create W' = w_create W" "w_patch W' = w_patch W"
  shows "ensure_listing L reader W' config lb head w = ensure_listing L reader W config lb head w"
  unfolding ensure_listing_def assms ..

lemma ensure_listing_refused:
  assumes "ensure_listing L reader W config lb head w = (w', Inl e)" "\<forall>x. e \<noteq> ListingWrite x"
  shows "ensure_listing L reader W' config lb head w = (w', Inl e)"
proof -
  let ?q = "query_expires_after head (query_creator lb (query_kind KIND_LB_LISTING))"
  obtain w1 r where q: "rd_query reader w ?q = (w1, r)" by fastforce
  show ?thesis
  proof (cases r)
    case (Inl x)
    with assms(1) q show ?thesis by (simp add: ensure_listing_def)
  next
    case (Inr page)
    have "False"
    proof (cases "sort_key creation (decode_page L KIND_LB_LISTING listing_decode_fields page)")
      case Nil
      with assms q Inr show False by (auto simp: ensure_listing_def Let_def await_simps)
    next
      case (Cons kept rest)
      with assms q Inr show False by (auto simp: ensure_listing_def Let_def await_simps split: if_splits)
    qed
    then show ?thesis ..
  qed
qed

lemma agent_of_writer:
  "an_reader (agent_of reader W config bound sleep i) = reader"
  "an_writer (agent_of reader W config bound sleep i) = W"
  "an_identity (agent_of reader W config bound sleep i) = i"
  "(agent_of reader W config bound sleep i)\<lparr>an_writer := W'\<rparr> = agent_of reader W' config bound sleep i"
  "an_port_bound (agent_of reader W config bound sleep i) = bound"
  by (simp_all add: agent_of_def)

text \<open>What a start does before its listing, the same under any sidecar that answers who it is.\<close>

definition start_reads ::
    "libs \<Rightarrow> 'e world chain_reader \<Rightarrow> 'e agent_in \<Rightarrow> 'e world \<Rightarrow> 'e world \<times> (start_error + u64)" where
  "start_reads L reader a w =
     sbind (serr (\<lambda>e. case e of ChainRead e \<Rightarrow> StartChain e | TooMany _ n \<Rightarrow> TooManyAgreements n)
              (reconcile_agreements L a w)) (\<lambda>w head.
     sbind (serr (\<lambda>e. case e of ChainRead e \<Rightarrow> StartChain e | TooMany _ n \<Rightarrow> TooManyCounters n)
              (reconcile_counters L a head w)) (\<lambda>w _.
       serr StartChain (rd_block_number reader w)))"

lemma sbind_assoc: "sbind (sbind x f) g = sbind x (\<lambda>w v. sbind (f w v) g)"
  by (cases "(x, f)" rule: sbind.cases) auto

lemma start_eq:
  "start L reader W config bound sleep w =
     sbind (serr Sidecar (w_identity W w)) (\<lambda>w i.
       sbind (start_reads L reader (agent_of reader W config bound sleep i) (w\<lparr>wo_known := []\<rparr>)) (\<lambda>w head.
       sbind (ensure_listing L reader W config (id_address i) head w) (\<lambda>w (key, expires_at).
         (w, Inr ((agent_of reader W config bound sleep i)
           \<lparr>an_listing_key := key, an_listing_expires_at := expires_at\<rparr>)))))"
  by (simp add: start_def start_reads_def sbind_assoc Let_def)

lemma start_reads_writer:
  assumes "steady (agent_of reader W config bound sleep i)" "wo_known w = []"
  shows "start_reads L reader (agent_of reader W' config bound sleep i) w =
    start_reads L reader (agent_of reader W config bound sleep i) w"
  unfolding start_reads_def
  by (simp add: reconcile_agreements_writer [OF assms, of "agent_of reader W' config bound sleep i"]
      reconcile_counters_writer [of "agent_of reader W' config bound sleep i" "agent_of reader W config bound sleep i"]
      agent_of_writer)

text \<open>
  C33. A start writes its listing and nothing else. Two sidecars that answer the same to who they
  are, to a create and to a patch start the same agent in the same world, whatever they would do with
  a batch, a deletion or an extension: the reconciles of a start write nothing. A start that fails on
  the sidecar's identity, on a read, or on too many records has not written at all: it fails the same
  with any other answers to the writes.
\<close>

theorem start_writes_only_the_listing:
  assumes "steady (agent_of reader W config bound sleep i0)" "w_identity W' = w_identity W"
    and s: "start L reader W config bound sleep w = (w', r)"
  shows "(w_create W' = w_create W \<and> w_patch W' = w_patch W \<longrightarrow>
      start L reader W' config bound sleep w = (w', map_sum id (\<lambda>a. a\<lparr>an_writer := W'\<rparr>) r)) \<and>
    (\<forall>e. r = Inl e \<and> (\<forall>x. e \<noteq> ListingWrite x) \<longrightarrow> start L reader W' config bound sleep w = (w', Inl e))"
proof -
  obtain w0 ri where i: "w_identity W w = (w0, ri)" by fastforce
  show ?thesis
  proof (cases ri)
    case (Inl e)
    with s i assms(2) show ?thesis by (auto simp: start_eq)
  next
    case (Inr i)
    let ?a = "\<lambda>W. agent_of reader W config bound sleep i"
    have st: "steady (?a W)" by (rule steady_same [OF assms(1)]) (simp_all add: agent_of_writer)
    have same: "start_reads L reader (?a W') (w0\<lparr>wo_known := []\<rparr>) = start_reads L reader (?a W) (w0\<lparr>wo_known := []\<rparr>)"
      by (rule start_reads_writer [OF st]) simp
    obtain w1 rh where h: "start_reads L reader (?a W) (w0\<lparr>wo_known := []\<rparr>) = (w1, rh)" by fastforce
    show ?thesis
    proof (cases rh)
      case (Inl e)
      with s i Inr h same assms(2) show ?thesis by (auto simp: start_eq)
    next
      case head: (Inr head)
      obtain w2 rl where l: "ensure_listing L reader W config (id_address i) head w1 = (w2, rl)" by fastforce
      note start = start_eq [of L reader _ config bound sleep w]
      show ?thesis
      proof (cases rl)
        case (Inl e)
        then have r: "w' = w2" "r = Inl e" using s i Inr h head l by (simp_all add: start)
        show ?thesis
          using i Inr h head same assms(2) l Inl r ensure_listing_writer [of W' W] ensure_listing_refused [OF l [unfolded Inl]]
          by (auto simp: start)
      next
        case (Inr listing)
        obtain key expires where k: "listing = (key, expires)" by fastforce
        have r: "w' = w2" "r = Inr ((?a W)\<lparr>an_listing_key := key, an_listing_expires_at := expires\<rparr>)"
          using s i \<open>ri = Inr i\<close> h head l Inr k by (simp_all add: start)
        have "(?a W)\<lparr>an_listing_key := key, an_listing_expires_at := expires, an_writer := W'\<rparr> =
            (?a W')\<lparr>an_listing_key := key, an_listing_expires_at := expires\<rparr>" by (simp add: agent_of_def)
        then show ?thesis
          using i \<open>ri = Inr i\<close> h head same assms(2) l Inr k r ensure_listing_writer [of W' W] by (simp add: start)
      qed
    qed
  qed
qed

lemma start_writes_only_the_listing_witness:
  "\<exists>w1 a. start std_libs (shelf_reader (\<lambda>_. [])) (shelf_writer\<lparr>w_execute_batch := (\<lambda>w b. (w, Inl (Unexpected 500)))\<rparr>)
      default_market (\<lambda>w port. (w, False)) (\<lambda>w d. w) static_world = (w1, Inr a) \<and> an_listing_key a = 31"
proof -
  let ?W' = "shelf_writer\<lparr>w_execute_batch := (\<lambda>w b. (w, Inl (Unexpected 500)))\<rparr> :: unit world chain_writer"
  let ?a = "agent_of (shelf_reader (\<lambda>_. [])) shelf_writer default_market (\<lambda>w port. (w, False)) (\<lambda>w d. w)
    \<lparr>id_address = 1, id_chain_id = 1\<rparr> :: unit agent_in"
  have st: "steady ?a"
    by (simp add: steady_def agent_of_def shelf_reader_def shelf_writer_def)
  have id: "w_identity ?W' = w_identity shelf_writer" by simp
  have "\<exists>w1 a. start std_libs (shelf_reader (\<lambda>_. [])) shelf_writer default_market (\<lambda>w port. (w, False)) (\<lambda>w d. w)
      static_world = (w1, Inr a) \<and> an_listing_key a = 31"
    by (simp add: start_def shelf_reader_def shelf_writer_def agent_of_def reconcile_agreements_def
        read_agreements_def PAGE_LIMIT_def decode_page_def apply_agreements_def end_agreements_def
        adopt_agreements_def close_ended_def send_def reconcile_counters_def read_open_counters_def
        oldest_per_agreement_def forget_closed_counters_def missing_counters_def match_to_agreements_def
        ensure_listing_def static_world_def List.map_filter_simps held_keys_def)
  then obtain w1 a where s: "start std_libs (shelf_reader (\<lambda>_. [])) shelf_writer default_market
      (\<lambda>w port. (w, False)) (\<lambda>w d. w) static_world = (w1, Inr a)" "an_listing_key a = 31" by blast
  from start_writes_only_the_listing [OF st id s(1)] s(2) show ?thesis by simp
qed

end
