(* ===== verification/Relay.thy ===== *)
theory Relay
  imports Integrity
begin

text \<open>
  \<open>crates/rig/src/relay.rs\<close>: the JSON-RPC relay the rig puts in front of a node, honest or
  telling one lie. What an indexed JSON place does is written out as the library documents it: a
  read of what is not there is null, and a write makes it, except in a value that is neither null
  nor an object, where it panics. A panic is \<open>None\<close>. A string is its UTF-8 bytes.
\<close>

section \<open>JSON places\<close>

definition json_at :: "json \<Rightarrow> string \<Rightarrow> json" where
  "json_at j k = (case json_get j k of None \<Rightarrow> JNull | Some v \<Rightarrow> v)"

definition json_nth :: "json \<Rightarrow> nat \<Rightarrow> json" where
  "json_nth j i = (case j of JArr js \<Rightarrow> if i < length js then js ! i else JNull | _ \<Rightarrow> JNull)"

text \<open>The place \<open>j[k]\<close>, for a change that also returns whether it altered anything.\<close>

type_synonym change = "(json \<times> bool) option"

fun json_slot :: "string \<Rightarrow> (json \<Rightarrow> change) \<Rightarrow> json \<Rightarrow> change" where
  "json_slot k f JNull = map_option (apfst (\<lambda>v. JObj [(k, v)])) (f JNull)"
| "json_slot k f (JObj kvs) =
     map_option (apfst (\<lambda>v. JObj (bt_insert k v kvs)))
       (f (case map_of kvs k of None \<Rightarrow> JNull | Some v \<Rightarrow> v))"
| "json_slot k f _ = None"

definition json_put :: "string \<Rightarrow> json \<Rightarrow> json \<Rightarrow> change" where
  "json_put k v j = json_slot k (\<lambda>_. Some (v, True)) j"

fun json_each :: "(json \<Rightarrow> change) \<Rightarrow> json list \<Rightarrow> (json list \<times> bool) option" where
  "json_each f [] = Some ([], False)"
| "json_each f (j # js) =
     Option.bind (f j) (\<lambda>(j, here).
     Option.bind (json_each f js) (\<lambda>(js, later). Some (j # js, here \<or> later)))"

text \<open>A loop over a place that may be an array; anything else is passed over.\<close>

definition json_rows :: "(json \<Rightarrow> change) \<Rightarrow> json \<Rightarrow> change" where
  "json_rows f j =
     (case j of JArr js \<Rightarrow> map_option (apfst JArr) (json_each f js) | _ \<Rightarrow> Some (j, False))"

section \<open>White space\<close>

text \<open>The length of the white space character a text starts with, 0 when there is none.\<close>

fun white_space :: "nat list \<Rightarrow> nat" where
  "white_space (a # b # c # _) =
     (if 9 \<le> a \<and> a \<le> 13 \<or> a = 32 then 1
      else if a = 0xC2 \<and> (b = 0x85 \<or> b = 0xA0) then 2
      else if a = 0xE1 \<and> b = 0x9A \<and> c = 0x80 then 3
      else if a = 0xE2 \<and> b = 0x80 \<and> (0x80 \<le> c \<and> c \<le> 0x8A \<or> c = 0xA8 \<or> c = 0xA9 \<or> c = 0xAF) then 3
      else if a = 0xE2 \<and> b = 0x81 \<and> c = 0x9F then 3
      else if a = 0xE3 \<and> b = 0x80 \<and> c = 0x80 then 3
      else 0)"
| "white_space [a, b] =
     (if 9 \<le> a \<and> a \<le> 13 \<or> a = 32 then 1 else if a = 0xC2 \<and> (b = 0x85 \<or> b = 0xA0) then 2 else 0)"
| "white_space [a] = (if 9 \<le> a \<and> a \<le> 13 \<or> a = 32 then 1 else 0)"
| "white_space [] = 0"

function trim_start :: "string \<Rightarrow> string" where
  "trim_start s =
     (let n = white_space (map of_char (take 3 s))
      in if n = 0 \<or> s = [] then s else trim_start (drop n s))"
  by auto
termination by (relation "measure length") auto

declare trim_start.simps [simp del]

definition starts_with :: "string \<Rightarrow> string \<Rightarrow> bool" where
  "starts_with p s = (take (length p) s = p)"

section \<open>The lies\<close>

datatype lie = EntityLie | BlockLie | FrozenHeadLie

definition is_payload :: "json \<Rightarrow> bool" where
  "is_payload attribute \<longleftrightarrow>
     json_at attribute ''name'' = JStr ''payload'' \<and> json_at attribute ''type'' = JStr ''bytes''"

definition alter_attribute :: "json \<Rightarrow> change" where
  "alter_attribute attribute =
     (if is_payload attribute
      then json_put ''value''
             (JStr ((case as_str (json_at attribute ''value'') of None \<Rightarrow> ''0x'' | Some p \<Rightarrow> p) @ ''00'')) attribute
      else Some (attribute, False))"

definition asks_by_key :: "json \<Rightarrow> bool" where
  "asks_by_key request \<longleftrightarrow>
     json_at request ''method'' = JStr ''arkiv_query'' \<and>
     (case as_str (json_nth (json_at request ''params'') 0) of
        None \<Rightarrow> False | Some text \<Rightarrow> starts_with ''$key = key('' (trim_start text))"

definition alter_row :: "json \<Rightarrow> change" where
  "alter_row row = json_slot ''attributes'' (json_rows alter_attribute) row"

definition alter_entities :: "json \<Rightarrow> json \<Rightarrow> change" where
  "alter_entities request answer =
     (if \<not> asks_by_key request then Some (answer, False)
      else json_slot ''result'' (json_slot ''data'' (json_rows alter_row)) answer)"

text \<open>
  \<open>split_at\<close> of a text at its last byte: a panic when there is none, or when it lies inside a
  character.
\<close>

definition split_last :: "string \<Rightarrow> (string \<times> string) option" where
  "split_last s =
     (if s = [] \<or> (128 \<le> (of_char (last s) :: nat) \<and> (of_char (last s) :: nat) < 192) then None
      else Some (butlast s, [last s]))"

definition other_digit :: "string \<Rightarrow> string" where
  "other_digit digit = (if digit = ''0'' then ''1'' else ''0'')"

definition alter_block :: "json \<Rightarrow> json \<Rightarrow> change" where
  "alter_block request answer =
     (if json_at request ''method'' \<noteq> JStr ''eth_getBlockByNumber'' then Some (answer, False)
      else case as_str (json_at (json_at answer ''result'') ''hash'') of
             None \<Rightarrow> Some (answer, False)
           | Some hash \<Rightarrow>
               Option.bind (split_last hash) (\<lambda>(start, digit).
                 json_slot ''result'' (json_put ''hash'' (JStr (start @ other_digit digit))) answer))"

definition freeze_head :: "json \<Rightarrow> json \<Rightarrow> json option \<Rightarrow> change \<times> json option" where
  "freeze_head request answer frozen =
     (if json_at request ''method'' \<noteq> JStr ''eth_blockNumber'' \<or> json_at answer ''result'' = JNull
      then (Some (answer, False), frozen)
      else case frozen of
             Some head \<Rightarrow> (json_put ''result'' head answer, frozen)
           | None \<Rightarrow> (Some (answer, False), Some (json_at answer ''result'')))"

definition alter :: "lie \<Rightarrow> json \<Rightarrow> json \<Rightarrow> json option \<Rightarrow> change \<times> json option" where
  "alter lie request parsed frozen =
     (case lie of
        EntityLie \<Rightarrow> (alter_entities request parsed, frozen)
      | BlockLie \<Rightarrow> (alter_block request parsed, frozen)
      | FrozenHeadLie \<Rightarrow> freeze_head request parsed frozen)"

definition altered :: "libs \<Rightarrow> bytes \<Rightarrow> bytes \<Rightarrow> lie \<Rightarrow> json option \<Rightarrow> bytes option \<times> json option" where
  "altered L request answer lie frozen =
     (case (json_from_slice L request, json_from_slice L answer) of
        (Some request, Some parsed) \<Rightarrow>
          (case alter lie request parsed frozen of
             (None, frozen) \<Rightarrow> (None, frozen)
           | (Some (parsed, changed), frozen) \<Rightarrow>
               (Some (if changed then json_to_vec L parsed else answer), frozen))
      | _ \<Rightarrow> (Some answer, frozen))"

section \<open>The relay\<close>

text \<open>\<open>error_text\<close> is the client's text of an error; a body that breaks off has no text.\<close>

definition relay ::
    "libs \<Rightarrow> (http_error \<Rightarrow> string) \<Rightarrow> lie option \<Rightarrow> bytes \<Rightarrow> exchange \<Rightarrow> json option \<Rightarrow>
       response option \<times> json option" where
  "relay L error_text lie body upstream frozen =
     (case upstream of
        Inl e \<Rightarrow> (Some \<lparr>rs_status = 502, rs_body = TextBody (error_text e)\<rparr>, frozen)
      | Inr answer \<Rightarrow>
          (if hr_broken answer \<noteq> None then (Some \<lparr>rs_status = 502, rs_body = RawBody []\<rparr>, frozen)
           else
             (let status = hr_status answer;
                  bytes = concat (hr_chunks answer);
                  (bytes, frozen) =
                    (case lie of
                       None \<Rightarrow> (Some bytes, frozen)
                     | Some lie \<Rightarrow>
                         (if is_success status then altered L body bytes lie frozen else (Some bytes, frozen)))
              in (map_option (\<lambda>bytes. \<lparr>rs_status = status, rs_body = RawBody bytes\<rparr>) bytes, frozen))))"

text \<open>
  What the caller of a server sees of its answer: the body whole, with its length declared. A
  handler that panicked closes the connection.
\<close>

definition delivered :: "libs \<Rightarrow> response option \<Rightarrow> exchange" where
  "delivered L answer =
     (case answer of
        None \<Rightarrow> Inl TransportError
      | Some r \<Rightarrow>
          (let bytes = (case rs_body r of RawBody b \<Rightarrow> b | JsonBody j \<Rightarrow> json_to_vec L j | TextBody t \<Rightarrow> text_bytes t)
           in Inr \<lparr>hr_status = rs_status r, hr_content_length = Some (word_of_nat (length bytes)),
                hr_chunks = [bytes], hr_broken = None\<rparr>))"

abbreviation through_relay ::
    "libs \<Rightarrow> (http_error \<Rightarrow> string) \<Rightarrow> lie option \<Rightarrow> bytes \<Rightarrow> exchange \<Rightarrow> json option \<Rightarrow> exchange" where
  "through_relay L error_text lie body upstream frozen \<equiv>
     delivered L (fst (relay L error_text lie body upstream frozen))"

end
