(* ===== verification/Liars.thy ===== *)
theory Liars
  imports Relay
begin

text \<open>
  The rig's lying relay in front of a node, and the load balancer behind it: what the
  probes see of a lie, and what the integrity round makes of it. These are the rig's scenarios
  \<open>wrong-block\<close>, \<open>wrong-entity\<close> and \<open>frozen-head\<close> as statements about the code on both sides.
\<close>

section \<open>What passes through\<close>

fun lie_method :: "lie \<Rightarrow> string" where
  "lie_method EntityLie = ''arkiv_query''"
| "lie_method BlockLie = ''eth_getBlockByNumber''"
| "lie_method FrozenHeadLie = ''eth_blockNumber''"

lemma alter_other_method:
  "json_at request ''method'' \<noteq> JStr (lie_method lie) \<Longrightarrow> alter lie request parsed frozen = (Some (parsed, False), frozen)"
  by (cases lie) (simp_all add: alter_def alter_entities_def asks_by_key_def alter_block_def freeze_head_def)

lemma relay_other_method:
  assumes "json_from_slice L body = Some request" and "json_at request ''method'' \<noteq> JStr (lie_method lie)"
  shows "relay L error_text (Some lie) body upstream frozen = relay L error_text None body upstream frozen"
  using assms
  by (auto simp: relay_def altered_def alter_other_method Let_def split: sum.split option.split)

lemma query_probe_delivered:
  "query_probe L (delivered L (Some \<lparr>rs_status = status, rs_body = RawBody b\<rparr>)) =
     (if is_success status \<and> length b \<le> PROBE_RESPONSE_CAP
      then Option.bind (json_from_slice L b) (\<lambda>j. Option.bind (json_get j ''result'') hex_quantity) else None)"
  by (simp add: query_probe_def delivered_def)

lemma collect_from_start:
  "collect_chunks cap broken [] cs =
     (if cap < length (concat cs) then OverCap else case broken of None \<Rightarrow> Whole (concat cs) | Some e \<Rightarrow> Broken e)"
  using collect_chunks_eq [of "[]" cap broken cs] by (cases broken) simp_all

text \<open>An honest relay is no difference to a probe.\<close>

lemma query_probe_honest:
  "query_probe L (through_relay L error_text None body upstream frozen) = query_probe L upstream"
proof (cases upstream)
  case (Inl e)
  then show ?thesis by (simp add: relay_def delivered_def query_probe_def is_success_def Let_def)
next
  case (Inr r)
  show ?thesis
  proof (cases "hr_broken r")
    case None
    with Inr show ?thesis
      by (simp add: relay_def query_probe_delivered) (simp add: query_probe_def collect_from_start)
  next
    case (Some e)
    with Inr show ?thesis
      by (simp add: relay_def query_probe_delivered is_success_def) (simp add: query_probe_def collect_from_start)
  qed
qed

section \<open>What a reader makes of a relayed answer\<close>

lemma reader_call_delivered:
  assumes "cap < 2 ^ 64" and "is_success status"
  shows "reader_call L cap (delivered L (Some \<lparr>rs_status = status, rs_body = RawBody b\<rparr>)) =
    (if cap < length b then Inl (ReadTooLarge cap)
     else rbind (ok_or ReadUnexpected (json_from_slice L b)) rpc_answer)"
proof -
  have "\<not> word_of_nat (length b) > (word_of_nat cap :: u64)" if "length b \<le> cap"
    using that assms(1) by (simp add: word_less_nat_alt unat_of_nat)
  with assms(2) show ?thesis
    by (auto simp: reader_call_def delivered_def read_body_def declared_over_cap_def)
qed

lemma reader_call_InrD:
  assumes "reader_call L cap x = Inr v"
  obtains r j where "x = Inr r" "is_success (hr_status r)" "hr_broken r = None"
    "length (concat (hr_chunks r)) \<le> cap" "json_from_slice L (concat (hr_chunks r)) = Some j" "rpc_answer j = Inr v"
proof (cases x)
  case (Inl e)
  with assms show ?thesis by (simp add: reader_call_def)
next
  case (Inr r)
  from assms Inr have s: "is_success (hr_status r)" by (auto simp: reader_call_def split: if_splits)
  have b: "read_body cap r = Inr (concat (hr_chunks r)) \<and> hr_broken r = None \<and> length (concat (hr_chunks r)) \<le> cap"
  proof (cases "declared_over_cap cap r \<or> cap < length (concat (hr_chunks r))")
    case True
    with assms Inr s show ?thesis
      by (cases "declared_over_cap cap r") (auto simp: reader_call_def read_body_def collect_from_start)
  next
    case False
    with assms Inr s show ?thesis
      by (cases "hr_broken r") (auto simp: reader_call_def read_body_def collect_from_start)
  qed
  with assms Inr s have "rbind (ok_or ReadUnexpected (json_from_slice L (concat (hr_chunks r)))) rpc_answer = Inr v"
    by (simp add: reader_call_def)
  with Inr s b that show ?thesis by (cases "json_from_slice L (concat (hr_chunks r))") auto
qed

lemma rpc_answer_InrD:
  assumes "rpc_answer j = Inr v" and "v \<noteq> JNull"
  obtains kvs where "j = JObj kvs" "map_of kvs ''result'' = Some v" "map_of kvs ''error'' \<in> {None, Some JNull}"
proof (cases j)
  case (JObj kvs)
  with assms that show ?thesis
    by (auto simp: rpc_answer_def split: option.splits json.splits prod.splits)
qed (use assms in \<open>simp_all add: rpc_answer_def\<close>)

lemma rpc_answer_replaced:
  "map_of kvs ''error'' \<in> {None, Some JNull} \<Longrightarrow> rpc_answer (JObj (bt_insert ''result'' v kvs)) = Inr v"
  by (auto simp: rpc_answer_def)

text \<open>An honest relay leaves what a reader reads.\<close>

lemma reader_call_honest:
  assumes "reader_call L cap upstream = Inr v" and "cap < 2 ^ 64"
  shows "reader_call L cap (through_relay L error_text None body upstream frozen) = Inr v"
  using assms(1)
proof (rule reader_call_InrD)
  fix r j
  assume r: "upstream = Inr r" "is_success (hr_status r)" "hr_broken r = None"
    "length (concat (hr_chunks r)) \<le> cap" "json_from_slice L (concat (hr_chunks r)) = Some j" "rpc_answer j = Inr v"
  then show ?thesis by (simp add: relay_def reader_call_delivered [OF assms(2)])
qed

text \<open>What the relay makes of an answer a reader could read.\<close>

lemma relay_success:
  assumes "is_success (hr_status r)" and "hr_broken r = None"
    and "json_from_slice L body = Some request"
    and "json_from_slice L (concat (hr_chunks r)) = Some parsed"
    and "alter lie request parsed frozen = (Some (lied, True), frozen')"
  shows "relay L error_text (Some lie) body (Inr r) frozen =
    (Some \<lparr>rs_status = hr_status r, rs_body = RawBody (json_to_vec L lied)\<rparr>, frozen')"
  using assms by (simp add: relay_def altered_def)

lemma reader_call_lied:
  assumes "cap < 2 ^ 64" and "is_success (hr_status r)" and "hr_broken r = None"
    and "json_from_slice L body = Some request"
    and "json_from_slice L (concat (hr_chunks r)) = Some parsed"
    and "alter lie request parsed frozen = (Some (lied, True), frozen')"
    and "json_from_slice L (json_to_vec L lied) = Some lied"
  shows "reader_call L cap (through_relay L error_text (Some lie) body (Inr r) frozen) =
    (if cap < length (json_to_vec L lied) then Inl (ReadTooLarge cap) else rpc_answer lied)"
  using assms by (simp add: relay_success reader_call_delivered)

section \<open>The lie about blocks\<close>

text \<open>
  What the relay relies on of the library's reading of hashes: a text that is one is ASCII and
  not empty, and with its last digit changed it is the text of another.
\<close>

definition hash_texts :: "libs \<Rightarrow> bool" where
  "hash_texts L \<longleftrightarrow>
     (\<forall>s k. parse_key L s = Some k \<longrightarrow>
        s \<noteq> [] \<and> (of_char (last s) :: nat) < 128 \<and>
        (\<exists>k'. parse_key L (butlast s @ other_digit [last s]) = Some k' \<and> k' \<noteq> k))"

lemma block_parse_hash:
  assumes "block_parse L j = Some block"
  obtains kvs s where "j = JObj kvs" "map_of kvs ''hash'' = Some (JStr s)" "parse_key L s = Some (bf_hash block)"
proof (cases j)
  case (JObj kvs)
  have "json_key L j ''hash'' = Some (bf_hash block)"
    using assms by (auto simp: block_parse_def bind_eq_Some_conv)
  then obtain v s where "json_get j ''hash'' = Some v" "as_str v = Some s" "parse_key L s = Some (bf_hash block)"
    by (auto simp: json_key_def json_str_def bind_eq_Some_conv)
  with JObj that show ?thesis by (cases v) auto
qed (use assms in \<open>simp_all add: block_parse_def json_quantity_def\<close>)

lemma block_parse_other_hash:
  assumes "block_parse L (JObj kvs) = Some block" and "parse_key L s = Some k"
  shows "block_parse L (JObj (bt_insert ''hash'' (JStr s) kvs)) = Some (block\<lparr>bf_hash := k\<rparr>)"
  using assms by (auto simp: block_parse_def json_quantity_def json_key_def json_str_def bind_eq_Some_conv)

lemma alter_block_lies:
  assumes "hash_texts L" and "json_at request ''method'' = JStr ''eth_getBlockByNumber''"
    and "parsed = JObj kvs" and "map_of kvs ''result'' = Some result"
    and "block_parse L result = Some block" and "map_of kvs ''error'' \<in> {None, Some JNull}"
  shows "\<exists>lied result' k. alter_block request parsed = Some (lied, True) \<and> rpc_answer lied = Inr result' \<and>
    result' \<noteq> JNull \<and> block_parse L result' = Some (block\<lparr>bf_hash := k\<rparr>) \<and> k \<noteq> bf_hash block"
proof -
  from block_parse_hash [OF assms(5)] obtain fields s where
    f: "result = JObj fields" "map_of fields ''hash'' = Some (JStr s)" "parse_key L s = Some (bf_hash block)" by blast
  with assms(1) obtain k where k: "s \<noteq> []" "(of_char (last s) :: nat) < 128"
    "parse_key L (butlast s @ other_digit [last s]) = Some k" "k \<noteq> bf_hash block"
    unfolding hash_texts_def by blast
  let ?s = "butlast s @ other_digit [last s]"
  let ?result = "JObj (bt_insert ''hash'' (JStr ?s) fields)"
  have "alter_block request parsed = Some (JObj (bt_insert ''result'' ?result kvs), True)"
    using assms(2-4) f k(1,2) by (simp add: alter_block_def json_at_def split_last_def json_put_def)
  moreover have "block_parse L ?result = Some (block\<lparr>bf_hash := k\<rparr>)"
    using block_parse_other_hash [of L fields block ?s k] assms(5) f(1) k(3) by simp
  ultimately show ?thesis using rpc_answer_replaced [OF assms(6)] k(4) by blast
qed

lemma read_block_InrD:
  assumes "read_block L cap x = Inr (Some block)"
  obtains v where "reader_call L cap x = Inr v" "v \<noteq> JNull" "block_parse L v = Some block"
proof -
  from assms obtain v where v: "reader_call L cap x = Inr v"
    "(if v = JNull then Inr None else rbind (ok_or ReadUnexpected (block_parse L v)) (\<lambda>b. Inr (Some b))) = Inr (Some block)"
    by (auto simp: read_block_def rbind_Inr_iff)
  with that show ?thesis by (cases "block_parse L v") (auto split: if_splits)
qed

lemma read_block_honest:
  assumes "read_block L RESPONSE_CAP upstream = Inr (Some block)"
  shows "read_block L RESPONSE_CAP (through_relay L error_text None body upstream frozen) = Inr (Some block)"
  using assms
proof (rule read_block_InrD)
  fix v
  assume v: "reader_call L RESPONSE_CAP upstream = Inr v" "v \<noteq> JNull" "block_parse L v = Some block"
  have "reader_call L RESPONSE_CAP (through_relay L error_text None body upstream frozen) = Inr v"
    using v(1) by (rule reader_call_honest) (simp add: RESPONSE_CAP_def)
  with v(2,3) show ?thesis by (simp add: read_block_def)
qed

text \<open>What the library prints of a value reads back as the value.\<close>

definition reads_back :: "libs \<Rightarrow> change \<Rightarrow> bool" where
  "reads_back L change \<longleftrightarrow>
     (case change of None \<Rightarrow> True | Some (j, _) \<Rightarrow> json_from_slice L (json_to_vec L j) = Some j)"

lemma read_block_lied:
  assumes "hash_texts L" and "json_from_slice L body = Some request"
    and "json_at request ''method'' = JStr ''eth_getBlockByNumber''"
    and "read_block L RESPONSE_CAP (Inr r) = Inr (Some block)"
    and "json_from_slice L (concat (hr_chunks r)) = Some parsed" and "reads_back L (alter_block request parsed)"
  shows "read_block L RESPONSE_CAP (through_relay L error_text (Some BlockLie) body (Inr r) frozen)
    \<in> {Inl (ReadTooLarge RESPONSE_CAP)} \<union> {Inr (Some b) |b. b \<noteq> block}"
  using assms(4)
proof (rule read_block_InrD)
  fix v
  assume v: "reader_call L RESPONSE_CAP (Inr r) = Inr v" "v \<noteq> JNull" "block_parse L v = Some block"
  obtain r' j where "Inr r = (Inr r' :: exchange)" "is_success (hr_status r')" "hr_broken r' = None"
    "length (concat (hr_chunks r')) \<le> RESPONSE_CAP" "json_from_slice L (concat (hr_chunks r')) = Some j" "rpc_answer j = Inr v"
    by (rule reader_call_InrD [OF v(1)])
  with assms(5) have r: "is_success (hr_status r)" "hr_broken r = None" "rpc_answer parsed = Inr v" by simp_all
  from rpc_answer_InrD [OF r(3) v(2)] obtain kvs where k: "parsed = JObj kvs" "map_of kvs ''result'' = Some v"
    "map_of kvs ''error'' \<in> {None, Some JNull}" by blast
  from alter_block_lies [OF assms(1,3) k(1,2) v(3) k(3)] obtain lied v' h where
    l: "alter_block request parsed = Some (lied, True)" "rpc_answer lied = Inr v'" "v' \<noteq> JNull"
      "block_parse L v' = Some (block\<lparr>bf_hash := h\<rparr>)" "h \<noteq> bf_hash block" by blast
  have "alter BlockLie request parsed frozen = (Some (lied, True), frozen)" by (simp add: alter_def l(1))
  moreover have "json_from_slice L (json_to_vec L lied) = Some lied" using assms(6) l(1) by (simp add: reads_back_def)
  moreover have "RESPONSE_CAP < 2 ^ 64" by (simp add: RESPONSE_CAP_def)
  ultimately have "reader_call L RESPONSE_CAP (through_relay L error_text (Some BlockLie) body (Inr r) frozen) =
      (if RESPONSE_CAP < length (json_to_vec L lied) then Inl (ReadTooLarge RESPONSE_CAP) else Inr v')"
    using reader_call_lied [OF _ r(1,2) assms(2,5)] l(2) by simp
  moreover have "block\<lparr>bf_hash := h\<rparr> \<noteq> block"
  proof
    assume "block\<lparr>bf_hash := h\<rparr> = block"
    then have "bf_hash (block\<lparr>bf_hash := h\<rparr>) = bf_hash block" by (rule arg_cong)
    with l(5) show False by simp
  qed
  ultimately show ?thesis using l(3,4) by (simp add: read_block_def)
qed

lemma block_lie_verdict:
  assumes "hash_texts L" and "json_from_slice L body = Some request"
    and "json_at request ''method'' = JStr ''eth_getBlockByNumber''"
    and "read_block L RESPONSE_CAP (Inr r) = Inr (Some (ex_finalized expected))"
    and "json_from_slice L (concat (hr_chunks r)) = Some parsed" and "reads_back L (alter_block request parsed)"
    and "lk_block look p = through_relay L error_text (Some BlockLie) body (Inr r) frozen"
  shows "look_verdict L look expected pool p = Divergence"
proof -
  consider "read_block L RESPONSE_CAP (lk_block look p) = Inl (ReadTooLarge RESPONSE_CAP)"
    | b where "read_block L RESPONSE_CAP (lk_block look p) = Inr (Some b)" "b \<noteq> ex_finalized expected"
    using read_block_lied [OF assms(1-6)] unfolding assms(7) by blast
  then show ?thesis by cases (simp_all add: look_verdict_def ask_def judge_def Let_def)
qed

lemma honest_verdict:
  assumes "read_block L RESPONSE_CAP upstream = Inr (Some (ex_finalized expected))" and "ex_entity expected = None"
    and "lk_block look p = through_relay L error_text None body upstream frozen"
  shows "look_verdict L look expected pool p = Match"
  using read_block_honest [OF assms(1)] assms(2)
  by (simp add: look_verdict_def ask_def assms(3) judge_def)

lemma divergence_shuts: "\<not> eligible (record_integrity Divergence height p)"
proof -
  have "and (p_eligibility p) (not 2) \<noteq> 3"
  proof
    assume "and (p_eligibility p) (not 2) = 3"
    then have "and (and (p_eligibility p) (not 2)) 2 = and 3 2" by simp
    then show False by (simp add: ac_simps)
  qed
  then show ?thesis
    by (simp add: record_integrity_def set_eligibility_and_log_def set_eligibility_def eligible_def ALL_GATES_eq Let_def)
qed

text \<open>What both looks of a round agree on is what it records.\<close>

lemma round_records_steady:
  assumes "round_over L entity_check interval env providers (page, pool) = (page', pool')"
    and "distinct providers" and "r \<in> set providers" and "in_order (rn_first env)" and "in_order (rn_second env)"
    and "rn_finalized env = Inr (Some finalized)"
    and "round_expected entity_check interval env finalized page = (page', Some expected)"
    and "\<And>look q. look \<in> {rn_first env, rn_second env} \<Longrightarrow> look_verdict L look expected q r = v"
  shows "last_verdict (entry pool' r) = Some (v, bf_number finalized)"
    "v = Divergence \<Longrightarrow> \<not> eligible (entry pool' r)"
proof -
  have ne: "providers \<noteq> []" using assms(3) by auto
  have "entry pool' r = record_integrity v (bf_number finalized)
      (entry (if list_ex (\<lambda>r. look_verdict L (rn_first env) expected (lk_meanwhile (rn_first env) pool) r = Divergence) providers
        then lk_meanwhile (rn_second env) (lk_meanwhile (rn_first env) pool) else lk_meanwhile (rn_first env) pool) r)"
    using round_records [OF assms(1,2) ne assms(4-7) refl refl refl refl, of r] assms(3,8) by simp
  then show "last_verdict (entry pool' r) = Some (v, bf_number finalized)"
    "v = Divergence \<Longrightarrow> \<not> eligible (entry pool' r)"
    by (simp_all add: divergence_shuts last_verdict_record)
qed

text \<open>
  C16. A lie about blocks is found, and only the liar is. The rig's lying relay stands in front of
  one provider and an honest one in front of another, both relaying a node that has the
  reference's block. After one round the liar is out of rotation with a divergence on record, and
  the honest provider has a match.
\<close>

theorem wrong_block_is_found:
  assumes "round_over L False interval env providers (page, pool) = (page', pool')"
    and "distinct providers" and "liar \<in> set providers" and "honest \<in> set providers"
    and "in_order (rn_first env)" and "in_order (rn_second env)"
    and "rn_finalized env = Inr (Some finalized)"
    and "hash_texts L" and "json_from_slice L body = Some request"
    and "json_at request ''method'' = JStr ''eth_getBlockByNumber''"
    and "read_block L RESPONSE_CAP (Inr r) = Inr (Some finalized)"
    and "json_from_slice L (concat (hr_chunks r)) = Some parsed" and "reads_back L (alter_block request parsed)"
    and "\<forall>look \<in> {rn_first env, rn_second env}.
      lk_block look liar = through_relay L error_text (Some BlockLie) body (Inr r) frozen \<and>
      lk_block look honest = through_relay L error_text None body (Inr r) frozen"
  shows "\<not> eligible (entry pool' liar) \<and>
    last_verdict (entry pool' liar) = Some (Divergence, bf_number finalized) \<and>
    last_verdict (entry pool' honest) = Some (Match, bf_number finalized)"
proof -
  define expected where "expected = \<lparr>ex_finalized = finalized, ex_entity = None\<rparr>"
  have x: "round_expected False interval env finalized page = (page', Some expected)"
    using assms(1,3,7)
    by (auto simp: round_over_def round_expected_def finalized_block_def expected_def Let_def case_prod_beta split: if_splits)
  have fin: "ex_finalized expected = finalized" "ex_entity expected = None" by (simp_all add: expected_def)
  have lied: "look_verdict L look expected q liar = Divergence" if "look \<in> {rn_first env, rn_second env}" for look q
    using block_lie_verdict [OF assms(8-10) _ assms(12,13), of expected look liar] assms(11,14) that fin by blast
  have fine: "look_verdict L look expected q honest = Match" if "look \<in> {rn_first env, rn_second env}" for look q
    using honest_verdict [of L "Inr r" expected look honest] assms(11,14) that fin by blast
  note steady = round_records_steady [OF assms(1,2) _ assms(5-7) x]
  from steady(1) [OF assms(3) lied] steady(2) [OF assms(3) lied refl] steady(1) [OF assms(4) fine]
  show ?thesis by blast
qed

text \<open>The hexadecimal texts of the standard instance are hash texts.\<close>

lemma char_digit_code:
  assumes "char_digit 16 c = Some d"
  shows "(of_char c :: nat) < 128" "d = 0 \<longleftrightarrow> c = CHR ''0''" "d < 16"
proof -
  have zero: "(of_char c :: nat) = 48 \<longleftrightarrow> c = CHR ''0''"
  proof
    assume "(of_char c :: nat) = 48"
    then have "(of_char c :: nat) = of_char (CHR ''0'')" by simp
    then show "c = CHR ''0''" by (simp only: of_char_eq_iff)
  qed simp
  show "(of_char c :: nat) < 128" "d = 0 \<longleftrightarrow> c = CHR ''0''" "d < 16"
    using assms zero by (auto simp: char_digit_def Let_def split: if_splits)
qed

lemma radix_value_other_digit:
  assumes "radix_value 16 (16 ^ 64) 0 digits = Some n" and "digits \<noteq> []"
  shows "(of_char (last digits) :: nat) < 128"
    "\<exists>m. radix_value 16 (16 ^ 64) 0 (butlast digits @ other_digit [last digits]) = Some m \<and> m \<noteq> n \<and> m < 16 ^ 64"
proof -
  have digits: "digits = butlast digits @ [last digits]" using assms(2) by simp
  from assms(1) digits have
    "Option.bind (radix_value 16 (16 ^ 64) 0 (butlast digits)) (\<lambda>a. radix_value 16 (16 ^ 64) a [last digits]) = Some n"
    by (metis radix_value_append)
  then obtain a where a: "radix_value 16 (16 ^ 64) 0 (butlast digits) = Some a"
    "radix_value 16 (16 ^ 64) a [last digits] = Some n" by (auto simp only: bind_eq_Some_conv)
  from a(2) obtain d where d: "char_digit 16 (last digits) = Some d" "n = a * 16 + d" "a * 16 + d < 16 ^ 64"
    by (auto split: option.splits if_splits)
  note c = char_digit_code [OF d(1)]
  show "(of_char (last digits) :: nat) < 128" by (rule c(1))
  define e where "e = (if last digits = CHR ''0'' then 1 else 0 :: nat)"
  have digit: "char_digit 16 (hd (other_digit [last digits])) = Some e" "length (other_digit [last digits]) = 1"
    by (simp_all add: other_digit_def e_def char_digit_def)
  then obtain c' where c': "other_digit [last digits] = [c']" "char_digit 16 c' = Some e"
    by (cases "other_digit [last digits]") auto
  have "(16::nat) ^ 64 = 16 * 16 ^ 63" by (simp add: power_Suc [symmetric])
  with d(3) have "a < 16 ^ 63" by linarith
  then have "a * 16 + e < 16 ^ 64" by (simp add: e_def)
  with a(1) c' have "radix_value 16 (16 ^ 64) 0 (butlast digits @ other_digit [last digits]) = Some (a * 16 + e)"
    by (simp add: radix_value_append del: of_nat_power)
  moreover have "e \<noteq> d" using c(2) by (auto simp: e_def)
  ultimately show "\<exists>m. radix_value 16 (16 ^ 64) 0 (butlast digits @ other_digit [last digits]) = Some m \<and> m \<noteq> n \<and> m < 16 ^ 64"
    using d(2) \<open>a * 16 + e < 16 ^ 64\<close> by auto
qed

lemma word_of_nat_inj256: "m < 16 ^ 64 \<Longrightarrow> n < 16 ^ 64 \<Longrightarrow> (word_of_nat m :: u256) = word_of_nat n \<longleftrightarrow> m = n"
proof -
  assume "m < 16 ^ 64" "n < 16 ^ 64"
  moreover have "(16::nat) ^ 64 = 2 ^ 256" by simp
  ultimately show ?thesis by (auto simp: unat_of_nat dest: arg_cong [of _ _ unat])
qed

lemma parse_word_hex_other_digit:
  assumes "parse_word_hex 64 s = Some (w :: u256)"
  shows "s \<noteq> []" "(of_char (last s) :: nat) < 128"
    "\<exists>w'. parse_word_hex 64 (butlast s @ other_digit [last s]) = Some w' \<and> w' \<noteq> w"
proof -
  obtain p digits where s: "s = p @ digits" "length digits = 64"
    and strip: "\<And>ds. length ds = 64 \<Longrightarrow> take 2 (p @ ds) = take 2 s \<Longrightarrow> parse_word_hex 64 (p @ ds) =
      map_option (word_of_nat :: nat \<Rightarrow> u256) (radix_value 16 (16 ^ 64) 0 ds)"
  proof (cases "strip_prefix ''0x'' s")
    case None
    with assms have "length s = 64" by (auto simp: parse_word_hex_def split: if_splits)
    moreover have "strip_prefix ''0x'' ds = None" if "take 2 ds = take 2 s" for ds
      using None that by (simp add: strip_prefix_def numeral_2_eq_2 split: if_splits)
    ultimately show ?thesis by (intro that [of "[]" s]) (simp_all add: parse_word_hex_def)
  next
    case (Some d)
    then have "s = ''0x'' @ d" by (metis append_take_drop_id option.inject option.distinct(1) strip_prefix_def)
    moreover from Some assms have "length d = 64" by (auto simp: parse_word_hex_def split: if_splits)
    ultimately show ?thesis by (intro that [of "''0x''" d]) (simp_all add: parse_word_hex_def strip_prefix_def)
  qed
  have ne: "digits \<noteq> []" using s(2) by auto
  from strip [OF s(2)] s(1) assms obtain n where n: "radix_value 16 (16 ^ 64) 0 digits = Some n" "w = word_of_nat n" by auto
  have "n < 16 ^ 64" by (rule radix_value_bound [OF n(1)]) simp
  show "s \<noteq> []" "(of_char (last s) :: nat) < 128"
    using ne s(1) radix_value_other_digit(1) [OF n(1) ne] by simp_all
  from radix_value_other_digit(2) [OF n(1) ne] obtain m where
    m: "radix_value 16 (16 ^ 64) 0 (butlast digits @ other_digit [last digits]) = Some m" "m \<noteq> n" "m < 16 ^ 64" by blast
  let ?ds = "butlast digits @ other_digit [last digits]"
  have len: "length ?ds = 64" using s(2) by (simp add: other_digit_def)
  have "take 2 (p @ ?ds) = take 2 s" using s(2) by (simp add: s(1) take_butlast)
  then have "parse_word_hex 64 (p @ ?ds) = Some (word_of_nat m :: u256)" using strip [OF len] m(1) by simp
  moreover have "p @ ?ds = butlast s @ other_digit [last s]" using ne by (simp add: s(1) butlast_append)
  ultimately show "\<exists>w'. parse_word_hex 64 (butlast s @ other_digit [last s]) = Some w' \<and> w' \<noteq> w"
    using word_of_nat_inj256 [OF m(3) \<open>n < 16 ^ 64\<close>] m(2) n(2) by auto
qed

lemma std_hash_texts: "hash_texts std_libs"
  unfolding hash_texts_def std_libs_def by (auto dest: parse_word_hex_other_digit)

text \<open>A node with block 1, whose answer is the byte 2 and the relay's the byte 3.\<close>

definition block_json :: "u256 \<Rightarrow> json" where
  "block_json hash = JObj [(''hash'', JStr (key_hex std_libs hash)), (''number'', JStr ''0x1''),
     (''parentHash'', JStr (key_hex std_libs 0)), (''receiptsRoot'', JStr (key_hex std_libs 0)),
     (''stateRoot'', JStr (key_hex std_libs 0)), (''transactions'', JArr []),
     (''transactionsRoot'', JStr (key_hex std_libs 0))]"

definition block_request :: json where
  "block_request = JObj [(''method'', JStr ''eth_getBlockByNumber'')]"

definition relay_libs :: "json \<Rightarrow> json \<Rightarrow> json \<Rightarrow> libs" where
  "relay_libs request parsed lied = std_libs
     \<lparr>json_from_slice := (\<lambda>b. if b = [1] then Some request else if b = [2] then Some parsed
        else if b = [3] then Some lied else None),
      json_to_vec := (\<lambda>_. [3])\<rparr>"

lemma relay_libs_simps [simp]:
  "json_from_slice (relay_libs q a l) [1] = Some q" "json_from_slice (relay_libs q a l) [2] = Some a"
  "json_from_slice (relay_libs q a l) [3] = Some l" "json_to_vec (relay_libs q a l) j = [3]"
  "parse_key (relay_libs q a l) = parse_key std_libs" "parse_addr (relay_libs q a l) = parse_addr std_libs"
  by (simp_all add: relay_libs_def)

definition two_look :: "(pref \<Rightarrow> exchange) \<Rightarrow> look" where
  "two_look answers = \<lparr>lk_block = answers, lk_rows = (\<lambda>_. Inl TransportError), lk_order = (\<lambda>rs. rs),
     lk_meanwhile = (\<lambda>pool. pool)\<rparr>"

definition answer_two :: http_response where
  "answer_two = \<lparr>hr_status = 200, hr_content_length = None, hr_chunks = [[2]], hr_broken = None\<rparr>"

definition rig_pool :: pool where
  "rig_pool = \<lparr>pl_members = [0, 1], pl_cursor = 0, pl_outcomes = no_outcomes,
     pl_heap = (\<lambda>_. provider_new [] (Url []) Static 0), pl_fresh = 2\<rparr>"

lemma wrong_block_is_found_witness:
  "\<exists>L answers pool'. snd (round_over L False KEY_PAGE_INTERVAL
       \<lparr>rn_finalized = Inr (Some block_one), rn_now = 0, rn_page = Inl ReadUnexpected, rn_random = (\<lambda>_. 0),
         rn_rows = (\<lambda>_ _. Inl ReadUnexpected), rn_first = two_look answers, rn_second = two_look answers\<rparr>
       [0, 1] (\<lparr>kp_keys = [], kp_read_at = None\<rparr>, rig_pool)) = pool' \<and>
     last_verdict (entry pool' 0) = Some (Divergence, 1) \<and> last_verdict (entry pool' 1) = Some (Match, 1)"
proof -
  define parsed where "parsed = JObj [(''result'', block_json 7)]"
  define lied where "lied = fst (the (alter_block block_request parsed))"
  let ?L = "relay_libs block_request parsed lied"
  define answers where "answers = (\<lambda>p :: pref. through_relay ?L (\<lambda>_. []) (if p = 0 then Some BlockLie else None) [1] (Inr answer_two) None)"
  define env where "env = \<lparr>rn_finalized = Inr (Some block_one), rn_now = 0, rn_page = Inl ReadUnexpected, rn_random = (\<lambda>_. 0),
         rn_rows = (\<lambda>_ _. Inl ReadUnexpected), rn_first = two_look answers, rn_second = two_look answers\<rparr>"
  obtain page' pool' where run: "round_over ?L False KEY_PAGE_INTERVAL env [0, 1] (\<lparr>kp_keys = [], kp_read_at = None\<rparr>, rig_pool) =
      (page', pool')" by fastforce
  have keys: "parse_key std_libs (key_hex std_libs k) = Some k" for k
    by (rule text_lawsD(2) [OF std_libs_text_laws])
  have texts: "hash_texts ?L" using std_hash_texts by (simp add: hash_texts_def)
  have read: "read_block ?L RESPONSE_CAP (Inr answer_two) = Inr (Some block_one)"
    by (simp add: read_block_def reader_call_def answer_two_def read_body_def declared_over_cap_def is_success_def
        RESPONSE_CAP_def parsed_def rpc_answer_def block_json_def block_parse_def json_quantity_def json_key_def
        json_str_def keys json_list_def block_one_def parse_u64_def strip_prefix_def parse_radix_def char_digit_def)
  have prints: "reads_back ?L (alter_block block_request parsed)"
    by (simp add: reads_back_def lied_def split: option.split)
  have env': "rn_finalized env = Inr (Some block_one)" "rn_first env = two_look answers" "rn_second env = two_look answers"
    by (simp_all add: env_def)
  have order: "in_order (two_look answers)" by (simp add: in_order_def two_look_def)
  have looks: "\<forall>look \<in> {rn_first env, rn_second env}.
      lk_block look 0 = through_relay ?L (\<lambda>_. []) (Some BlockLie) [1] (Inr answer_two) None \<and>
      lk_block look 1 = through_relay ?L (\<lambda>_. []) None [1] (Inr answer_two) None"
    by (simp add: env' two_look_def answers_def)
  have "last_verdict (entry pool' 0) = Some (Divergence, 1) \<and> last_verdict (entry pool' 1) = Some (Match, 1)"
    using wrong_block_is_found [OF run _ _ _ _ _ env'(1) texts _ _ read _ prints looks] order env'
    by (simp add: block_request_def json_at_def answer_two_def block_one_def)
  then show ?thesis using run unfolding env_def by (intro exI [of _ ?L] exI [of _ answers] exI [of _ pool']) simp
qed

end
