(* ===== verification/Entities.thy ===== *)
theory Entities
  imports Liars Clients
begin

text \<open>
  The relay's lie about entities, its frozen head, and the probes: what the rig's other
  scenarios show, as statements about the relay, the integrity round and the Monitor together.
\<close>

section \<open>The probes\<close>

text \<open>The Monitor's two requests, as the library reads them.\<close>

definition probe_request :: "string \<Rightarrow> json" where
  "probe_request rpc_method = JObj
     [(''id'', JNum 0), (''jsonrpc'', JStr ''2.0''), (''method'', JStr rpc_method), (''params'', JArr [])]"

definition relayed_sight ::
    "libs \<Rightarrow> (http_error \<Rightarrow> string) \<Rightarrow> lie option \<Rightarrow> bytes \<Rightarrow> bytes \<Rightarrow> json option \<Rightarrow> sight \<Rightarrow> sight" where
  "relayed_sight L error_text lie chain_body head_body frozen s =
     s\<lparr>si_chain := through_relay L error_text lie chain_body (si_chain s) frozen,
       si_block := through_relay L error_text lie head_body (si_block s) frozen\<rparr>"

lemma relayed_sight_simps [simp]:
  "si_chain (relayed_sight L error_text lie cb hb frozen s) = through_relay L error_text lie cb (si_chain s) frozen"
  "si_block (relayed_sight L error_text lie cb hb frozen s) = through_relay L error_text lie hb (si_block s) frozen"
  "si_during_chain (relayed_sight L error_text lie cb hb frozen s) = si_during_chain s"
  "si_during_block (relayed_sight L error_text lie cb hb frozen s) = si_during_block s"
  "si_elapsed (relayed_sight L error_text lie cb hb frozen s) = si_elapsed s"
  "si_ended (relayed_sight L error_text lie cb hb frozen s) = si_ended s"
  by (simp_all add: relayed_sight_def)

lemma query_probe_blind:
  assumes "lie \<in> {None, Some EntityLie, Some BlockLie}"
    and "json_from_slice L body = Some (probe_request rpc_method)" and "rpc_method \<in> {''eth_chainId'', ''eth_blockNumber''}"
  shows "query_probe L (through_relay L error_text lie body upstream frozen) = query_probe L upstream"
proof (cases lie)
  case None
  then show ?thesis by (simp only: query_probe_honest)
next
  case (Some l)
  have "json_at (probe_request rpc_method) ''method'' \<noteq> JStr (lie_method l)"
    using assms(1,3) Some by (auto simp: probe_request_def json_at_def)
  from relay_other_method [OF assms(2) this] Some show ?thesis by (simp only: query_probe_honest)
qed

text \<open>
  The probes cannot see a lie. Whichever providers stand behind relays, honest or lying
  about entities or blocks, a sweep of the Monitor leaves it and the pool as it would have with the
  nodes themselves.
\<close>

theorem probes_see_no_lie:
  assumes "\<forall>r. lie r \<in> {None, Some EntityLie, Some BlockLie}"
    and "json_from_slice L chain_body = Some (probe_request ''eth_chainId'')"
    and "json_from_slice L head_body = Some (probe_request ''eth_blockNumber'')"
  shows "sweep L config (t\<lparr>tk_sights := (\<lambda>r. relayed_sight L error_text (lie r) chain_body head_body frozen (tk_sights t r))\<rparr>) st =
    sweep L config t st"
proof -
  have blind: "query_probe L (through_relay L error_text (lie r) chain_body x frozen) = query_probe L x"
    "query_probe L (through_relay L error_text (lie r) head_body x frozen) = query_probe L x" for r x
    using query_probe_blind assms by auto
  have probed: "probe L config reference (relayed_sight L error_text (lie r) chain_body head_body frozen s) p =
      probe L config reference s p" for reference r s p
    unfolding probe_def relayed_sight_simps blind ..
  have cleared: "chain_cleared L config chain_round (relayed_sight L error_text (lie r) chain_body head_body frozen s) p =
      chain_cleared L config chain_round s p" for chain_round r s p
    unfolding chain_cleared_def relayed_sight_simps blind ..
  have "probe_entry L config reference chain_round now (relayed_sight L error_text (lie r) chain_body head_body frozen s) =
      probe_entry L config reference chain_round now s" for reference chain_round now r s
    unfolding probe_entry_def probed cleared ..
  then show ?thesis by (cases st) (simp add: sweep_def probe_all_def Let_def)
qed

text \<open>A fleet of one provider, behind a relay that lies about blocks.\<close>

definition head_answer :: json where
  "head_answer = JObj [(''result'', JStr ''0x10'')]"

definition probe_libs :: libs where
  "probe_libs = std_libs\<lparr>json_from_slice := (\<lambda>b. if b = [1] then Some (probe_request ''eth_chainId'')
     else if b = [2] then Some (probe_request ''eth_blockNumber'') else if b = [3] then Some head_answer else None)\<rparr>"

definition answer_of :: "bytes \<Rightarrow> exchange" where
  "answer_of b = Inr \<lparr>hr_status = 200, hr_content_length = None, hr_chunks = [b], hr_broken = None\<rparr>"

definition plain_sight :: sight where
  "plain_sight = \<lparr>si_chain = answer_of [3], si_during_chain = (\<lambda>p. p), si_block = answer_of [3],
     si_during_block = (\<lambda>p. p), si_elapsed = 0, si_ended = 0\<rparr>"

lemma probes_see_no_lie_witness:
  "query_probe probe_libs (answer_of [3]) = Some 16 \<and>
   sweep probe_libs health_default \<lparr>tk_reader = None, tk_asked_at = 0, tk_now = 0,
      tk_sights = (\<lambda>_. relayed_sight probe_libs (\<lambda>_. []) (Some BlockLie) [1] [2] None plain_sight)\<rparr> (monitor_start, rig_pool) =
   sweep probe_libs health_default \<lparr>tk_reader = None, tk_asked_at = 0, tk_now = 0, tk_sights = (\<lambda>_. plain_sight)\<rparr>
      (monitor_start, rig_pool)"
proof
  show "query_probe probe_libs (answer_of [3]) = Some 16"
    by (simp add: query_probe_def answer_of_def is_success_def probe_libs_def head_answer_def hex_quantity_def
        PROBE_RESPONSE_CAP_def strip_prefix_def parse_radix_def char_digit_def)
  have "json_from_slice probe_libs [1] = Some (probe_request ''eth_chainId'')"
    "json_from_slice probe_libs [2] = Some (probe_request ''eth_blockNumber'')" by (simp_all add: probe_libs_def)
  from probes_see_no_lie [OF _ this, where lie = "\<lambda>_. Some BlockLie" and config = health_default and
      t = "\<lparr>tk_reader = None, tk_asked_at = 0, tk_now = 0, tk_sights = (\<lambda>_. plain_sight)\<rparr>" and
      error_text = "\<lambda>_. []" and frozen = None and st = "(monitor_start, rig_pool)"]
  show "sweep probe_libs health_default \<lparr>tk_reader = None, tk_asked_at = 0, tk_now = 0,
      tk_sights = (\<lambda>_. relayed_sight probe_libs (\<lambda>_. []) (Some BlockLie) [1] [2] None plain_sight)\<rparr> (monitor_start, rig_pool) =
    sweep probe_libs health_default \<lparr>tk_reader = None, tk_asked_at = 0, tk_now = 0, tk_sights = (\<lambda>_. plain_sight)\<rparr>
      (monitor_start, rig_pool)"
    by simp
qed

section \<open>The lie about entities\<close>

definition lied_attribute :: "arkiv_attribute \<Rightarrow> arkiv_attribute" where
  "lied_attribute a =
     (if at_name a = ''payload'' \<and> at_type a = ''bytes''
      then a\<lparr>at_value := JStr ((case as_str (at_value a) of None \<Rightarrow> ''0x'' | Some p \<Rightarrow> p) @ ''00'')\<rparr> else a)"

abbreviation has_payload :: "arkiv_attribute list \<Rightarrow> bool" where
  "has_payload as \<equiv> \<exists>a \<in> set as. at_name a = ''payload'' \<and> at_type a = ''bytes''"

lemma lied_attribute_name [simp]: "at_name (lied_attribute a) = at_name a"
  by (simp add: lied_attribute_def)

lemma lied_attribute_differs: "lied_attribute a = a \<longleftrightarrow> \<not> (at_name a = ''payload'' \<and> at_type a = ''bytes'')"
proof
  assume "lied_attribute a = a"
  then have "at_value (lied_attribute a) = at_value a" by (rule arg_cong)
  then show "\<not> (at_name a = ''payload'' \<and> at_type a = ''bytes'')"
    by (cases "at_value a") (auto simp: lied_attribute_def)
qed (auto simp: lied_attribute_def)

lemma attribute_parse_lied:
  assumes "attribute_parse j = Some a"
  shows "\<exists>j'. alter_attribute j = Some (j', at_name a = ''payload'' \<and> at_type a = ''bytes'') \<and>
    attribute_parse j' = Some (lied_attribute a)"
proof (cases j)
  case (JObj kvs)
  from assms obtain n t v where f: "map_of kvs ''name'' = Some n" "as_str n = Some (at_name a)"
    "map_of kvs ''type'' = Some t" "as_str t = Some (at_type a)" "map_of kvs ''value'' = Some v" "at_value a = v"
    unfolding attribute_parse_def JObj by (auto simp: bind_eq_Some_conv json_str_def)
  then have n: "n = JStr (at_name a)" "t = JStr (at_type a)" by (cases n; cases t; simp)+
  show ?thesis
  proof (cases "at_name a = ''payload'' \<and> at_type a = ''bytes''")
    case True
    then show ?thesis using f n
      by (simp add: JObj alter_attribute_def is_payload_def json_at_def json_put_def attribute_parse_def json_str_def
          lied_attribute_def)
  next
    case False
    then have "\<not> is_payload j" using f n by (auto simp: JObj is_payload_def json_at_def)
    with False assms show ?thesis by (auto simp: alter_attribute_def lied_attribute_def)
  qed
qed (use assms in \<open>simp_all add: attribute_parse_def json_str_def\<close>)

lemma attributes_parse_lied:
  assumes "all_some (map attribute_parse js) = Some as"
  shows "\<exists>js'. json_each alter_attribute js = Some (js', has_payload as) \<and>
    all_some (map attribute_parse js') = Some (map lied_attribute as)"
  using assms
proof (induction js arbitrary: as)
  case (Cons j js)
  from Cons.prems obtain a as' where a: "attribute_parse j = Some a" "all_some (map attribute_parse js) = Some as'"
    "as = a # as'" by (cases "attribute_parse j") auto
  from attribute_parse_lied [OF a(1)] obtain j' where
    "alter_attribute j = Some (j', at_name a = ''payload'' \<and> at_type a = ''bytes'')"
    "attribute_parse j' = Some (lied_attribute a)" by blast
  moreover from Cons.IH [OF a(2)] obtain js' where "json_each alter_attribute js = Some (js', has_payload as')"
    "all_some (map attribute_parse js') = Some (map lied_attribute as')" by blast
  ultimately show ?case by (simp add: a(3))
qed simp

lemma json_quantity_insert:
  "k \<noteq> k' \<Longrightarrow> json_quantity (JObj (bt_insert k v kvs)) k' = json_quantity (JObj kvs) k'"
  "k \<noteq> k' \<Longrightarrow> json_str (JObj (bt_insert k v kvs)) k' = json_str (JObj kvs) k'"
  "k \<noteq> k' \<Longrightarrow> json_key L (JObj (bt_insert k v kvs)) k' = json_key L (JObj kvs) k'"
  by (simp_all add: json_quantity_def json_str_def json_key_def)

lemma entity_parse_lied:
  assumes "entity_parse L j = Some row" and "has_payload (e_attributes row)"
  shows "\<exists>j'. alter_row j = Some (j', True) \<and>
    entity_parse L j' = Some (row\<lparr>e_attributes := map lied_attribute (e_attributes row)\<rparr>)"
proof (cases j)
  case (JObj kvs)
  have as: "(case json_get j ''attributes'' of None \<Rightarrow> Some [] | Some v \<Rightarrow> json_list attribute_parse v) = Some (e_attributes row)"
    using assms(1) by (auto simp: entity_parse_def bind_eq_Some_conv)
  from assms(2) have ne: "e_attributes row \<noteq> []" by auto
  obtain js where js: "map_of kvs ''attributes'' = Some (JArr js)" "all_some (map attribute_parse js) = Some (e_attributes row)"
  proof (cases "map_of kvs ''attributes''")
    case None
    with as ne show ?thesis by (simp add: JObj)
  next
    case (Some v)
    with as that show ?thesis by (cases v) (simp_all add: JObj json_list_def)
  qed
  from attributes_parse_lied [OF js(2)] obtain js' where js': "json_each alter_attribute js = Some (js', has_payload (e_attributes row))"
    "all_some (map attribute_parse js') = Some (map lied_attribute (e_attributes row))" by blast
  let ?j = "JObj (bt_insert ''attributes'' (JArr js') kvs)"
  have "alter_row j = Some (?j, True)"
    using js(1) js'(1) assms(2) by (simp add: JObj alter_row_def json_rows_def)
  moreover have "entity_parse L ?j = Some (row\<lparr>e_attributes := map lied_attribute (e_attributes row)\<rparr>)"
    using assms(1) js'(2)
    by (auto simp: JObj entity_parse_def json_quantity_insert json_list_def bind_eq_Some_conv)
  ultimately show ?thesis by blast
qed (use assms in \<open>simp_all add: entity_parse_def json_key_def json_str_def\<close>)

lemma all_some_length: "all_some xs = Some ys \<Longrightarrow> length ys = length xs"
  by (induction xs arbitrary: ys rule: all_some.induct) auto

lemma page_parse_lied:
  assumes "page_parse L j = Some page" and "pg_entities page = [row]" and "has_payload (e_attributes row)"
  shows "\<exists>j'. json_slot ''data'' (json_rows alter_row) j = Some (j', True) \<and>
    page_parse L j' = Some (page\<lparr>pg_entities := [row\<lparr>e_attributes := map lied_attribute (e_attributes row)\<rparr>]\<rparr>)"
proof (cases j)
  case (JObj kvs)
  have rows: "(case json_get j ''data'' of None \<Rightarrow> Some [] | Some v \<Rightarrow> json_list (entity_parse L) v) = Some [row]"
    using assms(1,2) by (auto simp: page_parse_def bind_eq_Some_conv)
  obtain rj where rj: "map_of kvs ''data'' = Some (JArr [rj])" "entity_parse L rj = Some row"
  proof (cases "map_of kvs ''data''")
    case None
    with rows show ?thesis by (simp add: JObj)
  next
    case (Some v)
    with rows obtain js where js: "v = JArr js" "all_some (map (entity_parse L) js) = Some [row]"
      by (cases v) (simp_all add: JObj json_list_def)
    from all_some_length [OF js(2)] obtain rj where "js = [rj]" by (cases js) auto
    with js(2) have "js = [rj]" "entity_parse L rj = Some row" by (cases "entity_parse L rj"; simp)+
    with Some js(1) that show ?thesis by blast
  qed
  from entity_parse_lied [OF rj(2) assms(3)] obtain rj' where rj': "alter_row rj = Some (rj', True)"
    "entity_parse L rj' = Some (row\<lparr>e_attributes := map lied_attribute (e_attributes row)\<rparr>)" by blast
  let ?j = "JObj (bt_insert ''data'' (JArr [rj']) kvs)"
  have "json_slot ''data'' (json_rows alter_row) j = Some (?j, True)"
    using rj(1) rj'(1) by (simp add: JObj json_rows_def)
  moreover have "page_parse L ?j = Some (page\<lparr>pg_entities := [row\<lparr>e_attributes := map lied_attribute (e_attributes row)\<rparr>]\<rparr>)"
    using assms(1) rj'(2)
    by (auto simp: JObj page_parse_def json_quantity_insert json_list_def bind_eq_Some_conv)
  ultimately show ?thesis by blast
qed (use assms in \<open>simp_all add: page_parse_def json_quantity_def\<close>)

lemma sort_key_map_same: "(\<And>x. f (g x) = f x) \<Longrightarrow> sort_key f (map g xs) = map g (sort_key f xs)"
proof (induction xs)
  case (Cons x xs)
  have "insort_key f (g x) (map g ys) = map g (insort_key f x ys)" for ys
    by (induction ys) (simp_all add: Cons.prems)
  with Cons show ?case by simp
qed simp

lemma lied_rows_differ:
  assumes "has_payload (e_attributes row)"
  shows "\<not> same_entities [row\<lparr>e_attributes := map lied_attribute (e_attributes row)\<rparr>] [row]"
proof
  let ?as = "sort_key at_name (e_attributes row)"
  assume "same_entities [row\<lparr>e_attributes := map lied_attribute (e_attributes row)\<rparr>] [row]"
  then have "row\<lparr>e_attributes := map lied_attribute ?as\<rparr> = row\<lparr>e_attributes := ?as\<rparr>"
    by (simp add: same_entities_def sorted_rows_def sort_key_map_same)
  then have "e_attributes (row\<lparr>e_attributes := map lied_attribute ?as\<rparr>) = e_attributes (row\<lparr>e_attributes := ?as\<rparr>)"
    by (rule arg_cong)
  then have "\<forall>a \<in> set (e_attributes row). lied_attribute a = a"
    by (simp add: map_idI map_eq_conv [of lied_attribute _ id, simplified])
  with assms show False by (auto simp: lied_attribute_differs)
qed

text \<open>The integrity round's question is one the relay lies about.\<close>

lemma checker_asks_by_key:
  assumes "query_text L (query_at_block height (query_by_key key)) = Some text"
    and "json_at request ''method'' = JStr ''arkiv_query''"
    and "json_at request ''params'' = JArr (JStr text # options)"
  shows "asks_by_key request"
proof -
  have asked: "text = ''$key = key('' @ key_hex L key @ '')''"
    using assms(1) by (simp add: query_text_def query_at_block_def query_by_key_def)
  have "trim_start text = text"
    by (subst trim_start.simps) (simp add: asked)
  with assms(2,3) show ?thesis by (simp add: asks_by_key_def json_nth_def starts_with_def asked)
qed

lemma read_query_InrD:
  assumes "read_query L cap x = Inr page"
  obtains v where "reader_call L cap x = Inr v" "v \<noteq> JNull" "page_parse L v = Some page"
proof -
  from assms obtain v where v: "reader_call L cap x = Inr v" "ok_or ReadUnexpected (page_parse L v) = Inr page"
    by (auto simp: read_query_def rbind_Inr_iff)
  then have p: "page_parse L v = Some page" by (cases "page_parse L v") auto
  then have "v \<noteq> JNull" by (auto simp: page_parse_def json_quantity_def)
  with v(1) p that show ?thesis by blast
qed

lemma read_query_honest:
  assumes "read_query L RESPONSE_CAP upstream = Inr page"
  shows "read_query L RESPONSE_CAP (through_relay L error_text None body upstream frozen) = Inr page"
  using assms
proof (rule read_query_InrD)
  fix v
  assume v: "reader_call L RESPONSE_CAP upstream = Inr v" "page_parse L v = Some page"
  have "reader_call L RESPONSE_CAP (through_relay L error_text None body upstream frozen) = Inr v"
    using v(1) by (rule reader_call_honest) (simp add: RESPONSE_CAP_def)
  with v(2) show ?thesis by (simp add: read_query_def)
qed

lemma read_query_lied:
  assumes "json_from_slice L body = Some request" and "asks_by_key request"
    and "read_query L RESPONSE_CAP (Inr r) = Inr page" and "pg_entities page = [row]"
    and "has_payload (e_attributes row)"
    and "json_from_slice L (concat (hr_chunks r)) = Some parsed" and "reads_back L (alter_entities request parsed)"
  shows "read_query L RESPONSE_CAP (through_relay L error_text (Some EntityLie) body (Inr r) frozen)
    \<in> {Inl (ReadTooLarge RESPONSE_CAP),
       Inr (page\<lparr>pg_entities := [row\<lparr>e_attributes := map lied_attribute (e_attributes row)\<rparr>]\<rparr>)}"
  using assms(3)
proof (rule read_query_InrD)
  fix v
  assume v: "reader_call L RESPONSE_CAP (Inr r) = Inr v" "v \<noteq> JNull" "page_parse L v = Some page"
  obtain r' j where "Inr r = (Inr r' :: exchange)" "is_success (hr_status r')" "hr_broken r' = None"
    "length (concat (hr_chunks r')) \<le> RESPONSE_CAP" "json_from_slice L (concat (hr_chunks r')) = Some j" "rpc_answer j = Inr v"
    by (rule reader_call_InrD [OF v(1)])
  with assms(6) have r: "is_success (hr_status r)" "hr_broken r = None" "rpc_answer parsed = Inr v" by simp_all
  from rpc_answer_InrD [OF r(3) v(2)] obtain kvs where k: "parsed = JObj kvs" "map_of kvs ''result'' = Some v"
    "map_of kvs ''error'' \<in> {None, Some JNull}" by blast
  from page_parse_lied [OF v(3) assms(4,5)] obtain v' where
    v': "json_slot ''data'' (json_rows alter_row) v = Some (v', True)"
      "page_parse L v' = Some (page\<lparr>pg_entities := [row\<lparr>e_attributes := map lied_attribute (e_attributes row)\<rparr>]\<rparr>)" by blast
  let ?lied = "JObj (bt_insert ''result'' v' kvs)"
  have l: "alter_entities request parsed = Some (?lied, True)"
    using assms(2) k(1,2) v'(1) by (simp add: alter_entities_def)
  then have "alter EntityLie request parsed frozen = (Some (?lied, True), frozen)" by (simp add: alter_def)
  moreover have "json_from_slice L (json_to_vec L ?lied) = Some ?lied" using assms(7) l by (simp add: reads_back_def)
  moreover have "RESPONSE_CAP < 2 ^ 64" by (simp add: RESPONSE_CAP_def)
  ultimately have "reader_call L RESPONSE_CAP (through_relay L error_text (Some EntityLie) body (Inr r) frozen) =
      (if RESPONSE_CAP < length (json_to_vec L ?lied) then Inl (ReadTooLarge RESPONSE_CAP) else Inr v')"
    using reader_call_lied [OF _ r(1,2) assms(1,6)] rpc_answer_replaced [OF k(3)] by simp
  with v'(2) show ?thesis by (simp add: read_query_def)
qed

text \<open>
  C17. With the entity check on, a lie about entities is found, and only the liar is. Both relays
  stand in front of a node that has the reference's block and its sampled entity, which carries a
  payload. The block passes the lying relay as it is, the entity comes with another payload: after
  one round the liar is out of rotation with a divergence, the honest provider has a match.
\<close>

theorem wrong_entity_is_found:
  assumes "round_over L True interval env providers (page, pool) = (page', pool')"
    and "distinct providers" and "liar \<in> set providers" and "honest \<in> set providers"
    and "in_order (rn_first env)" and "in_order (rn_second env)"
    and "rn_finalized env = Inr (Some finalized)"
    and "round_expected True interval env finalized page = (page', Some expected)"
    and "ex_entity expected = Some entity" and "ee_rows entity = Inr [row]" and "has_payload (e_attributes row)"
    and "json_from_slice L block_body = Some block_request"
    and "json_at block_request ''method'' = JStr ''eth_getBlockByNumber''"
    and "json_from_slice L body = Some request" and "json_at request ''method'' = JStr ''arkiv_query''"
    and "json_at request ''params'' = JArr (JStr text # options)"
    and "query_text L (query_at_block (bf_number finalized) (query_by_key (ee_key entity))) = Some text"
    and "read_block L RESPONSE_CAP block_answer = Inr (Some finalized)"
    and "read_query L RESPONSE_CAP (Inr r) = Inr node_page" and "pg_entities node_page = [row]"
    and "json_from_slice L (concat (hr_chunks r)) = Some parsed" and "reads_back L (alter_entities request parsed)"
    and "\<forall>look \<in> {rn_first env, rn_second env}. \<forall>(p, lie) \<in> {(liar, Some EntityLie), (honest, None)}.
      lk_block look p = through_relay L error_text lie block_body block_answer frozen \<and>
      lk_rows look p = through_relay L error_text lie body (Inr r) frozen"
  shows "\<not> eligible (entry pool' liar) \<and>
    last_verdict (entry pool' liar) = Some (Divergence, bf_number finalized) \<and>
    last_verdict (entry pool' honest) = Some (Match, bf_number finalized)"
proof -
  have fin: "ex_finalized expected = finalized"
    using assms(8) by (auto simp: round_expected_def Let_def split: prod.splits option.splits)
  have by_key: "asks_by_key request" by (rule checker_asks_by_key [OF assms(17,15,16)])
  have block: "read_block L RESPONSE_CAP (through_relay L error_text lie block_body block_answer frozen) = Inr (Some finalized)"
    if "lie \<in> {Some EntityLie, None}" for lie
    using read_block_honest [OF assms(18)] relay_other_method [OF assms(12), of EntityLie] assms(13) that by auto
  have lied: "look_verdict L look expected q liar = Divergence" if "look \<in> {rn_first env, rn_second env}" for look q
  proof -
    have look: "lk_block look liar = through_relay L error_text (Some EntityLie) block_body block_answer frozen"
      "lk_rows look liar = through_relay L error_text (Some EntityLie) body (Inr r) frozen"
      using assms(23) that by auto
    have first: "read_block L RESPONSE_CAP (lk_block look liar) = Inr (Some finalized)"
      unfolding look by (rule block) simp
    consider "read_query L RESPONSE_CAP (lk_rows look liar) = Inl (ReadTooLarge RESPONSE_CAP)"
      | "read_query L RESPONSE_CAP (lk_rows look liar) =
          Inr (node_page\<lparr>pg_entities := [row\<lparr>e_attributes := map lied_attribute (e_attributes row)\<rparr>]\<rparr>)"
      using read_query_lied [OF assms(14) by_key assms(19,20,11,21,22), of error_text frozen] unfolding look by blast
    then show ?thesis
      by cases (simp_all add: look_verdict_def ask_def judge_def Let_def first lied_rows_differ [OF assms(11)]
          assms(9,10) fin)
  qed
  have fine: "look_verdict L look expected q honest = Match" if "look \<in> {rn_first env, rn_second env}" for look q
  proof -
    have look: "lk_block look honest = through_relay L error_text None block_body block_answer frozen"
      "lk_rows look honest = through_relay L error_text None body (Inr r) frozen"
      using assms(23) that by auto
    have "read_block L RESPONSE_CAP (lk_block look honest) = Inr (Some finalized)"
      "read_query L RESPONSE_CAP (lk_rows look honest) = Inr node_page"
      unfolding look by (rule block; simp) (rule read_query_honest [OF assms(19)])
    then show ?thesis using assms(9,10,20) fin
      by (simp add: look_verdict_def ask_def judge_def Let_def same_entities_def)
  qed
  note steady = round_records_steady [OF assms(1,2) _ assms(5-8)]
  from steady(1) [OF assms(3) lied] steady(2) [OF assms(3) lied refl] steady(1) [OF assms(4) fine]
  show ?thesis by blast
qed

text \<open>One entity, created at block 1 and expiring at block 9, with a payload of one byte.\<close>

definition one_row :: arkiv_entity where
  "one_row = \<lparr>e_key = 31, e_creator = 2, e_created_at = 1, e_updated_at = 1, e_expires_at = 9,
     e_attributes = [\<lparr>at_name = ''payload'', at_type = ''bytes'', at_value = JStr ''0xab''\<rparr>]\<rparr>"

definition one_page :: page where
  "one_page = \<lparr>pg_entities = [one_row], pg_more = False, pg_block = 1\<rparr>"

definition one_answer :: json where
  "one_answer = JObj [(''result'', JObj [(''blockNumber'', JStr ''0x1''), (''data'', JArr [JObj
     [(''attributes'', JArr [JObj [(''name'', JStr ''payload''), (''type'', JStr ''bytes''), (''value'', JStr ''0xab'')]]),
      (''createdAt'', JStr ''0x1''), (''creator'', JStr (addr_hex std_libs 2)), (''expiresAt'', JStr ''0x9''),
      (''key'', JStr (key_hex std_libs 31)), (''updatedAt'', JStr ''0x1'')]])])]"

definition entity_request :: json where
  "entity_request = JObj [(''method'', JStr ''arkiv_query''),
     (''params'', JArr [JStr (''$key = key('' @ key_hex std_libs 31 @ '')'')])]"

definition entity_libs :: libs where
  "entity_libs = std_libs\<lparr>json_from_slice := (\<lambda>b. if b = [1] then Some block_request
       else if b = [2] then Some (JObj [(''result'', block_json 7)]) else if b = [4] then Some entity_request
       else if b = [5] then Some one_answer
       else if b = [6] then Some (fst (the (alter_entities entity_request one_answer))) else None),
     json_to_vec := (\<lambda>_. [6])\<rparr>"

lemma entity_libs_simps [simp]:
  "json_from_slice entity_libs [1] = Some block_request" "json_from_slice entity_libs [4] = Some entity_request"
  "json_from_slice entity_libs [2] = Some (JObj [(''result'', block_json 7)])"
  "json_from_slice entity_libs [5] = Some one_answer"
  "json_from_slice entity_libs [6] = Some (fst (the (alter_entities entity_request one_answer)))"
  "json_to_vec entity_libs j = [6]" "key_hex entity_libs = key_hex std_libs"
  "parse_key entity_libs = parse_key std_libs" "parse_addr entity_libs = parse_addr std_libs"
  by (simp_all add: entity_libs_def)

lemma std_keys: "parse_key std_libs (key_hex std_libs k) = Some k" "parse_addr std_libs (addr_hex std_libs a) = Some a"
  by (rule text_lawsD [OF std_libs_text_laws])+

lemmas reading_simps = reader_call_def read_body_def declared_over_cap_def is_success_def RESPONSE_CAP_def
  rpc_answer_def json_quantity_def json_key_def json_str_def json_list_def std_keys parse_u64_def strip_prefix_def
  parse_radix_def char_digit_def

definition entity_look :: look where
  "entity_look = \<lparr>
     lk_block = (\<lambda>p. through_relay entity_libs (\<lambda>_. []) (if p = 0 then Some EntityLie else None) [1] (answer_of [2]) None),
     lk_rows = (\<lambda>p. through_relay entity_libs (\<lambda>_. []) (if p = 0 then Some EntityLie else None) [4] (answer_of [5]) None),
     lk_order = (\<lambda>rs. rs), lk_meanwhile = (\<lambda>pool. pool)\<rparr>"

definition entity_round :: round_env where
  "entity_round = \<lparr>rn_finalized = Inr (Some block_one), rn_now = 0, rn_page = Inr one_page, rn_random = (\<lambda>_. 0),
     rn_rows = (\<lambda>_ _. Inr one_page), rn_first = entity_look, rn_second = entity_look\<rparr>"

lemma wrong_entity_is_found_witness:
  "last_verdict (entry (snd (round_over entity_libs True KEY_PAGE_INTERVAL entity_round [0, 1]
      (\<lparr>kp_keys = [], kp_read_at = None\<rparr>, rig_pool))) 0) = Some (Divergence, 1) \<and>
   last_verdict (entry (snd (round_over entity_libs True KEY_PAGE_INTERVAL entity_round [0, 1]
      (\<lparr>kp_keys = [], kp_read_at = None\<rparr>, rig_pool))) 1) = Some (Match, 1)"
proof -
  let ?page = "\<lparr>kp_keys = [], kp_read_at = None\<rparr> :: key_page"
  let ?entity = "\<lparr>ee_key = 31, ee_rows = Inr [one_row]\<rparr>"
  let ?r = "\<lparr>hr_status = 200, hr_content_length = None, hr_chunks = [[5]], hr_broken = None\<rparr> :: http_response"
  obtain page' pool' where run: "round_over entity_libs True KEY_PAGE_INTERVAL entity_round [0, 1] (?page, rig_pool) =
      (page', pool')" by fastforce
  have env: "rn_finalized entity_round = Inr (Some block_one)" "rn_first entity_round = entity_look"
    "rn_second entity_round = entity_look" by (simp_all add: entity_round_def)
  obtain page'' where x: "round_expected True KEY_PAGE_INTERVAL entity_round block_one ?page =
      (page'', Some \<lparr>ex_finalized = block_one, ex_entity = Some ?entity\<rparr>)"
    by (simp add: round_expected_def load_keys_if_due_def entity_round_def elapsed_since_def one_page_def one_row_def
        pick_key_def exists_at_def block_one_def)
  have "page'' = page'" using run x
    by (auto simp: round_over_def finalized_block_def env Let_def case_prod_beta split: if_splits)
  note x' = x [unfolded this]
  have block: "read_block entity_libs RESPONSE_CAP (answer_of [2]) = Inr (Some block_one)"
    by (simp add: read_block_def answer_of_def reading_simps block_json_def block_parse_def block_one_def)
  have rows: "read_query entity_libs RESPONSE_CAP (Inr ?r) = Inr one_page"
    by (simp add: read_query_def reading_simps one_answer_def page_parse_def entity_parse_def attribute_parse_def
        one_page_def one_row_def)
  have prints: "reads_back entity_libs (alter_entities entity_request one_answer)"
    by (simp add: reads_back_def split: option.split)
  have asked: "query_text entity_libs (query_at_block (bf_number block_one) (query_by_key (ee_key ?entity))) =
      Some (''$key = key('' @ key_hex std_libs 31 @ '')'')"
    by (simp add: query_text_def query_at_block_def query_by_key_def)
  have looks: "\<forall>look \<in> {rn_first entity_round, rn_second entity_round}.
      \<forall>(p, lie) \<in> {(0, Some EntityLie), (1, None)}.
      lk_block look p = through_relay entity_libs (\<lambda>_. []) lie [1] (answer_of [2]) None \<and>
      lk_rows look p = through_relay entity_libs (\<lambda>_. []) lie [4] (Inr ?r) None"
    by (simp add: env entity_look_def answer_of_def)
  have "in_order entity_look" by (simp add: in_order_def entity_look_def)
  moreover have ent: "ex_entity \<lparr>ex_finalized = block_one, ex_entity = Some ?entity\<rparr> = Some ?entity" by simp
  ultimately show ?thesis
    using wrong_entity_is_found [OF run _ _ _ _ _ env(1) x' ent _ _ entity_libs_simps(1) _ entity_libs_simps(2) _ _ asked
        block rows _ _ prints looks] run
    by (simp add: env block_request_def entity_request_def json_at_def one_page_def one_row_def block_one_def)
qed

section \<open>The frozen head\<close>

lemma relay_freezes:
  assumes "json_from_slice L body = Some (probe_request ''eth_blockNumber'')" and "is_success (hr_status r)"
    and "hr_broken r = None" and "json_from_slice L (concat (hr_chunks r)) = Some parsed"
    and "json_at parsed ''result'' = v" and "v \<noteq> JNull"
  shows "relay L error_text (Some FrozenHeadLie) body (Inr r) None =
    (Some \<lparr>rs_status = hr_status r, rs_body = RawBody (concat (hr_chunks r))\<rparr>, Some v)"
  using assms
  by (simp add: relay_def altered_def alter_def freeze_head_def) (simp add: probe_request_def json_at_def)

lemma relay_frozen:
  assumes "json_from_slice L body = Some (probe_request ''eth_blockNumber'')" and "is_success (hr_status r)"
    and "hr_broken r = None" and "json_from_slice L (concat (hr_chunks r)) = Some (JObj kvs)"
    and "map_of kvs ''result'' = Some v" and "v \<noteq> JNull"
  shows "relay L error_text (Some FrozenHeadLie) body (Inr r) (Some head) =
    (Some \<lparr>rs_status = hr_status r, rs_body = RawBody (json_to_vec L (JObj (bt_insert ''result'' head kvs)))\<rparr>, Some head)"
  using assms
  by (simp add: relay_def altered_def alter_def freeze_head_def json_put_def) (simp add: probe_request_def json_at_def)

text \<open>
  A frozen head is lag, not lying. The relay's first answer to a probe is the node's own, and
  it keeps its head. From then on, whatever head the node reports, a probe reads the kept one: once
  the reference is past it by more than the tolerance, the probe counts against the provider as lag.
  The integrity round still gives the node's own block, and its match.
\<close>

theorem frozen_head_is_lag_not_lying:
  assumes "json_from_slice L head_body = Some (probe_request ''eth_blockNumber'')"
    and "is_success (hr_status first)" and "hr_broken first = None"
    and "json_from_slice L (concat (hr_chunks first)) = Some parsed" and "json_get parsed ''result'' = Some head"
    and "hex_quantity head = Some height" and "sat_add height (hc_lag_tolerance_blocks config) < reference"
    and "relay L error_text (Some FrozenHeadLie) head_body (Inr first) None = (answer, frozen)"
    and "is_success (hr_status later)" and "hr_broken later = None"
    and "json_from_slice L (concat (hr_chunks later)) = Some (JObj kvs)"
    and "map_of kvs ''result'' = Some v" and "v \<noteq> JNull"
    and "lied = JObj (bt_insert ''result'' head kvs)" and "json_from_slice L (json_to_vec L lied) = Some lied"
    and "length (json_to_vec L lied) \<le> PROBE_RESPONSE_CAP"
    and "si_block s = through_relay L error_text (Some FrozenHeadLie) head_body (Inr later) frozen"
    and "json_from_slice L block_body = Some request" and "json_at request ''method'' = JStr ''eth_getBlockByNumber''"
    and "read_block L RESPONSE_CAP upstream = Inr (Some (ex_finalized expected))" and "ex_entity expected = None"
    and "lk_block look r = through_relay L error_text (Some FrozenHeadLie) block_body upstream frozen"
  shows "answer = Some \<lparr>rs_status = hr_status first, rs_body = RawBody (concat (hr_chunks first))\<rparr> \<and>
    probe L config (Some reference) s p =
      (True, record_health False (hc_flip_after config) SLag
        (record_height height (record_answered_probe (si_ended s)
          (record_probe_duration (si_elapsed s) (si_during_block s p))))) \<and>
    look_verdict L look expected pool r = Match"
proof -
  have head: "json_at parsed ''result'' = head" "head \<noteq> JNull"
    using assms(5,6) by (auto simp: json_at_def hex_quantity_def)
  have f: "answer = Some \<lparr>rs_status = hr_status first, rs_body = RawBody (concat (hr_chunks first))\<rparr>" "frozen = Some head"
    using relay_freezes [OF assms(1-4) head] assms(8) by simp_all
  have "query_probe L (si_block s) = Some height"
    using relay_frozen [OF assms(1,9-13)] assms(6,9,15,16)
    by (simp add: assms(17) f(2) query_probe_delivered flip: assms(14)) (simp add: assms(14))
  then have "probe L config (Some reference) s p =
      (True, record_health False (hc_flip_after config) SLag
        (record_height height (record_answered_probe (si_ended s)
          (record_probe_duration (si_elapsed s) (si_during_block s p)))))"
    using assms(7) by (simp add: probe_def)
  moreover have "lk_block look r = through_relay L error_text None block_body upstream frozen"
    using relay_other_method [OF assms(18), of FrozenHeadLie] assms(19,22) by simp
  with honest_verdict [OF assms(20,21)] have "look_verdict L look expected pool r = Match" by blast
  ultimately show ?thesis using f(1) by blast
qed

lemma frozen_head_is_lag_not_lying_witness:
  "\<exists>L s config. fst (probe L config (Some 2000) s (provider_new [] (Url []) Static 0)) \<and>
     p_streak (snd (probe L config (Some 2000) s (provider_new [] (Url []) Static 0))) = -1"
proof -
  define later where "later = JObj [(''result'', JStr ''0x7d0'')]"
  define L where "L = std_libs\<lparr>json_from_slice := (\<lambda>b. if b = [1] then Some block_request
      else if b = [2] then Some (JObj [(''result'', block_json 7)])
      else if b = [4] then Some (probe_request ''eth_blockNumber'') else if b = [5] then Some head_answer
      else if b = [6] then Some later else None), json_to_vec := (\<lambda>_. [5])\<rparr>"
  let ?first = "\<lparr>hr_status = 200, hr_content_length = None, hr_chunks = [[5]], hr_broken = None\<rparr> :: http_response"
  let ?later = "\<lparr>hr_status = 200, hr_content_length = None, hr_chunks = [[6]], hr_broken = None\<rparr> :: http_response"
  define config where "config = health_default\<lparr>hc_lag_tolerance_blocks := 30\<rparr>"
  obtain answer frozen where first: "relay L (\<lambda>_. []) (Some FrozenHeadLie) [4] (Inr ?first) None = (answer, frozen)" by fastforce
  define s where "s = plain_sight\<lparr>si_block := through_relay L (\<lambda>_. []) (Some FrozenHeadLie) [4] (Inr ?later) frozen\<rparr>"
  define look where "look = two_look (\<lambda>_. through_relay L (\<lambda>_. []) (Some FrozenHeadLie) [1] (answer_of [2]) frozen)"
  have reads: "json_from_slice L [1] = Some block_request" "json_from_slice L [4] = Some (probe_request ''eth_blockNumber'')"
    "json_from_slice L [5] = Some head_answer" "json_from_slice L [6] = Some later"
    "json_from_slice L [2] = Some (JObj [(''result'', block_json 7)])" "json_to_vec L j = [5]"
    "parse_key L = parse_key std_libs" for j
    by (simp_all add: L_def)
  have head: "hex_quantity (JStr ''0x10'') = Some 16"
    by (simp add: hex_quantity_def strip_prefix_def parse_radix_def char_digit_def)
  have block: "read_block L RESPONSE_CAP (answer_of [2]) = Inr (Some (ex_finalized \<lparr>ex_finalized = block_one, ex_entity = None\<rparr>))"
    by (simp add: read_block_def answer_of_def reading_simps block_json_def block_parse_def block_one_def reads)
  have lag: "sat_add 16 (hc_lag_tolerance_blocks config) < (2000 :: u64)"
    by (simp add: config_def sat_add_def)
  have again: "json_from_slice L (json_to_vec L (JObj (bt_insert ''result'' (JStr ''0x10'') [(''result'', JStr ''0x7d0'')]))) =
      Some (JObj (bt_insert ''result'' (JStr ''0x10'') [(''result'', JStr ''0x7d0'')]))"
    by (simp add: reads head_answer_def)
  have "probe L config (Some 2000) s (provider_new [] (Url []) Static 0) =
      (True, record_health False (hc_flip_after config) SLag
        (record_height 16 (record_answered_probe (si_ended s)
          (record_probe_duration (si_elapsed s) (si_during_block s (provider_new [] (Url []) Static 0))))))"
    using frozen_head_is_lag_not_lying [OF reads(2) _ _ _ _ head lag first _ _ _ _ _ refl again _ _ reads(1) _ block,
        where parsed = head_answer and v = "JStr ''0x7d0''" and later = ?later and s = s and
        look = look and r = 0 and p = "provider_new [] (Url []) Static 0"]
    by (simp add: reads head_answer_def later_def s_def look_def two_look_def is_success_def PROBE_RESPONSE_CAP_def
        block_request_def json_at_def)
  moreover have "p_streak (record_health False f SLag q) = streak_step False (p_streak q)" for f q
    by (simp add: record_health_def Let_def frame_simps)
  moreover have "p_streak (record_height h q) = p_streak q" for h q by (simp add: record_height_def)
  moreover have "p_streak (si_during_block s (provider_new [] (Url []) Static 0)) = 0"
    by (simp add: s_def plain_sight_def provider_new_def)
  ultimately have "fst (probe L config (Some 2000) s (provider_new [] (Url []) Static 0))"
    "p_streak (snd (probe L config (Some 2000) s (provider_new [] (Url []) Static 0))) = -1"
    by (simp_all add: frame_simps streak_step_def i64_min_def)
  then show ?thesis by blast
qed

section \<open>Panics\<close>

text \<open>What can be written at a key; every other value panics.\<close>

definition indexable :: "json \<Rightarrow> bool" where
  "indexable j \<longleftrightarrow> (case j of JNull \<Rightarrow> True | JObj _ \<Rightarrow> True | _ \<Rightarrow> False)"

definition entity_shape :: "json \<Rightarrow> bool" where
  "entity_shape parsed \<longleftrightarrow> indexable parsed \<and> indexable (json_at parsed ''result'') \<and>
     (case json_at (json_at parsed ''result'') ''data'' of JArr rows \<Rightarrow> list_all indexable rows | _ \<Rightarrow> True)"

lemma json_slot_None: "json_slot k f j = None \<longleftrightarrow> \<not> indexable j \<or> f (json_at j k) = None"
  by (cases j) (auto simp: indexable_def json_at_def)

lemma json_each_None: "json_each f js = None \<longleftrightarrow> (\<exists>j \<in> set js. f j = None)"
  by (induction js) (auto simp: bind_eq_None_conv)

lemma alter_attribute_total [simp]: "alter_attribute j = None \<longleftrightarrow> False"
  by (cases j) (auto simp: alter_attribute_def is_payload_def json_at_def json_put_def)

lemma alter_row_None: "alter_row j = None \<longleftrightarrow> \<not> indexable j"
  by (auto simp: alter_row_def json_slot_None json_rows_def json_each_None split: json.split)

text \<open>
  What makes the relay panic. Nothing does but a lie told about an answer of another shape
  than a node's: for a query by key, an answer, a result or a row that is neither null nor an object;
  for a block, a hash that is empty or ends inside a character. Honest, with its head frozen, or
  asked anything else, the relay always answers.
\<close>

theorem relay_panics_iff:
  "fst (relay L error_text lie body upstream frozen) = None \<longleftrightarrow>
    (\<exists>r request parsed. upstream = Inr r \<and> is_success (hr_status r) \<and> hr_broken r = None \<and>
      json_from_slice L body = Some request \<and> json_from_slice L (concat (hr_chunks r)) = Some parsed \<and>
      ((lie = Some EntityLie \<and> asks_by_key request \<and> \<not> entity_shape parsed) \<or>
       (lie = Some BlockLie \<and> json_at request ''method'' = JStr ''eth_getBlockByNumber'' \<and>
         (\<exists>hash. json_at (json_at parsed ''result'') ''hash'' = JStr hash \<and> split_last hash = None))))"
proof -
  have entities: "alter_entities request parsed = None \<longleftrightarrow> asks_by_key request \<and> \<not> entity_shape parsed"
    for request parsed
    by (auto simp: alter_entities_def json_slot_None json_rows_def json_each_None alter_row_None entity_shape_def list_all_iff
        split: json.split)
  have block: "alter_block request parsed = None \<longleftrightarrow> json_at request ''method'' = JStr ''eth_getBlockByNumber'' \<and>
      (\<exists>hash. json_at (json_at parsed ''result'') ''hash'' = JStr hash \<and> split_last hash = None)" for request parsed
  proof -
    have "json_slot ''result'' (json_put ''hash'' v) parsed \<noteq> None"
      if "json_at (json_at parsed ''result'') ''hash'' = JStr hash" for v hash
      using that by (cases parsed; cases "json_at parsed ''result''")
        (auto simp: json_slot_None json_put_def indexable_def json_at_def)
    note total = this
    show ?thesis
    proof (cases "json_at (json_at parsed ''result'') ''hash''")
      case (JStr hash)
      with total [OF JStr] show ?thesis
        by (cases "split_last hash") (auto simp: alter_block_def)
    qed (auto simp: alter_block_def)
  qed
  have frozen: "fst (freeze_head request parsed frozen) \<noteq> None" for request parsed
    by (cases parsed) (auto simp: freeze_head_def json_at_def json_put_def split: option.split)
  have alter: "fst (alter l request parsed frozen) = None \<longleftrightarrow>
      ((l = EntityLie \<and> asks_by_key request \<and> \<not> entity_shape parsed) \<or>
       (l = BlockLie \<and> json_at request ''method'' = JStr ''eth_getBlockByNumber'' \<and>
         (\<exists>hash. json_at (json_at parsed ''result'') ''hash'' = JStr hash \<and> split_last hash = None)))" for l request parsed
    using frozen [of request parsed] by (cases l) (simp_all only: alter_def lie.case fst_conv entities block lie.distinct simp_thms)
  have altered: "fst (altered L body answer l frozen) = None \<longleftrightarrow> (\<exists>request parsed. json_from_slice L body = Some request \<and>
      json_from_slice L answer = Some parsed \<and> fst (alter l request parsed frozen) = None)" for answer l
    by (auto simp: altered_def split: option.split prod.split)
  show ?thesis
  proof (cases upstream)
    case (Inr r)
    show ?thesis
    proof (cases lie)
      case (Some l)
      have "fst (relay L error_text lie body upstream frozen) = None \<longleftrightarrow> is_success (hr_status r) \<and> hr_broken r = None \<and>
          fst (altered L body (concat (hr_chunks r)) l frozen) = None"
        by (auto simp: Some Inr relay_def Let_def case_prod_beta)
      then show ?thesis by (simp add: Inr Some altered alter)
    qed (simp add: Inr relay_def)
  qed (simp add: relay_def)
qed

end
