(* ===== verification/Evidence.thy ===== *)
theory Evidence
  imports Integrity
begin

text \<open>
  What the checker logs (\<open>integrity.rs\<close>): the fields in which two blocks differ, the rows of an
  entity as a text, the event of a verdict with its evidence, and the counts of a round. An
  \<open>expect\<close> that fails is \<open>None\<close>. The hash of a payload is a parameter.
\<close>

section \<open>Texts\<close>

fun join :: "string \<Rightarrow> string list \<Rightarrow> string" where
  "join sep [] = []"
| "join sep [t] = t"
| "join sep (t # ts) = t @ sep @ join sep ts"

fun position :: "('a \<Rightarrow> bool) \<Rightarrow> 'a list \<Rightarrow> nat option" where
  "position p [] = None"
| "position p (x # xs) = (if p x then Some 0 else map_option Suc (position p xs))"

definition first_difference :: "'a list \<Rightarrow> 'a list \<Rightarrow> nat" where
  "first_difference ours theirs =
     (case position (\<lambda>(a, b). a \<noteq> b) (zip ours theirs) of
        Some i \<Rightarrow> i | None \<Rightarrow> min (length ours) (length theirs))"

text \<open>The differing fields, each with its name and what is said of it.\<close>

definition differing_field :: "libs \<Rightarrow> string \<Rightarrow> u256 \<Rightarrow> u256 \<Rightarrow> (string \<times> string) list" where
  "differing_field L name ours theirs =
     (if ours \<noteq> theirs then [(name, '' reference='' @ key_hex L ours @ '' provider='' @ key_hex L theirs)] else [])"

definition differing :: "libs \<Rightarrow> block_fields \<Rightarrow> block_fields \<Rightarrow> (string \<times> string) list" where
  "differing L reference provider =
     differing_field L ''hash'' (bf_hash reference) (bf_hash provider) @
     differing_field L ''parentHash'' (bf_parent_hash reference) (bf_parent_hash provider) @
     differing_field L ''stateRoot'' (bf_state_root reference) (bf_state_root provider) @
     differing_field L ''transactionsRoot'' (bf_transactions_root reference) (bf_transactions_root provider) @
     differing_field L ''receiptsRoot'' (bf_receipts_root reference) (bf_receipts_root provider) @
     (let ours = bf_transactions reference; theirs = bf_transactions provider
      in if ours \<noteq> theirs
         then [(''transactions'', '' reference='' @ dec (length ours) @ '' provider='' @ dec (length theirs) @
                  '' first difference at '' @ dec (first_difference ours theirs))]
         else [])"

definition block_differences :: "libs \<Rightarrow> block_fields \<Rightarrow> block_fields \<Rightarrow> string" where
  "block_differences L reference provider = join ''; '' (map (\<lambda>(name, said). name @ said) (differing L reference provider))"

definition describe_row :: "libs \<Rightarrow> (bytes \<Rightarrow> u256) \<Rightarrow> arkiv_entity \<Rightarrow> string" where
  "describe_row L keccak256 row =
     (let attributes = map (\<lambda>a. at_name a @ '':'' @ at_type a @ ''='' @ bytes_text (json_to_vec L (at_value a)))
            (filter (\<lambda>a. at_name a \<noteq> PAYLOAD_ATTRIBUTE) (e_attributes row));
          payload = (case entity_payload L row of Some payload \<Rightarrow> key_hex L (keccak256 payload) | None \<Rightarrow> ''none'')
      in ''creator '' @ addr_hex L (e_creator row) @ '' expires '' @ dec_word (e_expires_at row) @
         '' attributes ['' @ join '', '' attributes @ ''] payload hash '' @ payload)"

definition describe :: "libs \<Rightarrow> (bytes \<Rightarrow> u256) \<Rightarrow> arkiv_entity list \<Rightarrow> string" where
  "describe L keccak256 rows =
     (if rows = [] then ''no such entity'' else join ''; '' (map (describe_row L keccak256) rows))"

section \<open>Events\<close>

datatype divergence_detail =
    BlockDetail string "string option" string
  | EntityDetail string string string
  | CapDetail nat

record divergence_event =
  dv_provider :: string
  dv_agreement :: "string option"
  dv_height :: u64
  dv_probed_head :: "u64 option"
  dv_check :: string
  dv_detail :: divergence_detail

datatype round_event = MatchLogged string u64 | VerdictLogged string u64 string | DivergenceLogged divergence_event

fun evidence_detail :: "libs \<Rightarrow> (bytes \<Rightarrow> u256) \<Rightarrow> evidence \<Rightarrow> string \<times> divergence_detail" where
  "evidence_detail L keccak256 (EvBlock reference served) =
     (''block'', BlockDetail (key_hex L (bf_hash reference)) (map_option (\<lambda>block. key_hex L (bf_hash block)) served)
        (case served of Some served \<Rightarrow> block_differences L reference served | None \<Rightarrow> ''no such block''))"
| "evidence_detail L keccak256 (EvEntity key reference served) =
     (''entity'', EntityDetail (key_hex L key) (describe L keccak256 reference) (describe L keccak256 served))"
| "evidence_detail L keccak256 (EvTooLarge read) = (read, CapDetail RESPONSE_CAP)"

definition finding_event ::
    "libs \<Rightarrow> (bytes \<Rightarrow> u256) \<Rightarrow> u64 \<Rightarrow> provider \<Rightarrow> finding \<Rightarrow> round_event option" where
  "finding_event L keccak256 height p finding =
     (case fn_verdict finding of
        Match \<Rightarrow> Some (MatchLogged (p_id p) height)
      | Divergence \<Rightarrow>
          map_option (\<lambda>evidence. let (read, detail) = evidence_detail L keccak256 evidence
              in DivergenceLogged \<lparr>dv_provider = p_id p, dv_agreement = map_option (key_hex L) (agreement_id p),
                   dv_height = height, dv_probed_head = last_height p, dv_check = read, dv_detail = detail\<rparr>)
            (fn_evidence finding)
      | v \<Rightarrow> Some (VerdictLogged (p_id p) height (verdict_as_str v)))"

fun record_logged ::
    "libs \<Rightarrow> (bytes \<Rightarrow> u256) \<Rightarrow> finding list \<Rightarrow> u64 \<Rightarrow> pool \<Rightarrow> (round_event list \<times> pool) option" where
  "record_logged L keccak256 [] height pool = Some ([], pool)"
| "record_logged L keccak256 (f # fs) height pool =
     Option.bind (finding_event L keccak256 height (entry pool (fn_provider f)) f) (\<lambda>event.
       map_option (apfst ((#) event))
         (record_logged L keccak256 fs height
            (entry_update (fn_provider f) (record_integrity (fn_verdict f) height) pool)))"

definition verdict_count :: "verdict \<Rightarrow> finding list \<Rightarrow> nat" where
  "verdict_count v findings = length (filter (\<lambda>f. fn_verdict f = v) findings)"

section \<open>What the evidence says\<close>

text \<open>The fields that are compared, by name.\<close>

definition compared :: "(string \<times> (block_fields \<Rightarrow> u256 list)) list" where
  "compared = [(''hash'', \<lambda>b. [bf_hash b]), (''parentHash'', \<lambda>b. [bf_parent_hash b]),
     (''stateRoot'', \<lambda>b. [bf_state_root b]), (''transactionsRoot'', \<lambda>b. [bf_transactions_root b]),
     (''receiptsRoot'', \<lambda>b. [bf_receipts_root b]), (''transactions'', bf_transactions)]"

lemma position_None: "position p xs = None \<longleftrightarrow> list_all (\<lambda>x. \<not> p x) xs"
  by (induction xs) auto

lemma position_Some:
  "position p xs = Some i \<Longrightarrow> i < length xs \<and> p (xs ! i) \<and> list_all (\<lambda>x. \<not> p x) (take i xs)"
  by (induction xs arbitrary: i) (auto split: if_splits)

lemma zip_same_take:
  "n \<le> length xs \<Longrightarrow> n \<le> length ys \<Longrightarrow> list_all (\<lambda>(a, b). a = b) (take n (zip xs ys)) \<Longrightarrow> take n xs = take n ys"
proof (induction n arbitrary: xs ys)
  case (Suc n)
  then show ?case by (cases xs; cases ys) auto
qed simp

lemma first_difference_spec:
  assumes "xs \<noteq> ys"
  shows "take (first_difference xs ys) xs = take (first_difference xs ys) ys"
    "(first_difference xs ys < min (length xs) (length ys) \<and> xs ! first_difference xs ys \<noteq> ys ! first_difference xs ys) \<or>
     (first_difference xs ys = min (length xs) (length ys) \<and> length xs \<noteq> length ys)"
proof -
  let ?p = "\<lambda>(a, b). a \<noteq> b" and ?i = "first_difference xs ys"
  have "take ?i xs = take ?i ys \<and> ((?i < min (length xs) (length ys) \<and> xs ! ?i \<noteq> ys ! ?i) \<or>
     (?i = min (length xs) (length ys) \<and> length xs \<noteq> length ys))"
  proof (cases "position ?p (zip xs ys)")
    case None
    then have i: "?i = min (length xs) (length ys)" by (simp add: first_difference_def)
    from None have "list_all (\<lambda>(a, b). a = b) (take ?i (zip xs ys))"
      unfolding position_None by (simp add: list_all_iff case_prod_beta i)
    with i have same: "take ?i xs = take ?i ys" by (intro zip_same_take) auto
    moreover have "length xs \<noteq> length ys" using same assms by (auto simp: i)
    ultimately show ?thesis using i by simp
  next
    case (Some i)
    then have i: "?i = i" by (simp add: first_difference_def)
    from position_Some [OF Some] have n: "i < min (length xs) (length ys)" "xs ! i \<noteq> ys ! i"
      "list_all (\<lambda>(a, b). a = b) (take i (zip xs ys))"
      by (auto simp: list_all_iff case_prod_beta)
    with zip_same_take [of i xs ys] i show ?thesis by simp
  qed
  then show "take ?i xs = take ?i ys" "(?i < min (length xs) (length ys) \<and> xs ! ?i \<noteq> ys ! ?i) \<or>
     (?i = min (length xs) (length ys) \<and> length xs \<noteq> length ys)" by blast+
qed

lemma join_empty: "\<forall>t \<in> set ts. t \<noteq> [] \<Longrightarrow> join sep ts = [] \<longleftrightarrow> ts = []"
  by (cases "(sep, ts)" rule: join.cases) auto

text \<open>
  C23. The evidence names what differs. The log of two blocks lists, in the order they are compared,
  exactly the compared fields that differ, and says nothing only when all of them agree: then the two
  blocks are the same but for their numbers. For transactions it gives the place up to which the
  two lists agree and at which they part, or where the shorter of them ends.
\<close>

theorem evidence_names_what_differs:
  "map fst (differing L a b) = map fst (filter (\<lambda>(_, field). field a \<noteq> field b) compared) \<and>
   (block_differences L a b = [] \<longleftrightarrow> a = b\<lparr>bf_number := bf_number a\<rparr>) \<and>
   (let i = first_difference (bf_transactions a) (bf_transactions b); m = length (bf_transactions a); n = length (bf_transactions b)
    in bf_transactions a = bf_transactions b \<or>
       (last (differing L a b) = (''transactions'', '' reference='' @ dec m @ '' provider='' @ dec n @ '' first difference at '' @ dec i) \<and>
        take i (bf_transactions a) = take i (bf_transactions b) \<and>
        ((i < min m n \<and> bf_transactions a ! i \<noteq> bf_transactions b ! i) \<or> (i = min m n \<and> m \<noteq> n))))"
proof -
  have names: "map fst (differing L a b) = map fst (filter (\<lambda>(_, field). field a \<noteq> field b) compared)"
    by (simp add: differing_def differing_field_def compared_def Let_def)
  let ?agree = "\<lambda>(_, field). field a \<noteq> field b"
  have "[] \<notin> set (map fst compared)" by (simp add: compared_def)
  moreover have "set (map fst (filter ?agree compared)) \<subseteq> set (map fst compared)"
    unfolding set_map by (rule image_mono [OF filter_is_subset])
  ultimately have "[] \<notin> set (map fst (differing L a b))" unfolding names by blast
  then have "\<forall>t \<in> set (map (\<lambda>(name, said). name @ said) (differing L a b)). t \<noteq> []"
    by (auto simp del: set_map simp: set_map image_iff)
  then have "block_differences L a b = [] \<longleftrightarrow> map fst (differing L a b) = []"
    unfolding block_differences_def map_is_Nil_conv by (simp only: join_empty map_is_Nil_conv)
  also have "\<dots> \<longleftrightarrow> filter ?agree compared = []" unfolding names map_is_Nil_conv ..
  also have "\<dots> \<longleftrightarrow> a = b\<lparr>bf_number := bf_number a\<rparr>"
    by (cases a; cases b) (auto simp: compared_def)
  finally have silent: "block_differences L a b = [] \<longleftrightarrow> a = b\<lparr>bf_number := bf_number a\<rparr>" .
  have parts: "last (differing L a b) = (''transactions'', '' reference='' @ dec (length (bf_transactions a)) @ '' provider='' @
      dec (length (bf_transactions b)) @ '' first difference at '' @
      dec (first_difference (bf_transactions a) (bf_transactions b)))"
    if "bf_transactions a \<noteq> bf_transactions b"
    using that by (simp add: differing_def Let_def)
  show ?thesis
  proof (cases "bf_transactions a = bf_transactions b")
    case True
    with names silent show ?thesis by (simp only: Let_def simp_thms)
  next
    case False
    with names silent parts first_difference_spec [OF False] show ?thesis by (simp only: Let_def simp_thms)
  qed
qed

section \<open>A round's log\<close>

text \<open>What each kind of evidence says against a provider.\<close>

fun justified :: "expected \<Rightarrow> evidence \<Rightarrow> bool" where
  "justified expected (EvBlock reference served) \<longleftrightarrow> reference = ex_finalized expected \<and> served \<noteq> Some reference"
| "justified expected (EvEntity key reference served) \<longleftrightarrow>
     (\<exists>entity. ex_entity expected = Some entity \<and> key = ee_key entity \<and> ee_rows entity = Inr reference) \<and>
     \<not> same_entities served reference"
| "justified expected (EvTooLarge read) \<longleftrightarrow> read = ''block'' \<or> read = ''entity''"

definition sound_finding :: "expected \<Rightarrow> finding \<Rightarrow> bool" where
  "sound_finding expected f \<longleftrightarrow>
     (case fn_evidence f of None \<Rightarrow> fn_verdict f \<noteq> Divergence
      | Some evidence \<Rightarrow> fn_verdict f = Divergence \<and> justified expected evidence)"

lemma judge_sound:
  "judge provider answer expected = (v, e) \<Longrightarrow> sound_finding expected \<lparr>fn_provider = r, fn_verdict = v, fn_evidence = e\<rparr>"
  by (auto simp: judge_def sound_finding_def Let_def split: sum.splits option.splits read_failure.splits if_splits)

lemma check_sound: "\<forall>f \<in> set (check L look expected rs pool). sound_finding expected f"
  by (auto simp: check_def intro: judge_sound split: prod.splits)

lemma replace_finding_set: "replace_finding second fs = Some fs' \<Longrightarrow> set fs' \<subseteq> insert second (set fs)"
proof (induction fs arbitrary: fs')
  case (Cons f fs)
  then show ?case by (auto split: if_splits)
qed simp

lemma replace_all_set:
  "fold (\<lambda>second found. Option.bind found (replace_finding second)) seconds found = Some fs \<Longrightarrow>
   set fs \<subseteq> set seconds \<union> set (the found) \<and> found \<noteq> None"
proof (induction seconds arbitrary: found)
  case (Cons s seconds)
  then have i: "set fs \<subseteq> set seconds \<union> set (the (Option.bind found (replace_finding s)))"
    "Option.bind found (replace_finding s) \<noteq> None" by simp_all
  then obtain fs0 fs1 where f: "found = Some fs0" "replace_finding s fs0 = Some fs1" by (auto simp: bind_eq_Some_conv)
  with i(1) replace_finding_set [OF f(2)] show ?case by auto
qed simp

lemma confirm_sound:
  assumes "confirm L second expected (check L first expected rs pool) pool = (Some findings, pool')"
  shows "\<forall>f \<in> set findings. sound_finding expected f"
proof -
  let ?fs = "check L first expected rs pool"
  consider "findings = ?fs"
    | rs' q where "fold (\<lambda>second found. Option.bind found (replace_finding second)) (check L second expected rs' q) (Some ?fs) =
        Some findings"
    using assms by (auto simp: confirm_def Let_def split: if_splits)
  then show ?thesis
  proof cases
    case 2
    from replace_all_set [OF 2] check_sound [of L second expected rs' q] check_sound [of L first expected rs pool]
    show ?thesis by auto
  qed (simp add: check_sound)
qed

lemma finding_event_sound:
  assumes "sound_finding expected f"
  obtains event where "finding_event L keccak256 height p f = Some event"
    "\<And>evidence. fn_evidence f = Some evidence \<Longrightarrow> \<exists>d. event = DivergenceLogged d \<and> dv_provider d = p_id p \<and>
       (dv_check d, dv_detail d) = evidence_detail L keccak256 evidence"
proof (cases "fn_evidence f")
  case None
  with assms have "fn_verdict f \<noteq> Divergence" by (simp add: sound_finding_def)
  with None that show thesis by (cases "fn_verdict f") (simp_all add: finding_event_def)
next
  case (Some evidence)
  with assms that show thesis by (simp add: sound_finding_def finding_event_def case_prod_beta Let_def)
qed

lemma record_logged_sound:
  assumes "\<forall>f \<in> set findings. sound_finding expected f"
  obtains events where "record_logged L keccak256 findings height pool = Some (events, record_findings findings height pool)"
    "list_all2 (\<lambda>f event. \<forall>evidence. fn_evidence f = Some evidence \<longrightarrow>
       (\<exists>d. event = DivergenceLogged d \<and> (dv_check d, dv_detail d) = evidence_detail L keccak256 evidence)) findings events"
proof -
  have "\<exists>events. record_logged L keccak256 findings height pool = Some (events, record_findings findings height pool) \<and>
    list_all2 (\<lambda>f event. \<forall>evidence. fn_evidence f = Some evidence \<longrightarrow>
       (\<exists>d. event = DivergenceLogged d \<and> (dv_check d, dv_detail d) = evidence_detail L keccak256 evidence)) findings events"
    using assms
  proof (induction findings arbitrary: pool)
    case (Cons f fs)
    from Cons.prems have "sound_finding expected f" by simp
    from finding_event_sound [OF this, of L keccak256 height "entry pool (fn_provider f)"] obtain event where
      e: "finding_event L keccak256 height (entry pool (fn_provider f)) f = Some event"
      "\<And>evidence. fn_evidence f = Some evidence \<Longrightarrow> \<exists>d. event = DivergenceLogged d \<and>
         (dv_check d, dv_detail d) = evidence_detail L keccak256 evidence" by metis
    let ?pool = "entry_update (fn_provider f) (record_integrity (fn_verdict f) height) pool"
    from Cons obtain events where "record_logged L keccak256 fs height ?pool = Some (events, record_findings fs height ?pool)"
      "list_all2 (\<lambda>f event. \<forall>evidence. fn_evidence f = Some evidence \<longrightarrow>
         (\<exists>d. event = DivergenceLogged d \<and> (dv_check d, dv_detail d) = evidence_detail L keccak256 evidence)) fs events"
      by auto
    with e show ?case by (intro exI [of _ "event # events"]) (simp add: record_findings_def)
  qed (simp add: record_findings_def)
  with that show thesis by blast
qed


definition plain_look :: look where
  "plain_look = \<lparr>lk_block = (\<lambda>_. Inl TransportError), lk_rows = (\<lambda>_. Inl TransportError), lk_order = (\<lambda>rs. rs),
     lk_meanwhile = (\<lambda>pool. pool)\<rparr>"


end
