(* ===== verification/Tasks.thy ===== *)
theory Tasks
  imports Stats Integrity
begin

text \<open>
  The loops of two background tasks: the statistics' (\<open>run\<close> and \<open>save\<close> in \<open>stats.rs\<close>) with the
  files it writes, and the checker's (\<open>IntegrityChecker::run\<close> in \<open>integrity.rs\<close>). A loop is a
  function of what each of its rest meets: the clock, the pool, whether the shutdown came first.
\<close>

section \<open>The statistics' file\<close>

text \<open>
  A file as a later start reads it: the rings written whole, or something that does not parse. A
  save passes through the states of the directory in this order, as far as it gets.
\<close>

datatype file_content = Torn | Whole stats

record stats_dir =
  sd_file :: "file_content option"
  sd_temporary :: "file_content option"

datatype save_outcome = NotOpened | BrokenOff | NotRenamed | Saved

definition save_states :: "save_outcome \<Rightarrow> stats \<Rightarrow> stats_dir \<Rightarrow> stats_dir list" where
  "save_states outcome stats dir =
     (let opened = dir\<lparr>sd_temporary := Some Torn\<rparr>;
          written = dir\<lparr>sd_temporary := Some (Whole stats)\<rparr>;
          renamed = dir\<lparr>sd_file := Some (Whole stats), sd_temporary := None\<rparr>
      in case outcome of
           NotOpened \<Rightarrow> [dir]
         | BrokenOff \<Rightarrow> [opened]
         | NotRenamed \<Rightarrow> [opened, written]
         | Saved \<Rightarrow> [opened, written, renamed])"

definition stats_load :: "stats_dir \<Rightarrow> stats" where
  "stats_load dir =
     reloaded (case sd_file dir of Some (Whole stats) \<Rightarrow> Some stats | _ \<Rightarrow> None)"

section \<open>The statistics' task\<close>

text \<open>
  One turn: the clock as its wait begins, the clock at a shutdown that came before the wait was
  over, the pool it then finds, and how far its save gets.
\<close>

record stats_turn =
  tn_at :: u64
  tn_stop :: "u64 option"
  tn_pool :: pool
  tn_save :: save_outcome

definition turn_start :: "u64 \<Rightarrow> stats_turn \<Rightarrow> u64" where
  "turn_start period turn =
     (case tn_stop turn of
        Some now \<Rightarrow> stop_bucket period now
      | None \<Rightarrow> fst (tick_bucket period (tn_at turn)))"

definition turn_stats :: "libs \<Rightarrow> u64 \<Rightarrow> stats_turn \<Rightarrow> stats \<Rightarrow> stats" where
  "turn_stats L period turn stats =
     (case tn_stop turn of
        Some _ \<Rightarrow> stats_stop L (turn_start period turn) (tn_pool turn) stats
      | None \<Rightarrow> stats_tick L (turn_start period turn) (tn_pool turn) stats)"

text \<open>The rings at the end, with every state the directory has passed through.\<close>

fun stats_run :: "libs \<Rightarrow> u64 \<Rightarrow> stats_turn list \<Rightarrow> stats \<Rightarrow> stats_dir \<Rightarrow> stats \<times> stats_dir list" where
  "stats_run L period [] stats dir = (stats, [])"
| "stats_run L period (turn # rest) stats dir =
     (let stats = turn_stats L period turn stats;
          states = save_states (tn_save turn) stats dir
      in if tn_stop turn \<noteq> None then (stats, states)
         else apsnd ((@) states) (stats_run L period rest stats (last states)))"

section \<open>The checker's task\<close>

text \<open>
  Until the boot window closes the flag is polled; then a round at every tick. What the other tasks
  do before a tick is part of it. \<open>None\<close> is the shutdown.
\<close>

fun wait_ready :: "bool option list \<Rightarrow> bool" where
  "wait_ready [] = False"
| "wait_ready (None # polls) = False"
| "wait_ready (Some ready # polls) = (ready \<or> wait_ready polls)"

fun checker_rounds ::
    "libs \<Rightarrow> bool \<Rightarrow> duration \<Rightarrow> ((pool \<Rightarrow> pool) \<times> round_env) option list \<Rightarrow> key_page \<times> pool \<Rightarrow> key_page \<times> pool" where
  "checker_rounds L entity_check interval [] st = st"
| "checker_rounds L entity_check interval (None # ticks) st = st"
| "checker_rounds L entity_check interval (Some (others, env) # ticks) st =
     checker_rounds L entity_check interval ticks (integrity_round L entity_check interval env (apsnd others st))"

definition checker_run ::
    "libs \<Rightarrow> bool \<Rightarrow> duration \<Rightarrow> bool option list \<Rightarrow> ((pool \<Rightarrow> pool) \<times> round_env) option list \<Rightarrow>
       key_page \<times> pool \<Rightarrow> key_page \<times> pool" where
  "checker_run L entity_check interval polls ticks st =
     (if wait_ready polls then checker_rounds L entity_check interval ticks st else st)"

section \<open>The hours of a run\<close>

text \<open>
  What is asked of the clock: a turn begins no earlier than the boundary the turn before it waited
  for, the shutdown is seen no earlier than its turn began, and the readings stay below the range.
\<close>

definition boundary :: "u64 \<Rightarrow> u64 \<Rightarrow> nat" where
  "boundary period at = (unat at div unat period + 1) * unat period"

fun on_time :: "u64 \<Rightarrow> stats_turn list \<Rightarrow> bool" where
  "on_time period [] \<longleftrightarrow> True"
| "on_time period (turn # rest) \<longleftrightarrow>
     (case tn_stop turn of
        Some now \<Rightarrow> tn_at turn \<le> now \<and> rest = []
      | None \<Rightarrow> (case rest of [] \<Rightarrow> True | after # _ \<Rightarrow> boundary period (tn_at turn) \<le> unat (tn_at after))) \<and>
     on_time period rest"

definition turn_clock :: "stats_turn \<Rightarrow> u64" where
  "turn_clock turn = (case tn_stop turn of Some now \<Rightarrow> now | None \<Rightarrow> tn_at turn)"

lemma bucket_of:
  fixes at period :: u64
  assumes "0 < period"
  shows "unat (at div period * period) = unat at div unat period * unat period"
proof -
  have "unat at div unat period * unat period < 2 ^ LENGTH(64)"
    by (rule le_less_trans [OF div_times_less_eq_dividend unsigned_less])
  then have "unat (at div period) * unat period < 2 ^ LENGTH(64)" by (simp only: unat_div)
  from unat_mult_lem [THEN iffD1, OF this] show ?thesis by (simp only: unat_div)
qed

lemma turn_start_eq: "turn_start period turn = turn_clock turn div period * period"
  by (simp add: turn_start_def turn_clock_def stop_bucket_def tick_bucket_def Let_def distrib_right split: option.split)

lemma on_time_later:
  assumes "on_time period (turn # rest)" and "0 < period" and "later \<in> set rest"
  shows "boundary period (tn_at turn) \<le> unat (turn_clock later)"
  using assms
proof (induction rest arbitrary: turn)
  case (Cons next_turn rest)
  from Cons.prems(1) have b: "boundary period (tn_at turn) \<le> unat (tn_at next_turn)" "on_time period (next_turn # rest)"
    "tn_stop turn = None" by (auto split: option.splits)
  show ?case
  proof (cases "later = next_turn")
    case True
    from b(2) have "tn_at next_turn \<le> turn_clock next_turn" by (auto simp: turn_clock_def split: option.splits)
    with b(1) True show ?thesis by (simp add: word_le_nat_alt)
  next
    case False
    with Cons.prems(3) have "later \<in> set rest" by simp
    from Cons.IH [OF b(2) Cons.prems(2) this] have "boundary period (tn_at next_turn) \<le> unat (turn_clock later)" .
    moreover have "unat (tn_at next_turn) < boundary period (tn_at next_turn)"
      using Cons.prems(2) by (simp add: boundary_def word_less_nat_alt dividend_less_div_times)
    ultimately show ?thesis using b(1) by linarith
  qed
qed simp

lemma boundary_start:
  fixes at period :: u64
  assumes "0 < period" and "boundary period at \<le> unat later"
  shows "unat (at div period * period) + unat period \<le> unat (later div period * period)"
proof -
  from assms have "unat at div unat period + 1 \<le> unat later div unat period"
    by (metis boundary_def div_le_mono nonzero_mult_div_cancel_right unat_gt_0 neq0_conv word_neq_0_conv)
  then have "(unat at div unat period + 1) * unat period \<le> unat later div unat period * unat period"
    by (rule mult_le_mono1)
  then show ?thesis by (simp add: bucket_of [OF assms(1)] distrib_right)
qed

lemma on_time_Cons: "on_time period (turn # rest) \<Longrightarrow> on_time period rest"
  by simp

text \<open>
  C21. No hour is closed twice. While sleeps take their time and the wall clock is not set back
  across a boundary, the buckets the task closes, the last one at a stop included, start at whole
  periods, each later than the one before by at least a period; each bucket holds the moment its
  turn's wait began or its shutdown came.
\<close>

theorem no_hour_is_closed_twice:
  assumes "0 < period" and "on_time period run"
  shows "sorted_wrt (\<lambda>a b. unat a + unat period \<le> unat b) (map (turn_start period) run) \<and>
    (\<forall>turn \<in> set run. unat period dvd unat (turn_start period turn) \<and>
      turn_start period turn \<le> turn_clock turn \<and>
      unat (turn_clock turn) < unat (turn_start period turn) + unat period)"
proof
  show "sorted_wrt (\<lambda>a b. unat a + unat period \<le> unat b) (map (turn_start period) run)"
    using assms(2)
  proof (induction run)
    case (Cons turn rest)
    have "unat (turn_start period turn) + unat period \<le> unat (turn_start period later)" if "later \<in> set rest" for later
    proof -
      from Cons.prems that have "tn_stop turn = None" by (auto split: option.splits)
      then show ?thesis
        using boundary_start [OF assms(1) on_time_later [OF Cons.prems assms(1) that]]
        by (simp add: turn_start_eq) (simp add: turn_clock_def)
    qed
    with Cons.IH on_time_Cons [OF Cons.prems] show ?case by simp
  qed simp
  show "\<forall>turn \<in> set run. unat period dvd unat (turn_start period turn) \<and>
      turn_start period turn \<le> turn_clock turn \<and>
      unat (turn_clock turn) < unat (turn_start period turn) + unat period"
    using assms(1)
    by (simp add: turn_start_eq bucket_of word_le_nat_alt word_less_nat_alt dividend_less_div_times add.commute)
qed

definition two_hours :: "stats_turn list" where
  "two_hours = [\<lparr>tn_at = 10, tn_stop = None, tn_pool = three_entries, tn_save = Saved\<rparr>,
     \<lparr>tn_at = 3600, tn_stop = Some 7000, tn_pool = three_entries, tn_save = BrokenOff\<rparr>]"

lemma no_hour_is_closed_twice_witness:
  "sorted_wrt (\<lambda>a b. unat a + unat HOUR \<le> unat b) (map (turn_start HOUR) two_hours)"
proof -
  have "on_time HOUR two_hours" by (simp add: two_hours_def boundary_def HOUR_def)
  then show ?thesis using no_hour_is_closed_twice [of HOUR two_hours] by (simp add: HOUR_def)
qed

section \<open>What a crash leaves\<close>

text \<open>The file is absent, or whole rings that a life of the statistics led to.\<close>

definition file_sound :: "libs \<Rightarrow> stats_dir \<Rightarrow> bool" where
  "file_sound L dir \<longleftrightarrow> (case sd_file dir of None \<Rightarrow> True | Some Torn \<Rightarrow> False | Some (Whole stats) \<Rightarrow> stats_history L stats)"

lemma save_states_sound:
  assumes "file_sound L dir" and "stats_history L stats"
  shows "\<forall>state \<in> set (save_states outcome stats dir). file_sound L state"
    "save_states outcome stats dir \<noteq> []"
    "outcome = Saved \<Longrightarrow> sd_file (last (save_states outcome stats dir)) = Some (Whole stats)"
  using assms by (cases outcome; simp add: save_states_def file_sound_def Let_def)+

lemma turn_stats_history: "stats_history L stats \<Longrightarrow> stats_history L (turn_stats L period turn stats)"
  by (auto simp: turn_stats_def intro: ticked stopped split: option.split)

lemma stats_run_history:
  assumes "stats_history L stats" and "file_sound L dir" and "stats_run L period run stats dir = (stats', states)"
  shows "stats_history L stats' \<and> (\<forall>state \<in> set states. file_sound L state) \<and>
    (run \<noteq> [] \<and> list_all (\<lambda>turn. tn_save turn = Saved) run \<longrightarrow> sd_file (last states) = Some (Whole stats'))"
  using assms
proof (induction run arbitrary: stats dir states)
  case (Cons turn rest)
  let ?stats = "turn_stats L period turn stats"
  let ?states = "save_states (tn_save turn) ?stats dir"
  have h: "stats_history L ?stats" by (rule turn_stats_history [OF Cons.prems(1)])
  note saved = save_states_sound [OF Cons.prems(2) h]
  show ?case
  proof (cases "tn_stop turn")
    case (Some now)
    with Cons.prems(3) h saved show ?thesis by (auto simp: Let_def)
  next
    case None
    with Cons.prems(3) obtain more where r: "stats_run L period rest ?stats (last ?states) = (stats', more)"
      "states = ?states @ more" by (auto simp: Let_def apsnd_def map_prod_def split: prod.splits)
    have "file_sound L (last ?states)" using bspec [OF saved(1) last_in_set [OF saved(2)]] .
    from Cons.IH [OF h this r(1)] have i: "stats_history L stats'" "\<forall>state \<in> set more. file_sound L state"
      "rest \<noteq> [] \<and> list_all (\<lambda>turn. tn_save turn = Saved) rest \<longrightarrow> sd_file (last more) = Some (Whole stats')" by blast+
    have "rest \<noteq> [] \<Longrightarrow> more \<noteq> []"
      using r(1) saved(2) save_states_sound(2) [OF _ turn_stats_history [OF h]] \<open>file_sound L (last ?states)\<close>
      by (cases rest) (auto simp: Let_def apsnd_def map_prod_def split: prod.splits if_splits)
    moreover have "rest = [] \<Longrightarrow> more = [] \<and> stats' = ?stats" using r(1) by simp
    ultimately show ?thesis using i saved(1,3) by (cases "rest = []") (auto simp: r(2))
  qed
qed simp



section \<open>When the checker judges\<close>

text \<open>Before the boot window closes, and after a shutdown, no round is made.\<close>

lemma checker_waits:
  assumes "\<not> wait_ready polls"
  shows "checker_run L entity_check interval polls ticks st = st"
  using assms by (simp add: checker_run_def)

lemma wait_ready_iff: "wait_ready polls \<longleftrightarrow> Some True \<in> set (takeWhile (\<lambda>p. p \<noteq> None) polls)"
  by (induction polls rule: wait_ready.induct) auto

lemma checker_stops:
  "checker_rounds L entity_check interval (ticks @ None # later) st = checker_rounds L entity_check interval ticks st"
  by (induction L entity_check interval ticks st rule: checker_rounds.induct) auto

end
