(* ===== verification/Load.thy ===== *)
theory Load
  imports Relay
begin

text \<open>
  \<open>crates/rig/src/load.rs\<close>: the load generator. What its workers ask, how an exchange becomes an
  outcome, the statistics outcomes are counted in, and the loop that cuts them into windows by
  time. The workers' outcomes arrive through one channel, in whatever order they interleave.
\<close>

section \<open>Requests\<close>

definition METHODS :: "string list" where
  "METHODS = [''eth_blockNumber'', ''eth_chainId'', ''eth_gasPrice'', ''net_version'']"

definition ALL_ENTITIES :: string where
  "ALL_ENTITIES = ''$expiresAt > u64(0)''"

datatype requests = Cheap | QueryBy string

text \<open>The body of a worker's request at a turn.\<close>

fun requests_body :: "requests \<Rightarrow> nat \<Rightarrow> json" where
  "requests_body Cheap turn = JObj
     [(''id'', JNum 1), (''jsonrpc'', JStr ''2.0''), (''method'', JStr (METHODS ! (turn mod length METHODS))),
      (''params'', JArr [])]"
| "requests_body (QueryBy by) turn = JObj
     [(''id'', JNum 1), (''jsonrpc'', JStr ''2.0''), (''method'', JStr ''arkiv_query''),
      (''params'', JArr [JStr by, JObj [(''limit'', JStr ''0x64''),
         (''select'', JObj [(''attributes'', JBool True), (''key'', JBool True)])]])]"

section \<open>Statistics\<close>

record failure =
  fl_kind :: string
  fl_reason :: string

record load_stats =
  ls_sent :: u64
  ls_ok :: u64
  ls_failed :: u64
  ls_failures :: "(string \<times> u64 \<times> string) list"
  ls_latencies :: "duration list"

definition load_default :: load_stats where
  "load_default = \<lparr>ls_sent = 0, ls_ok = 0, ls_failed = 0, ls_failures = [], ls_latencies = []\<rparr>"

text \<open>A kind's entry, made with the reason when it is the kind's first, and its count raised.\<close>

definition bump :: "string \<Rightarrow> u64 \<Rightarrow> string \<Rightarrow> (string \<times> u64 \<times> string) list \<Rightarrow> (string \<times> u64 \<times> string) list" where
  "bump kind raise reason failures =
     (let (n, first) = (case map_of failures kind of None \<Rightarrow> (0, reason) | Some held \<Rightarrow> held)
      in bt_insert kind (n + raise, first) failures)"

type_synonym load_outcome = "failure + duration"

fun load_record :: "load_outcome \<Rightarrow> load_stats \<Rightarrow> load_stats" where
  "load_record (Inr latency) s =
     s\<lparr>ls_sent := ls_sent s + 1, ls_ok := ls_ok s + 1, ls_latencies := ls_latencies s @ [latency]\<rparr>"
| "load_record (Inl f) s =
     s\<lparr>ls_sent := ls_sent s + 1, ls_failed := ls_failed s + 1,
       ls_failures := bump (fl_kind f) 1 (fl_reason f) (ls_failures s)\<rparr>"

definition load_merge :: "load_stats \<Rightarrow> load_stats \<Rightarrow> load_stats" where
  "load_merge s other =
     \<lparr>ls_sent = ls_sent s + ls_sent other, ls_ok = ls_ok s + ls_ok other, ls_failed = ls_failed s + ls_failed other,
      ls_failures = foldl (\<lambda>failures (kind, raise, reason). bump kind raise reason failures)
        (ls_failures s) (ls_failures other),
      ls_latencies = ls_latencies s @ ls_latencies other\<rparr>"

text \<open>
  The texts. How the language prints a floating point number is a parameter: the seconds and the
  milliseconds of a duration with one decimal, and a rate without any.
\<close>

record float_texts =
  ft_secs :: "duration \<Rightarrow> string"
  ft_millis :: "duration \<Rightarrow> string"
  ft_rate :: "u64 \<Rightarrow> duration \<Rightarrow> string"

definition ms :: "float_texts \<Rightarrow> duration \<Rightarrow> string" where
  "ms F d = ft_millis F d @ '' ms''"

text \<open>
  The average: a panic when the sum is no duration, or when the count is zero as 32 bits.
\<close>

definition average :: "duration list \<Rightarrow> duration option" where
  "average latencies =
     (let total = sum_list latencies; n = length latencies mod 2 ^ 32
      in if duration_max < total \<or> n = 0 then None else Some (total div n))"

definition summary :: "float_texts \<Rightarrow> load_stats \<Rightarrow> duration \<Rightarrow> string option" where
  "summary F s elapsed =
     (let line = dec_word (ls_sent s) @ '' requests in '' @ ft_secs F elapsed @ ''s ('' @ ft_rate F (ls_sent s) elapsed @
            ''/s), '' @ dec_word (ls_ok s) @ '' ok, '' @ dec_word (ls_failed s) @ '' failed'';
          latencies = sort (ls_latencies s)
      in if latencies = [] then Some line
         else map_option (\<lambda>avg. line @ ''; latency avg '' @ ms F avg @
                '', p50 '' @ ms F (latencies ! (length latencies div 2)) @
                '', p99 '' @ ms F (latencies ! (length latencies * 99 div 100))) (average (ls_latencies s)))"

definition at_fraction :: "duration list \<Rightarrow> nat \<Rightarrow> duration option" where
  "at_fraction latencies fraction =
     (let i = length latencies * fraction div 100 in if i < length latencies then Some (latencies ! i) else None)"

text \<open>A text padded on the right to a width.\<close>

definition pad :: "nat \<Rightarrow> string \<Rightarrow> string" where
  "pad width t = t @ replicate (width - length t) (CHR '' '')"

definition table_row :: "float_texts \<Rightarrow> load_stats \<Rightarrow> duration \<Rightarrow> string" where
  "table_row F s elapsed =
     (let latencies = sort (ls_latencies s);
          at = (\<lambda>fraction. case at_fraction latencies fraction of None \<Rightarrow> ''-'' | Some d \<Rightarrow> ms F d)
      in pad 11 (ft_rate F (ls_sent s) elapsed) @ '' '' @ pad 8 (at 50) @ '' '' @ pad 8 (at 99) @ '' '' @
         dec_word (ls_failed s))"

section \<open>One request\<close>

text \<open>What the HTTP client says of an exchange that failed, and its texts.\<close>

datatype send_error = SendTimeout string | SendConnect string | SendOther string

record client_texts =
  ct_lossy :: "bytes \<Rightarrow> string"
  ct_status :: "nat \<Rightarrow> string"
  ct_broken :: "http_error \<Rightarrow> string"
  ct_not_json :: "bytes \<Rightarrow> string"

text \<open>The first two hundred bytes of a text, when they end between two characters.\<close>

definition head_of :: "string \<Rightarrow> string" where
  "head_of t =
     (if length t < 200 \<or> (200 < length t \<and> 128 \<le> (of_char (t ! 200) :: nat) \<and> (of_char (t ! 200) :: nat) < 192)
      then t else take 200 t)"

definition one_request ::
    "libs \<Rightarrow> client_texts \<Rightarrow> json \<Rightarrow> send_error + http_response \<Rightarrow> duration \<Rightarrow> load_outcome" where
  "one_request L T body sent elapsed =
     (let rpc_method = (case as_str (json_at body ''method'') of None \<Rightarrow> ''?'' | Some m \<Rightarrow> m);
          failed = (\<lambda>kind reason. Inl \<lparr>fl_kind = kind, fl_reason = rpc_method @ '': '' @ reason\<rparr>)
      in case sent of
           Inl (SendTimeout t) \<Rightarrow> failed ''timeout'' t
         | Inl (SendConnect t) \<Rightarrow> failed ''connect'' t
         | Inl (SendOther t) \<Rightarrow> failed ''transport'' t
         | Inr r \<Rightarrow>
             (let status = hr_status r; bytes = concat (hr_chunks r)
              in if \<not> is_success status
                 then (let body = (if hr_broken r = None then ct_lossy T bytes else [])
                       in failed (''HTTP '' @ dec status) (''HTTP '' @ ct_status T status @ '': '' @ head_of body))
                 else case hr_broken r of
                        Some TimedOutError \<Rightarrow> failed ''timeout'' (ct_broken T TimedOutError)
                      | Some e \<Rightarrow> failed ''bad body'' (''bad body: '' @ ct_broken T e)
                      | None \<Rightarrow>
                          (case json_from_slice L bytes of
                             None \<Rightarrow> failed ''bad body'' (''bad body: '' @ ct_not_json T bytes)
                           | Some answer \<Rightarrow>
                               (if json_get answer ''result'' = None
                                then (let error = json_at answer ''error'';
                                          kind = (case as_str (json_at error ''message'') of
                                              Some message \<Rightarrow>
                                                if starts_with ''lb: '' message then message
                                                else ''rpc error '' @ bytes_text (json_to_vec L (json_at error ''code''))
                                            | None \<Rightarrow> ''rpc error '' @ bytes_text (json_to_vec L (json_at error ''code'')))
                                      in failed kind (bytes_text (json_to_vec L answer)))
                                else Inr elapsed))))"

section \<open>A run\<close>

text \<open>
  One worker: its requests in turn, as many as the deadline and the stop let it make. \<open>answers\<close> is its
  exchanges.
\<close>

definition worker :: "requests \<Rightarrow> nat \<Rightarrow> (json \<Rightarrow> nat \<Rightarrow> load_outcome) \<Rightarrow> load_outcome list" where
  "worker requests n answers = map (\<lambda>turn. answers (requests_body requests turn) turn) [0..<n]"

text \<open>
  What the collecting loop selects: an outcome, or a tick of the progress interval. It ends when
  every worker has hung up, and returns the windows it printed with the total.
\<close>

datatype load_event = Outcome load_outcome | Tick

fun collect :: "bool \<Rightarrow> load_event list \<Rightarrow> load_stats \<Rightarrow> load_stats \<Rightarrow> load_stats list \<times> load_stats" where
  "collect progress [] sum_so_far window = ([], load_merge sum_so_far window)"
| "collect progress (Outcome outcome # es) sum_so_far window = collect progress es sum_so_far (load_record outcome window)"
| "collect progress (Tick # es) sum_so_far window =
     (if progress then apfst ((#) window) (collect progress es (load_merge sum_so_far window) load_default)
      else collect progress es sum_so_far window)"

definition load_run :: "bool \<Rightarrow> load_event list \<Rightarrow> load_stats list \<times> load_stats" where
  "load_run progress es = collect progress es load_default load_default"

fun outcomes_of :: "load_event list \<Rightarrow> load_outcome list" where
  "outcomes_of [] = []"
| "outcomes_of (Outcome outcome # es) = outcome # outcomes_of es"
| "outcomes_of (Tick # es) = outcomes_of es"

section \<open>What a run counts\<close>

definition oks :: "load_outcome list \<Rightarrow> duration list" where
  "oks outcomes = map projr (filter (\<lambda>x. \<not> isl x) outcomes)"

definition fails :: "load_outcome list \<Rightarrow> failure list" where
  "fails outcomes = map projl (filter isl outcomes)"

text \<open>The failures of one kind: how many, and the first one's reason.\<close>

definition tally :: "failure list \<Rightarrow> string \<Rightarrow> (u64 \<times> string) option" where
  "tally fs kind =
     (case filter (\<lambda>f. fl_kind f = kind) fs of
        [] \<Rightarrow> None | f # rest \<Rightarrow> Some (word_of_nat (Suc (length rest)), fl_reason f))"

text \<open>Statistics that count exactly these outcomes.\<close>

definition counts_all :: "load_stats \<Rightarrow> load_outcome list \<Rightarrow> bool" where
  "counts_all s outcomes \<longleftrightarrow>
     ls_sent s = word_of_nat (length outcomes) \<and>
     ls_ok s = word_of_nat (length (oks outcomes)) \<and> ls_latencies s = oks outcomes \<and>
     ls_failed s = word_of_nat (length (fails outcomes)) \<and>
     bt_wf (ls_failures s) \<and> map_of (ls_failures s) = tally (fails outcomes)"

lemma oks_append [simp]: "oks (xs @ ys) = oks xs @ oks ys"
  and fails_append [simp]: "fails (xs @ ys) = fails xs @ fails ys"
  by (simp_all add: oks_def fails_def)

lemma bump_wf: "bt_wf m \<Longrightarrow> bt_wf (bump k c r m)"
  by (auto simp: bump_def Let_def case_prod_beta intro: bt_wf_insert)

text \<open>Two counts of one kind together: the sum, and the earlier reason.\<close>

fun together :: "(u64 \<times> string) option \<Rightarrow> (u64 \<times> string) option \<Rightarrow> (u64 \<times> string) option" where
  "together None y = y"
| "together x None = x"
| "together (Some (n, r)) (Some (m, _)) = Some (n + m, r)"

lemma together_None [simp]: "together x None = x"
  by (cases x) auto

lemma together_assoc: "together (together x y) z = together x (together y z)"
  by (cases x; cases y; cases z) (auto simp: ac_simps)

lemma map_of_bump: "map_of (bump k c r m) = (\<lambda>k'. together (map_of m k') (if k' = k then Some (c, r) else None))"
  by (rule ext) (cases "map_of m k"; auto simp: bump_def)

lemma tally_append: "tally (xs @ ys) k = together (tally xs k) (tally ys k)"
  by (auto simp: tally_def split: list.split)

lemma tally_single: "tally [f] k = (if k = fl_kind f then Some (1, fl_reason f) else None)"
  by (simp add: tally_def)

lemma map_of_bumps:
  "distinct (map fst ys) \<Longrightarrow> map_of (foldl (\<lambda>failures (kind, raise, reason). bump kind raise reason failures) xs ys) =
     (\<lambda>k. together (map_of xs k) (map_of ys k))"
proof (induction ys arbitrary: xs)
  case (Cons y ys)
  obtain k c r where y: "y = (k, c, r)" by (metis prod_cases3)
  from Cons.prems y have "map_of ys k = None" by (simp add: map_of_eq_None_iff)
  with Cons y show ?case by (auto simp: map_of_bump fun_eq_iff together_assoc)
qed simp

lemma bumps_wf: "bt_wf xs \<Longrightarrow> bt_wf (foldl (\<lambda>failures (kind, raise, reason). bump kind raise reason failures) xs ys)"
  by (induction ys arbitrary: xs) (auto simp: bump_wf)

lemma counts_default: "counts_all load_default []"
  by (auto simp: counts_all_def load_default_def oks_def fails_def tally_def fun_eq_iff)

lemma counts_record:
  assumes "counts_all s outcomes"
  shows "counts_all (load_record x s) (outcomes @ [x])"
proof (cases x)
  case (Inl f)
  with assms show ?thesis
    by (auto simp: counts_all_def oks_def fails_def bump_wf map_of_bump tally_append tally_single fun_eq_iff)
next
  case (Inr d)
  with assms show ?thesis by (simp add: counts_all_def oks_def fails_def)
qed

lemma counts_merge:
  assumes "counts_all s xs" and "counts_all t ys"
  shows "counts_all (load_merge s t) (xs @ ys)"
  using assms bt_wf_distinct [of "ls_failures t"]
  by (simp add: counts_all_def load_merge_def bumps_wf map_of_bumps tally_append fun_eq_iff)

lemma collect_counts:
  assumes "counts_all sum_so_far before" and "counts_all window since"
  shows "\<exists>cuts rest. list_all2 counts_all (fst (collect progress es sum_so_far window)) cuts \<and>
    since @ outcomes_of es = concat cuts @ rest \<and>
    counts_all (snd (collect progress es sum_so_far window)) (before @ since @ outcomes_of es)"
  using assms
proof (induction es arbitrary: sum_so_far window before since)
  case Nil
  then show ?case by (intro exI [of _ "[]"] exI [of _ since]) (simp add: counts_merge)
next
  case (Cons e es)
  show ?case
  proof (cases e)
    case (Outcome x)
    from Cons.IH [OF Cons.prems(1) counts_record [OF Cons.prems(2), of x]] Outcome show ?thesis by simp
  next
    case Tick
    show ?thesis
    proof (cases progress)
      case True
      from Cons.IH [OF counts_merge [OF Cons.prems] counts_default] obtain cuts rest where
        "list_all2 counts_all (fst (collect progress es (load_merge sum_so_far window) load_default)) cuts"
        "outcomes_of es = concat cuts @ rest"
        "counts_all (snd (collect progress es (load_merge sum_so_far window) load_default)) (before @ since @ outcomes_of es)"
        by auto
      with True Tick Cons.prems(2) show ?thesis
        by (intro exI [of _ "since # cuts"] exI [of _ rest]) simp
    next
      case False
      with Cons.IH [OF Cons.prems] Tick show ?thesis by simp
    qed
  qed
qed

text \<open>
  Cutting a run into windows loses nothing. Whenever the progress interval ticks, and
  however the workers' outcomes interleave, the total counts every outcome once: how many were sent,
  answered and failed, the latencies in the order they came, and for each kind of failure its number
  and its first reason. Each window printed counts exactly the outcomes since the one before.
\<close>

theorem windows_lose_nothing:
  "counts_all (snd (load_run progress es)) (outcomes_of es) \<and>
   (\<exists>cuts rest. list_all2 counts_all (fst (load_run progress es)) cuts \<and> outcomes_of es = concat cuts @ rest) \<and>
   ls_sent (snd (load_run progress es)) = ls_ok (snd (load_run progress es)) + ls_failed (snd (load_run progress es))"
proof -
  have c: "counts_all (snd (load_run progress es)) (outcomes_of es)"
    "\<exists>cuts rest. list_all2 counts_all (fst (load_run progress es)) cuts \<and> outcomes_of es = concat cuts @ rest"
    using collect_counts [OF counts_default counts_default, of progress es] by (auto simp: load_run_def)
  have "length xs = length (oks xs) + length (fails xs)" for xs :: "load_outcome list"
    using sum_length_filter_compl [of isl xs] by (simp add: oks_def fails_def)
  with c(1) have "ls_sent (snd (load_run progress es)) = ls_ok (snd (load_run progress es)) + ls_failed (snd (load_run progress es))"
    by (simp add: counts_all_def)
  with c show ?thesis by blast
qed

section \<open>Percentiles\<close>

lemma sorted_above_index:
  assumes "sorted xs" and "i < length xs"
  shows "length (filter (\<lambda>x. xs ! i < x) xs) \<le> length xs - Suc i"
proof -
  have none: "filter (\<lambda>x. xs ! i < x) (take (Suc i) xs) = []"
  proof -
    have "x \<le> xs ! i" if "x \<in> set (take (Suc i) xs)" for x
      using that assms by (auto simp: in_set_conv_nth sorted_iff_nth_mono)
    then show ?thesis by (auto simp: filter_empty_conv not_less)
  qed
  have "filter (\<lambda>x. xs ! i < x) xs = filter (\<lambda>x. xs ! i < x) (take (Suc i) xs) @ filter (\<lambda>x. xs ! i < x) (drop (Suc i) xs)"
    by (metis append_take_drop_id filter_append)
  with none have "filter (\<lambda>x. xs ! i < x) xs = filter (\<lambda>x. xs ! i < x) (drop (Suc i) xs)" by simp
  then show ?thesis by (metis length_drop length_filter_le)
qed

text \<open>
  What the percentiles of a summary say. With at least one answer, fewer than two to the
  thirty-second, and latencies that add up to a duration, the summary does not panic; the latency
  printed as the given percentile is one that was measured, and at most the rest of the answers were
  slower than it.
\<close>

theorem percentiles_bound_the_slow:
  assumes "ls_latencies s \<noteq> []" and "length (ls_latencies s) < 2 ^ 32"
    and "sum_list (ls_latencies s) \<le> duration_max" and "fraction < 100"
  shows "summary F s elapsed \<noteq> None \<and>
    (\<exists>d. at_fraction (sort (ls_latencies s)) fraction = Some d \<and> d \<in> set (ls_latencies s) \<and>
      100 * length (filter (\<lambda>x. d < x) (ls_latencies s)) \<le> (100 - fraction) * length (ls_latencies s))"
proof -
  let ?xs = "sort (ls_latencies s)" and ?n = "length (ls_latencies s)"
  let ?i = "?n * fraction div 100"
  from assms(1) have pos: "0 < ?n" by simp
  have "average (ls_latencies s) \<noteq> None"
    using assms(2,3) pos by (simp add: average_def Let_def)
  then have "summary F s elapsed \<noteq> None" by (auto simp: summary_def Let_def)
  moreover have "?n * fraction < 100 * ?n" using assms(4) pos by simp
  then have i: "?i < ?n" by (simp add: less_mult_imp_div_less mult.commute)
  then have at: "at_fraction ?xs fraction = Some (?xs ! ?i)" by (simp add: at_fraction_def Let_def)
  have "?xs ! ?i \<in> set (ls_latencies s)" using i by (metis length_sort nth_mem set_sort)
  moreover have "length (filter (\<lambda>x. ?xs ! ?i < x) (ls_latencies s)) = length (filter (\<lambda>x. ?xs ! ?i < x) ?xs)"
    by (metis filter_sort length_sort)
  then have "length (filter (\<lambda>x. ?xs ! ?i < x) (ls_latencies s)) \<le> ?n - Suc ?i"
    using sorted_above_index [of ?xs ?i] i by simp
  moreover have "100 * (?n - Suc ?i) \<le> (100 - fraction) * ?n"
  proof -
    have "?n * fraction < 100 * Suc ?i"
      using dividend_less_div_times [of 100 "?n * fraction"] by simp
    moreover have "(100 - fraction) * ?n = 100 * ?n - ?n * fraction"
      by (metis diff_mult_distrib mult.commute)
    ultimately show ?thesis by (simp add: diff_mult_distrib2)
  qed
  ultimately show ?thesis using at by (intro conjI exI [of _ "?xs ! ?i"]) auto
qed

lemma percentiles_bound_the_slow_witness:
  "\<exists>F. summary F (load_default\<lparr>ls_latencies := [30, 10, 20]\<rparr>) (secs 1) \<noteq> None \<and>
     (\<exists>d. at_fraction (sort [30, 10, 20]) 50 = Some d \<and> d \<in> {30, 10, 20} \<and>
       100 * length (filter (\<lambda>x. d < x) [30, 10, 20]) \<le> 150)"
  using percentiles_bound_the_slow [of "load_default\<lparr>ls_latencies := [30, 10, 20]\<rparr>" 50 undefined "secs 1"]
  by (intro exI [of _ undefined]) (simp add: duration_max_def)

text \<open>
  When a request counts as answered: any success status with a body that is JSON and has a result,
  a null one included.
\<close>

lemma one_request_ok_iff:
  "one_request L T body sent elapsed = Inr d \<longleftrightarrow> d = elapsed \<and>
     (\<exists>r answer. sent = Inr r \<and> is_success (hr_status r) \<and> hr_broken r = None \<and>
        json_from_slice L (concat (hr_chunks r)) = Some answer \<and> json_get answer ''result'' \<noteq> None)"
  by (auto simp: one_request_def Let_def split: sum.splits send_error.splits option.splits http_error.splits)

end
