(* ===== verification/Rig.thy ===== *)
theory Rig
  imports Load Admission
begin

text \<open>
  \<open>crates/rig/src/main.rs\<close>, \<open>fleet.rs\<close> and \<open>provider.rs\<close>: the rig's commands and their flags,
  the fleet of containers it starts and takes down, the scenarios by name, and the admission
  callbacks it posts in the tunnel server's place. \<open>None\<close> is the usage message and its exit.
\<close>

section \<open>Commands\<close>

definition SCENARIOS :: "string list" where
  "SCENARIOS = [''boot'', ''distribution'', ''denylist'', ''forward-to-node'', ''kill-recover'', ''wrong-entity'',
     ''wrong-block'', ''frozen-head'', ''reference-down'', ''offer-accepted'']"

definition NOT_IN_ALL :: "string list" where
  "NOT_IN_ALL = [''wrong-entity'']"

datatype rig_scenario = BootRun | DenylistRun | DistributionRun | ForwardToNodeRun | KillRecoverRun
  | LiarRun lie string | FrozenHeadRun | ReferenceDownRun | OfferAcceptedRun

text \<open>The dispatch by name; a name that is not in it is unreachable, a panic.\<close>

definition scenario :: "string \<Rightarrow> rig_scenario option" where
  "scenario name =
     (if name = ''boot'' then Some BootRun
      else if name = ''denylist'' then Some DenylistRun
      else if name = ''distribution'' then Some DistributionRun
      else if name = ''forward-to-node'' then Some ForwardToNodeRun
      else if name = ''kill-recover'' then Some KillRecoverRun
      else if name = ''wrong-entity'' then Some (LiarRun EntityLie ''entity'')
      else if name = ''wrong-block'' then Some (LiarRun BlockLie ''block'')
      else if name = ''frozen-head'' then Some FrozenHeadRun
      else if name = ''reference-down'' then Some ReferenceDownRun
      else if name = ''offer-accepted'' then Some OfferAcceptedRun
      else None)"

definition all_scenarios :: "rig_scenario option list" where
  "all_scenarios = map scenario (filter (\<lambda>name. name \<notin> set NOT_IN_ALL) SCENARIOS)"

datatype rig_command = RunAll | RunLoad "string list" | RunRelay "string list" | RunScenario "rig_scenario option"

text \<open>The arguments after the program's name.\<close>

fun rig_main :: "string list \<Rightarrow> rig_command option" where
  "rig_main [] = None"
| "rig_main (name # args) =
     (if name = ''all'' then Some RunAll
      else if name = ''load'' then Some (RunLoad args)
      else if name = ''relay'' then Some (RunRelay args)
      else if name \<in> set SCENARIOS then Some (RunScenario (scenario name))
      else None)"

section \<open>The load command\<close>

fun split_on :: "char \<Rightarrow> string \<Rightarrow> string list" where
  "split_on sep [] = [[]]"
| "split_on sep (c # cs) =
     (if c = sep then [] # split_on sep cs
      else case split_on sep cs of [] \<Rightarrow> [[c]] | piece # pieces \<Rightarrow> (c # piece) # pieces)"

text \<open>A text up to where only white space is left.\<close>

fun trim_end :: "string \<Rightarrow> string" where
  "trim_end [] = []"
| "trim_end (c # cs) = (if trim_start (c # cs) = [] then [] else c # trim_end cs)"

definition trim :: "string \<Rightarrow> string" where
  "trim t = trim_end (trim_start t)"

record load_options =
  lo_target :: "string option"
  lo_requests :: requests
  lo_filter :: string
  lo_steps :: "nat list"
  lo_duration :: duration

definition load_options_default :: load_options where
  "load_options_default = \<lparr>lo_target = None, lo_requests = Cheap, lo_filter = ALL_ENTITIES, lo_steps = [4],
     lo_duration = secs 10\<rparr>"

definition load_flag :: "string \<Rightarrow> string \<Rightarrow> load_options \<Rightarrow> load_options option" where
  "load_flag flag value opts =
     (if flag = ''--target'' then Some (opts\<lparr>lo_target := Some value\<rparr>)
      else if flag = ''--requests'' then
        (if value = ''cheap'' then Some (opts\<lparr>lo_requests := Cheap\<rparr>)
         else if value = ''query'' then Some (opts\<lparr>lo_requests := QueryBy []\<rparr>)
         else None)
      else if flag = ''--query'' then Some (opts\<lparr>lo_filter := value\<rparr>)
      else if flag = ''--concurrency'' then
        map_option (\<lambda>steps. opts\<lparr>lo_steps := steps\<rparr>)
          (all_some (map (\<lambda>n. parse_radix 10 (2 ^ 64) (trim n)) (split_on (CHR '','') value)))
      else if flag = ''--duration'' then
        map_option (\<lambda>n. opts\<lparr>lo_duration := secs n\<rparr>) (parse_radix 10 (2 ^ 64) value)
      else None)"

fun load_flags :: "string list \<Rightarrow> load_options \<Rightarrow> load_options option" where
  "load_flags [] opts = Some opts"
| "load_flags [flag] opts = None"
| "load_flags (flag # value # args) opts = Option.bind (load_flag flag value opts) (load_flags args)"

text \<open>What the command runs: the target, the requests, and the steps with their duration.\<close>

definition load_command :: "string list \<Rightarrow> (string \<times> requests \<times> nat list \<times> duration) option" where
  "load_command args =
     Option.bind (load_flags args load_options_default) (\<lambda>opts.
     Option.bind (lo_target opts) (\<lambda>target.
       Some (target,
             (case lo_requests opts of QueryBy _ \<Rightarrow> QueryBy (lo_filter opts) | Cheap \<Rightarrow> Cheap),
             lo_steps opts, lo_duration opts)))"

text \<open>The steps in turn, each with whether the stop was set when it ended; the exit status.\<close>

fun load_exit :: "(load_stats \<times> bool) list \<Rightarrow> load_stats list \<Rightarrow> nat" where
  "load_exit [] rows = (if list_ex (\<lambda>s. 0 < ls_failed s) rows then 1 else 0)"
| "load_exit ((stats, stopped) # steps) rows = (if stopped then 130 else load_exit steps (rows @ [stats]))"

section \<open>The relay command\<close>

record relay_options =
  ro_listen :: "string option"
  ro_upstream :: "string option"
  ro_lie :: "lie option"

text \<open>\<open>socket\<close> says which texts are socket addresses.\<close>

definition relay_flag :: "libs \<Rightarrow> (string \<Rightarrow> bool) \<Rightarrow> string \<Rightarrow> string \<Rightarrow> relay_options \<Rightarrow> relay_options option" where
  "relay_flag L socket flag value opts =
     (if flag = ''--listen'' then (if socket value then Some (opts\<lparr>ro_listen := Some value\<rparr>) else None)
      else if flag = ''--upstream'' then
        (if url_scheme L value \<noteq> None then Some (opts\<lparr>ro_upstream := Some value\<rparr>) else None)
      else if flag = ''--lie'' \<and> value = ''entity'' then Some (opts\<lparr>ro_lie := Some EntityLie\<rparr>)
      else if flag = ''--lie'' \<and> value = ''block'' then Some (opts\<lparr>ro_lie := Some BlockLie\<rparr>)
      else if flag = ''--lie'' \<and> value = ''frozen-head'' then Some (opts\<lparr>ro_lie := Some FrozenHeadLie\<rparr>)
      else None)"

fun relay_flags :: "libs \<Rightarrow> (string \<Rightarrow> bool) \<Rightarrow> string list \<Rightarrow> relay_options \<Rightarrow> relay_options option" where
  "relay_flags L socket [] opts = Some opts"
| "relay_flags L socket [flag] opts = None"
| "relay_flags L socket (flag # value # args) opts =
     Option.bind (relay_flag L socket flag value opts) (relay_flags L socket args)"

definition relay_command :: "libs \<Rightarrow> (string \<Rightarrow> bool) \<Rightarrow> string list \<Rightarrow> (string \<times> string \<times> lie option) option" where
  "relay_command L socket args =
     Option.bind (relay_flags L socket args \<lparr>ro_listen = None, ro_upstream = None, ro_lie = None\<rparr>) (\<lambda>opts.
     Option.bind (ro_listen opts) (\<lambda>listen.
     Option.bind (ro_upstream opts) (\<lambda>upstream. Some (listen, upstream, ro_lie opts))))"

section \<open>The fleet\<close>

text \<open>
  The containers that run, by name. A start launches the container whether or not it then answers in
  time; a node that goes out of scope stops its container, and a failed start unwinds, so the
  node just launched and the ones started before it all go out of scope.
\<close>

record node =
  nd_id :: string
  nd_url :: string
  nd_port :: u16

definition node_at :: "u16 \<Rightarrow> nat \<Rightarrow> node" where
  "node_at base_port i =
     (let port = base_port + word_of_nat i
      in \<lparr>nd_id = ''rig-node-'' @ dec i, nd_url = ''http://127.0.0.1:'' @ dec_word port, nd_port = port\<rparr>)"

definition node_drop :: "node \<Rightarrow> string set \<Rightarrow> string set" where
  "node_drop node running = running - {nd_id node}"

fun fleet_loop :: "(string \<Rightarrow> bool) \<Rightarrow> u16 \<Rightarrow> nat list \<Rightarrow> node list \<Rightarrow> string set \<Rightarrow> node list option \<times> string set" where
  "fleet_loop answers base_port [] nodes running = (Some nodes, running)"
| "fleet_loop answers base_port (i # is) nodes running =
     (let node = node_at base_port i; running = insert (nd_id node) running
      in if answers (nd_id node) then fleet_loop answers base_port is (nodes @ [node]) running
         else (None, fold node_drop (node # nodes) running))"

definition fleet_start :: "(string \<Rightarrow> bool) \<Rightarrow> nat \<Rightarrow> u16 \<Rightarrow> string set \<Rightarrow> node list option \<times> string set" where
  "fleet_start answers number base_port running = fleet_loop answers base_port [0..<number] [] running"

definition fleet_drop :: "node list \<Rightarrow> string set \<Rightarrow> string set" where
  "fleet_drop nodes running = fold node_drop nodes running"

section \<open>The admission callbacks\<close>

definition rig_metas :: "string \<Rightarrow> string \<Rightarrow> json" where
  "rig_metas agreement token = JObj [(''agreement'', JStr agreement), (''token'', JStr token)]"

definition login_body :: "string \<Rightarrow> string \<Rightarrow> json" where
  "login_body agreement token = JObj
     [(''arch'', JStr ''amd64''), (''client_address'', JStr ''203.0.113.5:53502''), (''client_spec'', JObj []),
      (''metas'', rig_metas agreement token), (''os'', JStr ''linux''), (''pool_count'', JNum 1),
      (''version'', JStr ''0.61.1'')]"

definition new_proxy_body :: "string \<Rightarrow> string \<Rightarrow> u16 \<Rightarrow> json" where
  "new_proxy_body agreement token port = JObj
     [(''proxy_name'', JStr (''node-rpc-'' @ dec_word port)), (''proxy_type'', JStr ''tcp''),
      (''remote_port'', JNum (uint port)),
      (''user'', JObj [(''metas'', rig_metas agreement token), (''run_id'', JStr ''rig''), (''user'', JStr [])])]"

definition admission_body :: "string \<Rightarrow> json \<Rightarrow> json" where
  "admission_body op content = JObj [(''content'', content), (''op'', JStr op), (''version'', JStr ''0.1.0'')]"

section \<open>The provider tooling's settings\<close>

text \<open>The lines of a text, without their line ends; a last line that is empty is none.\<close>

definition strip_return :: "string \<Rightarrow> string" where
  "strip_return l = (if l \<noteq> [] \<and> last l = CHR 0x0D then butlast l else l)"

definition text_lines :: "string \<Rightarrow> string list" where
  "text_lines t =
     (let pieces = split_on (CHR 0x0A) t
      in map strip_return (butlast pieces) @ (if last pieces = [] then [] else [last pieces]))"

definition tunnel_settings :: "string \<Rightarrow> string \<Rightarrow> string option" where
  "tunnel_settings t = map_of (rev (List.map_filter (split_once (CHR ''='')) (text_lines t)))"

section \<open>The commands\<close>

text \<open>Every scenario listed is dispatched, so no name the rig accepts is unreachable.\<close>

lemma rig_reaches_every_scenario:
  "rig_main args \<noteq> Some (RunScenario None)" "None \<notin> set all_scenarios"
proof -
  have "list_all (\<lambda>name. scenario name \<noteq> None) SCENARIOS" by (simp add: SCENARIOS_def scenario_def)
  then show "rig_main args \<noteq> Some (RunScenario None)" by (cases args) (auto simp: list_all_iff)
  show "None \<notin> set all_scenarios" by (simp add: all_scenarios_def SCENARIOS_def NOT_IN_ALL_def scenario_def)
qed

lemma load_exit_rows:
  "load_exit steps rows = 0 \<longleftrightarrow> (\<forall>(s, stopped) \<in> set steps. \<not> stopped \<and> ls_failed s = 0) \<and> (\<forall>s \<in> set rows. ls_failed s = 0)"
  by (induction steps rows rule: load_exit.induct) (auto simp: list_ex_iff word_gt_0)

text \<open>The filter may come before or after the flag that asks for a query.\<close>

lemma load_flags_either_order:
  "load_command (''--requests'' # ''query'' # ''--query'' # t # args) =
     load_command (''--query'' # t # ''--requests'' # ''query'' # args)"
  by (simp add: load_command_def load_flag_def load_options_default_def)

section \<open>The fleet\<close>

lemma node_id_inj: "nd_id (node_at b i) = nd_id (node_at b j) \<longleftrightarrow> i = j"
  by (simp add: node_at_def Let_def dec_inj)

lemma fold_node_drop: "fold node_drop nodes running = running - nd_id ` set nodes"
  by (induction nodes arbitrary: running) (auto simp: node_drop_def)

lemma fleet_loop_Some:
  assumes "fleet_loop answers b is nodes running = (Some nodes', running')"
  shows "nodes' = nodes @ map (node_at b) is \<and> running' = running \<union> nd_id ` node_at b ` set is"
  using assms
proof (induction "is" arbitrary: nodes running)
  case (Cons i "is")
  then have "fleet_loop answers b is (nodes @ [node_at b i]) (insert (nd_id (node_at b i)) running) = (Some nodes', running')"
    by (simp add: Let_def split: if_splits)
  from Cons.IH [OF this] show ?case by auto
qed simp

lemma fleet_loop_None:
  assumes "fleet_loop answers b is nodes running = (None, running')"
  shows "\<exists>started i later. is = started @ i # later \<and> \<not> answers (nd_id (node_at b i)) \<and>
    running' = running - nd_id ` set nodes - nd_id ` node_at b ` set (started @ [i])"
  using assms
proof (induction "is" arbitrary: nodes running)
  case (Cons i "is")
  show ?case
  proof (cases "answers (nd_id (node_at b i))")
    case True
    with Cons.prems have "fleet_loop answers b is (nodes @ [node_at b i]) (insert (nd_id (node_at b i)) running) = (None, running')"
      by (simp add: Let_def)
    from Cons.IH [OF this] obtain started j later where s: "is = started @ j # later" "\<not> answers (nd_id (node_at b j))"
      "running' = insert (nd_id (node_at b i)) running - nd_id ` set (nodes @ [node_at b i]) - nd_id ` node_at b ` set (started @ [j])"
      by blast
    have "running' = running - nd_id ` set nodes - nd_id ` node_at b ` set ((i # started) @ [j])"
      unfolding s(3) by auto
    with s(1,2) show ?thesis by (metis append_Cons)
  next
    case False
    with Cons.prems have "running' = running - nd_id ` set nodes - nd_id ` node_at b ` set ([] @ [i])"
      by (auto simp: Let_def fold_node_drop node_drop_def)
    with False show ?thesis by (metis append_Nil)
  qed
qed simp

text \<open>
  No container outlives a failed start. A fleet that starts has every node asked for, on
  consecutive ports and under names of their own, and taking it down stops exactly those; a start
  that fails at some node has stopped that node and every one launched before it, and no other
  container was touched.
\<close>

theorem fleet_leaves_nothing_behind:
  "case fleet_start answers number base_port running of
     (Some nodes, running') \<Rightarrow> nodes = map (node_at base_port) [0..<number] \<and> distinct (map nd_id nodes) \<and>
       running' = running \<union> nd_id ` set nodes \<and> fleet_drop nodes running' = running - nd_id ` set nodes
   | (None, running') \<Rightarrow> \<exists>i < number. \<not> answers (nd_id (node_at base_port i)) \<and>
       running' = running - nd_id ` node_at base_port ` {0..i}"
proof (cases "fleet_start answers number base_port running")
  case (Pair res running')
  show ?thesis
  proof (cases res)
    case None
    with Pair fleet_loop_None [of answers base_port "[0..<number]" "[]" running running'] obtain started i later where
      s: "[0..<number] = started @ i # later"
      "\<not> answers (nd_id (node_at base_port i))"
      "running' = running - nd_id ` node_at base_port ` set (started @ [i])" by (auto simp: fleet_start_def)
    from s(1) have i: "i < number" by (metis in_set_conv_decomp atLeastLessThan_iff set_upt)
    have "i = length started" using s(1) by (metis add.left_neutral i length_append length_upt less_imp_le nth_append_length nth_upt
      diff_zero le_add1 length_Cons less_add_Suc1 add_Suc_right)
    then have "started = [0..<i]" using s(1) i by (metis append_eq_conv_conj less_imp_le_nat take_upt add.left_neutral)
    then have "set (started @ [i]) = {0..i}" by auto
    with s(3) have "running' = running - nd_id ` node_at base_port ` {0..i}" by (simp only:)
    with s(2) i show ?thesis unfolding Pair None by auto
  next
    case (Some nodes)
    with Pair fleet_loop_Some [of answers base_port "[0..<number]" "[]" running nodes running'] have n: "nodes = map (node_at base_port) [0..<number]"
      "running' = running \<union> nd_id ` node_at base_port ` set [0..<number]" by (simp_all add: fleet_start_def)
    have "distinct (map nd_id nodes)"
      by (simp add: n(1) distinct_map inj_on_def node_id_inj)
    with n Some Pair show ?thesis by (auto simp: fleet_drop_def fold_node_drop)
  qed
qed

section \<open>The callbacks\<close>

lemma uint_u16: "uint (port :: u16) < 65536"
  using uint_bounded [of port] by simp

lemma login_body_parse:
  "login_parse (login_body agreement token) = Some (Login, (Some agreement, Some token), ''203.0.113.5:53502'')"
  by (simp add: login_parse_def login_body_def as_object_def json_default_def metas_parse_def rig_metas_def as_opt_str_def)

lemma new_proxy_body_parse:
  "new_proxy_parse (new_proxy_body agreement token port) =
     Some (NewProxy port (proxy_name port), (Some agreement, Some token), proxy_name port)"
  by (simp add: new_proxy_parse_def new_proxy_body_def as_object_def json_default_def metas_parse_def rig_metas_def
      as_opt_str_def as_u16_def uint_u16 proxy_name_def)

lemma admission_body_parse: "frps_parse (admission_body name content) = Some (name, content)"
  by (simp add: frps_parse_def admission_body_def as_object_def)

text \<open>
  What the rig posts is what the route decides on. The callbacks it builds in the tunnel
  server's place read back as the agreement, the token and the port they were built from: a token the
  agreement's provider signed logs in and has its proxy admitted, at the agreement's port; the
  same callback with another signer's token or for another port is turned away, for that reason,
  and admits nothing.
\<close>

theorem rig_callbacks_are_decided:
  assumes "parse_key L agreement = Some key" and "lookup key = Some st"
    and "parse_sig L token = Some sig" and "recover_address L sig (token_message L key) = Some (ag_provider (st_record st))"
    and "parse_sig L wrong = Some other" and "recover_address L other (token_message L key) = Some signer"
    and "signer \<noteq> ag_provider (st_record st)"
    and "port = ag_remote_port (st_record st)" and "another \<noteq> port"
    and "route = (\<lambda>op content. admission_route L lookup admitted bad (Inr (admission_body op content)))"
  shows "route ''Login'' (login_body agreement token) w = (unchange, w) \<and>
    route ''NewProxy'' (new_proxy_body agreement token port) w = (unchange, admitted st w) \<and>
    route ''NewProxy'' (new_proxy_body agreement wrong port) w = (turned_away L WrongSigner, w) \<and>
    route ''NewProxy'' (new_proxy_body agreement token another) w = (turned_away L (WrongPort another port), w)"
proof -
  have parsed: "token_parse L (Some agreement) (Some token) = Inr \<lparr>tk_agreement = key, tk_signature = sig\<rparr>"
    "token_parse L (Some agreement) (Some wrong) = Inr \<lparr>tk_agreement = key, tk_signature = other\<rparr>"
    using assms(1,3,5) by (simp_all add: token_parse_def)
  have decided: "decide_admission L Login \<lparr>tk_agreement = key, tk_signature = sig\<rparr> (Some st) = Inr ()"
    "decide_admission L (NewProxy port (proxy_name port)) \<lparr>tk_agreement = key, tk_signature = sig\<rparr> (Some st) = Inr ()"
    "decide_admission L (NewProxy port (proxy_name port)) \<lparr>tk_agreement = key, tk_signature = other\<rparr> (Some st) = Inl WrongSigner"
    "decide_admission L (NewProxy another (proxy_name another)) \<lparr>tk_agreement = key, tk_signature = sig\<rparr> (Some st) =
      Inl (WrongPort another port)"
    using assms(4,6,7,8,9) by (simp_all add: decide_admission_def Let_def)
  show ?thesis
    unfolding assms(10)
    by (simp add: admission_route_def admission_body_parse login_body_parse new_proxy_body_parse parsed decided assms(2))
qed

definition two_signers :: libs where
  "two_signers = std_libs\<lparr>recover_address := (\<lambda>sig _. if sig = [1] then Some 5 else Some 6)\<rparr>"

definition rig_agreement :: "agreement stored" where
  "rig_agreement = \<lparr>st_key = 9, st_creator = 1, st_created_at = 0, st_expires_at = 100,
     st_record = \<lparr>ag_provider = 5, ag_offer = 8, ag_wei_per_call = 3, ag_remote_port = 7001\<rparr>\<rparr>"

lemma rig_callbacks_are_decided_witness:
  "admission_route two_signers (\<lambda>_. Some rig_agreement) (\<lambda>st w. w + ag_remote_port (st_record st)) []
     (Inr (admission_body ''NewProxy'' (new_proxy_body (key_hex std_libs 9) ''01'' 7001))) 0 = (unchange, 7001) \<and>
   admission_route two_signers (\<lambda>_. Some rig_agreement) (\<lambda>st w. w + ag_remote_port (st_record st)) []
     (Inr (admission_body ''NewProxy'' (new_proxy_body (key_hex std_libs 9) ''01'' 7002))) 0 =
     (turned_away two_signers (WrongPort 7002 7001), 0)"
proof -
  have key: "parse_key two_signers (key_hex std_libs 9) = Some 9"
    using text_lawsD(2) [OF std_libs_text_laws] by (simp add: two_signers_def)
  have sigs: "parse_sig two_signers ''01'' = Some [1]" "parse_sig two_signers ''02'' = Some [2]"
    by (simp_all add: two_signers_def std_libs_def char_digit_def)
  have signers: "recover_address two_signers [1] m = Some (ag_provider (st_record rig_agreement))"
    "recover_address two_signers [2] m = Some 6" "6 \<noteq> ag_provider (st_record rig_agreement)"
    "7001 = ag_remote_port (st_record rig_agreement)" "(7002 :: u16) \<noteq> 7001" for m
    by (simp_all add: two_signers_def rig_agreement_def)
  note decided = rig_callbacks_are_decided [where lookup = "\<lambda>_. Some rig_agreement" and bad = "[]" and w = 0 and
      admitted = "\<lambda>st w. w + ag_remote_port (st_record st)",
      OF key refl sigs(1) signers(1) sigs(2) signers(2,3,4,5) refl]
  from decided show ?thesis by (simp only: signers(4) [symmetric] add_0 simp_thms)
qed

end
