(* ===== verification/Routes.thy ===== *)
theory Routes
  imports Admission
begin

text \<open>
  The routers of the two listeners (\<open>router\<close> in \<open>proxy.rs\<close> and in \<open>admin.rs\<close>): which handler a
  method and a path reach, and the JSON the admin routes answer with. A path is its segments,
  decoded, the root none of them. What the web framework answers on its own, to a preflight or where
  no route fits, is its documented status.
\<close>

section \<open>The answers as JSON\<close>

definition nullable :: "('a \<Rightarrow> json) \<Rightarrow> 'a option \<Rightarrow> json" where
  "nullable f x = (case x of None \<Rightarrow> JNull | Some v \<Rightarrow> f v)"

definition u64_json :: "u64 \<Rightarrow> json" where
  "u64_json n = JNum (uint n)"

definition node_view_json :: "node_view \<Rightarrow> json" where
  "node_view_json v = JObj
     [(''agreement_id'', nullable JStr (nv_agreement_id v)), (''chain_verified'', JBool (nv_chain_verified v)),
      (''eligible'', JBool (nv_eligible v)), (''health_streak'', JNum (nv_health_streak v)), (''id'', JStr (nv_id v)),
      (''ineligibility_reason'', nullable JStr (nv_ineligibility_reason v)),
      (''integrity_height'', nullable u64_json (nv_integrity_height v)),
      (''integrity_verdict'', nullable JStr (nv_integrity_verdict v)),
      (''last_height'', nullable u64_json (nv_last_height v)), (''last_probe_ms'', nullable u64_json (nv_last_probe_ms v)),
      (''served_period'', u64_json (nv_served_period v)), (''served_total'', u64_json (nv_served_total v)),
      (''source'', JStr (nv_source v)), (''transport_failures'', u64_json (nv_transport_failures v)),
      (''url'', JStr (nv_url v))]"

text \<open>A mark that is not set is left out.\<close>

definition partial_field :: "bool \<Rightarrow> (string \<times> json) list" where
  "partial_field p = (if p then [(''partial'', JBool True)] else [])"

definition provider_row_json :: "provider_row \<Rightarrow> json" where
  "provider_row_json row = JObj ([(''hour'', JStr (pw_hour row))] @ partial_field (pw_partial row) @
     [(''served'', u64_json (pw_served row)), (''transport_failures'', u64_json (pw_transport_failures row))])"

definition lb_row_json :: "lb_row \<Rightarrow> json" where
  "lb_row_json row = JObj ([(''hour'', JStr (lw_hour row)), (''no_healthy_provider'', u64_json (lw_no_healthy_provider row)),
     (''no_provider_answered'', u64_json (lw_no_provider_answered row))] @ partial_field (lw_partial row) @
     [(''timed_out'', u64_json (lw_timed_out row))])"

definition provider_report_json :: "provider_report \<Rightarrow> json" where
  "provider_report_json r = JObj [(''agreement_id'', nullable JStr (pp_agreement_id r)),
     (''buckets'', JArr (map provider_row_json (pp_buckets r))), (''id'', JStr (pp_id r))]"

definition report_json :: "report \<Rightarrow> json" where
  "report_json r = JObj [(''bucket'', JStr (rp_bucket r)), (''generated_at'', JStr (rp_generated_at r)),
     (''lb'', nullable JStr (rp_lb r)), (''lb_outcomes'', JArr (map lb_row_json (rp_lb_outcomes r))),
     (''providers'', JArr (map provider_report_json (rp_providers r))), (''since'', JStr (rp_since r))]"

definition json_ok :: "json \<Rightarrow> response" where
  "json_ok j = \<lparr>rs_status = 200, rs_body = JsonBody j\<rparr>"

section \<open>Requests\<close>

text \<open>
  \<open>rq_read\<close> is the body as far as it could be read under the size limit, \<open>rq_json\<close> what the
  framework's JSON extractor makes of it, \<open>rq_since\<close> the query's parameter.
\<close>

record http_request =
  rq_method :: string
  rq_path :: "string list"
  rq_since :: "string option"
  rq_read :: "response + bytes"
  rq_json :: "string + json"

section \<open>The public listener\<close>

text \<open>The CORS layer answers every \<open>OPTIONS\<close> before the routes are looked at.\<close>

definition public_router ::
  "libs \<Rightarrow> proxy_config \<Rightarrow> u32 \<Rightarrow> response \<Rightarrow> http_request \<Rightarrow> instant \<Rightarrow> (nat \<Rightarrow> moment) \<Rightarrow> instant \<Rightarrow> pool \<Rightarrow>
     response \<times> pool \<times> tried list" where
  "public_router L cfg flip_after preflight rq started env ended pool =
     (if rq_method rq = ''OPTIONS'' then (preflight, pool, [])
      else if rq_path rq \<noteq> [] then (not_found, pool, [])
      else if rq_method rq = ''POST'' then handle L cfg flip_after (rq_read rq) started env ended pool
      else (method_not_allowed, pool, []))"

section \<open>The admin listener\<close>

record 'w admin_state =
  as_pool :: "'w \<Rightarrow> pool"
  as_ready :: "'w \<Rightarrow> bool"
  as_cap :: nat
  as_attempt_timeout :: duration
  as_agreements :: "(('w \<Rightarrow> entity_key \<Rightarrow> agreement stored option) \<times> (agreement stored \<Rightarrow> 'w \<Rightarrow> 'w)) option"
  as_stats :: "'w \<Rightarrow> stats"
  as_lb_address :: "string option"

definition framework_not_found :: response where
  "framework_not_found = \<lparr>rs_status = 404, rs_body = RawBody []\<rparr>"

definition framework_not_allowed :: response where
  "framework_not_allowed = \<lparr>rs_status = 405, rs_body = RawBody []\<rparr>"

text \<open>A route that takes \<open>GET\<close> answers a \<open>HEAD\<close> as well, without the body.\<close>

definition get_route :: "string \<Rightarrow> response \<Rightarrow> response" where
  "get_route method answer =
     (if method = ''GET'' then answer
      else if method = ''HEAD'' then answer\<lparr>rs_body := RawBody []\<rparr>
      else framework_not_allowed)"

definition stats_response ::
  "(string \<Rightarrow> u64 option) \<Rightarrow> (u64 \<Rightarrow> string) \<Rightarrow> u64 \<Rightarrow> string option \<Rightarrow> string option \<Rightarrow> stats \<Rightarrow> response" where
  "stats_response parse_iso show_time now lb since stats =
     (case stats_route parse_iso show_time now lb since stats of Inl refusal \<Rightarrow> refusal | Inr r \<Rightarrow> json_ok (report_json r))"

text \<open>The routes; the admission route exists only with the marketplace.\<close>

datatype admin_route = HealthRoute | NodesRoute | StatsRoute | NodeRoute string | AdmissionRoute | NoRoute

definition admin_route_of :: "bool \<Rightarrow> string list \<Rightarrow> admin_route" where
  "admin_route_of marketplace path =
     (case path of
        [route] \<Rightarrow>
          (if route = ''health'' then HealthRoute
           else if route = ''nodes'' then NodesRoute
           else if route = ''stats'' then StatsRoute
           else if route = ''admission'' \<and> marketplace then AdmissionRoute
           else NoRoute)
      | [route, ident] \<Rightarrow> (if route = ''node'' \<and> ident \<noteq> [] then NodeRoute ident else NoRoute)
      | _ \<Rightarrow> NoRoute)"

definition admin_router ::
  "libs \<Rightarrow> (string \<Rightarrow> u64 option) \<Rightarrow> (u64 \<Rightarrow> string) \<Rightarrow> string \<Rightarrow> (url \<Rightarrow> bytes \<Rightarrow> duration \<Rightarrow> exchange) \<Rightarrow> u64 \<Rightarrow>
     'w admin_state \<Rightarrow> http_request \<Rightarrow> 'w \<Rightarrow> response \<times> 'w" where
  "admin_router L parse_iso show_time bad_content wire now st rq w =
     (let posted = (rq_method rq = ''POST'')
      in case admin_route_of (as_agreements st \<noteq> None) (rq_path rq) of
           HealthRoute \<Rightarrow> (get_route (rq_method rq) (health_route (as_ready st w)), w)
         | NodesRoute \<Rightarrow>
             (get_route (rq_method rq) (json_ok (JArr (map node_view_json (nodes_route L (as_pool st w))))), w)
         | StatsRoute \<Rightarrow>
             (get_route (rq_method rq)
                (stats_response parse_iso show_time now (as_lb_address st) (rq_since rq) (as_stats st w)), w)
         | NodeRoute ident \<Rightarrow>
             (if posted then forward_to_node L (as_cap st) (as_attempt_timeout st) wire ident (rq_read rq) (as_pool st w)
              else framework_not_allowed, w)
         | AdmissionRoute \<Rightarrow>
             (case as_agreements st of
                Some (lookup, admitted) \<Rightarrow>
                  (if posted then admission_route L (lookup w) admitted bad_content (rq_json rq) w
                   else (framework_not_allowed, w))
              | None \<Rightarrow> (framework_not_found, w))
         | NoRoute \<Rightarrow> (framework_not_found, w))"

lemma admin_route_admission: "admin_route_of marketplace path = AdmissionRoute \<longleftrightarrow> marketplace \<and> path = [''admission'']"
proof (cases path)
  case (Cons route path)
  then show ?thesis by (cases path) (auto simp: admin_route_of_def split: list.split)
qed (simp add: admin_route_of_def)

section \<open>What the listeners change\<close>

lemma admission_route_acts:
  assumes "admission_route L look_up admitted bad_content body w = (answer, w')" and "w' \<noteq> w"
  obtains token port name where "answer = unchange" "w' = admitted (the (look_up (tk_agreement token))) w"
    "decide_admission L (NewProxy port name) token (look_up (tk_agreement token)) = Inr ()"
proof (cases body)
  case (Inl why)
  with assms show thesis by (simp add: admission_route_def)
next
  case (Inr v)
  show thesis
  proof (cases "frps_parse v")
    case None
    with assms Inr show thesis by (simp add: admission_route_def)
  next
    case (Some c)
    obtain op_name content where c: "c = (op_name, content)" by (cases c)
    define known where "known = (\<not> (op_name \<noteq> ''Login'' \<and> op_name \<noteq> ''NewProxy''))"
    define parsed where "parsed = (if op_name = ''Login'' then login_parse content else new_proxy_parse content)"
    note step = assms(1) [unfolded admission_route_def Inr sum.case Some c option.case prod.case, folded parsed_def]
    have known: known
    proof (rule ccontr)
      assume "\<not> known"
      from step [unfolded if_P [OF this [unfolded known_def not_not]]] assms(2) show False by simp
    qed
    note step = step [unfolded if_not_P [OF known [unfolded known_def]]]
    show thesis
    proof (cases parsed)
      case None
      with step assms(2) show thesis by simp
    next
      case (Some x)
      obtain op agreement token who where x: "x = (op, (agreement, token), who)" by (cases x) auto
      note step = step [unfolded Some x option.case prod.case Let_def]
      show thesis
      proof (cases "token_parse L agreement token")
        case (Inl r)
        with step assms(2) show thesis by simp
      next
        case (Inr t)
        with step assms(2) that [of t] show thesis
          by (auto split: sum.splits op.splits)
      qed
    qed
  qed
qed

text \<open>
  C27. The admin surface touches nothing. A request on the admin listener changes the state in one
  case only: a callback posted to the admission route, with the marketplace on, that registers a
  proxy its agreement's provider signed for, at the agreement's port; then the admission of that
  agreement is started and nothing else happens. And the public listener tries a provider, or
  changes the pool, only for a POST to the root path.
\<close>

theorem only_admission_and_posts_act:
  assumes "admin_router L parse_iso show_time bad_content wire now st rq w = (answer, w')"
    and "public_router L cfg flip_after preflight rq' started env ended pool = (answer', pool', trace)"
  shows "(w' = w \<or>
      (rq_method rq = ''POST'' \<and> rq_path rq = [''admission''] \<and> answer = unchange \<and>
       (\<exists>lookup admitted token stored port. as_agreements st = Some (lookup, admitted) \<and>
          lookup w (tk_agreement token) = Some stored \<and>
          decide_admission L (NewProxy port (proxy_name port)) token (Some stored) = Inr () \<and> w' = admitted stored w))) \<and>
    ((pool' = pool \<and> trace = []) \<or> (rq_method rq' = ''POST'' \<and> rq_path rq' = []))"
proof
  show "w' = w \<or>
      (rq_method rq = ''POST'' \<and> rq_path rq = [''admission''] \<and> answer = unchange \<and>
       (\<exists>lookup admitted token stored port. as_agreements st = Some (lookup, admitted) \<and>
          lookup w (tk_agreement token) = Some stored \<and>
          decide_admission L (NewProxy port (proxy_name port)) token (Some stored) = Inr () \<and> w' = admitted stored w))"
  proof (cases "w' = w")
    case False
    with assms(1) have route: "admin_route_of (as_agreements st \<noteq> None) (rq_path rq) = AdmissionRoute"
      by (cases "admin_route_of (as_agreements st \<noteq> None) (rq_path rq)") (simp_all add: admin_router_def Let_def)
    then have path: "rq_path rq = [''admission'']" by (simp only: admin_route_admission)
    from route obtain lookup admitted where m: "as_agreements st = Some (lookup, admitted)"
      by (cases "as_agreements st") (auto simp: admin_route_admission)
    with assms(1) route False have r: "rq_method rq = ''POST''"
      "admission_route L (lookup w) admitted bad_content (rq_json rq) w = (answer, w')"
      by (auto simp: admin_router_def Let_def split: if_splits)
    from admission_route_acts [OF r(2) False] obtain token port name where d: "answer = unchange"
      "w' = admitted (the (lookup w (tk_agreement token))) w"
      "decide_admission L (NewProxy port name) token (lookup w (tk_agreement token)) = Inr ()" .
    from d(3) obtain stored where s: "lookup w (tk_agreement token) = Some stored" "name = proxy_name port"
      by (auto simp: decide_Inr)
    with path m r d show ?thesis by auto
  qed simp
  show "(pool' = pool \<and> trace = []) \<or> (rq_method rq' = ''POST'' \<and> rq_path rq' = [])"
    using assms(2) by (auto simp: public_router_def split: if_splits)
qed

lemma only_admission_and_posts_act_witness:
  "snd (admin_router std_libs (\<lambda>_. None) (\<lambda>_. []) [] (\<lambda>_ _ _. Inl TransportError) 0
       \<lparr>as_pool = (\<lambda>w. w), as_ready = (\<lambda>_. True), as_cap = 10, as_attempt_timeout = 5, as_agreements = None,
        as_stats = (\<lambda>_. stats_empty), as_lb_address = None\<rparr>
       \<lparr>rq_method = ''POST'', rq_path = [''node'', ''a''], rq_since = None, rq_read = Inr [123], rq_json = Inl []\<rparr>
       three_entries) = three_entries"
proof -
  let ?st = "\<lparr>as_pool = (\<lambda>w :: pool. w), as_ready = (\<lambda>_. True), as_cap = 10, as_attempt_timeout = 5, as_agreements = None,
        as_stats = (\<lambda>_. stats_empty), as_lb_address = None\<rparr>"
  let ?rq = "\<lparr>rq_method = ''POST'', rq_path = [''node'', ''a''], rq_since = None, rq_read = Inr [123], rq_json = Inl []\<rparr>"
  obtain answer w' where a: "admin_router std_libs (\<lambda>_. None) (\<lambda>_. []) [] (\<lambda>_ _ _. Inl TransportError) 0 ?st ?rq three_entries =
      (answer, w')" by (metis surj_pair)
  obtain answer' pool' trace where p: "public_router std_libs proxy_default 3 not_found ?rq 0 slow_then_fine 0 three_entries =
      (answer', pool', trace)" by (metis prod_cases3)
  from only_admission_and_posts_act [OF a p] a show ?thesis by simp
qed

end
