(* ===== verification/Stage.thy ===== *)
theory Stage
  imports Rig Routes
begin

text \<open>
  What the rig's scenarios are made of (\<open>crates/rig/src/main.rs\<close>, \<open>writer.rs\<close>): the stage a
  scenario acts on, the waits, the rows of \<open>/nodes\<close> it reads, the processes it starts and takes
  down. A stage is a record of what a scenario can do to the outside; each act takes the world and
  returns it. An assertion or an \<open>expect\<close> that fails is \<open>Panicked\<close>.
\<close>

section \<open>Panics\<close>

datatype panic = Panicked

definition ensure :: "bool \<Rightarrow> 'w \<Rightarrow> 'w \<times> (panic + unit)" where
  "ensure b w = (w, if b then Inr () else Inl Panicked)"

definition expect :: "'a option \<Rightarrow> 'w \<Rightarrow> 'w \<times> (panic + 'a)" where
  "expect x w = (w, case x of None \<Rightarrow> Inl Panicked | Some v \<Rightarrow> Inr v)"

lemma ensure_simps [simp]:
  "sbind (ensure b w) f = (if b then f w () else (w, Inl Panicked))"
  by (simp add: ensure_def)

lemma expect_simps [simp]:
  "sbind (expect (Some v) w) f = f w v" "sbind (expect None w) f = (w, Inl Panicked)"
  by (simp_all add: expect_def)

section \<open>Waits\<close>

text \<open>
  Every wait of the rig has one shape: look, and unless the look says it is over, or the time is
  up, sleep a step and look again. A look may panic by itself.
\<close>

partial_function (option) poll ::
    "('w \<Rightarrow> 'w \<times> (panic + bool)) \<Rightarrow> ('w \<Rightarrow> instant) \<Rightarrow> (duration \<Rightarrow> 'w \<Rightarrow> 'w) \<Rightarrow> duration \<Rightarrow> duration \<Rightarrow> instant \<Rightarrow> 'w \<Rightarrow>
       ('w \<times> (panic + unit)) option" where
  "poll look now sleep timeout pause started w =
     (case look w of
        (w, Inl p) \<Rightarrow> Some (w, Inl p)
      | (w, Inr over) \<Rightarrow>
          (if over then Some (w, Inr ())
           else if now w - started < timeout
           then poll look now sleep timeout pause started (sleep pause w)
           else Some (w, Inl Panicked)))"

section \<open>Reading the admin listener\<close>

text \<open>The row of one provider in a \<open>/nodes\<close> answer.\<close>

definition node_row :: "json \<Rightarrow> string \<Rightarrow> json option" where
  "node_row nodes ident =
     (case nodes of JArr rows \<Rightarrow> find (\<lambda>row. json_at row ''id'' = JStr ident) rows | _ \<Rightarrow> None)"

definition served_counts :: "string list \<Rightarrow> json \<Rightarrow> u64 list option" where
  "served_counts fleet nodes =
     all_some (map (\<lambda>ident. Option.bind (node_row nodes ident) (\<lambda>row. as_u64 (json_at row ''served_total''))) fleet)"

section \<open>The stage\<close>

record 'w stage =
  sg_public :: "json \<Rightarrow> 'w \<Rightarrow> 'w \<times> (nat \<times> json option) option"
  sg_node :: "string \<Rightarrow> json \<Rightarrow> 'w \<Rightarrow> 'w \<times> (nat \<times> json option) option"
  sg_nodes :: "'w \<Rightarrow> 'w \<times> json option"
  sg_stop :: "string \<Rightarrow> 'w \<Rightarrow> 'w \<times> bool"
  sg_start :: "string \<Rightarrow> 'w \<Rightarrow> 'w \<times> bool"
  sg_load :: "duration \<Rightarrow> 'w \<Rightarrow> 'w \<times> load_stats"
  sg_join :: "'w \<Rightarrow> 'w \<times> load_stats"
  sg_spawn_load :: "duration \<Rightarrow> 'w \<Rightarrow> 'w"
  sg_log :: "'w \<Rightarrow> string option"
  sg_relay_stop :: "'w \<Rightarrow> 'w"
  sg_relay_restart :: "lie option \<Rightarrow> 'w \<Rightarrow> 'w"
  sg_now :: "'w \<Rightarrow> instant"
  sg_sleep :: "duration \<Rightarrow> 'w \<Rightarrow> 'w"

definition fetch_nodes :: "'w stage \<Rightarrow> 'w \<Rightarrow> 'w \<times> (panic + json)" where
  "fetch_nodes S w = (let (w, nodes) = sg_nodes S w in expect nodes w)"

definition wait_nodes ::
    "'w stage \<Rightarrow> duration \<Rightarrow> (json \<Rightarrow> bool option) \<Rightarrow> 'w \<Rightarrow> ('w \<times> (panic + unit)) option" where
  "wait_nodes S timeout condition w =
     poll (\<lambda>w. sbind (fetch_nodes S w) (\<lambda>w nodes. expect (condition nodes) w))
       (sg_now S) (sg_sleep S) timeout (200 * 10 ^ 6) (sg_now S w) w"

definition served_now :: "'w stage \<Rightarrow> string list \<Rightarrow> 'w \<Rightarrow> 'w \<times> (panic + u64 list)" where
  "served_now S fleet w = sbind (fetch_nodes S w) (\<lambda>w nodes. expect (served_counts fleet nodes) w)"

text \<open>A condition on one provider's row.\<close>

definition row_has :: "string \<Rightarrow> string \<Rightarrow> json \<Rightarrow> json \<Rightarrow> bool option" where
  "row_has ident k v nodes = map_option (\<lambda>row. json_at row k = v) (node_row nodes ident)"

section \<open>Scenarios\<close>

text \<open>Each from the moment its stack is up; \<open>fleet\<close> is the nodes' ids.\<close>

definition rpc_ask :: "int \<Rightarrow> string \<Rightarrow> json" where
  "rpc_ask ident rpc_method = JObj
     [(''id'', JNum ident), (''jsonrpc'', JStr ''2.0''), (''method'', JStr rpc_method), (''params'', JArr [])]"

definition denylist_run :: "'w stage \<Rightarrow> string list \<Rightarrow> 'w \<Rightarrow> 'w \<times> (panic + unit)" where
  "denylist_run S fleet w =
     (let (w, response) = sg_public S (rpc_ask 7 ''admin_peers'') w
      in sbind (expect response w) (\<lambda>w (status, body).
         sbind (ensure (status = 200) w) (\<lambda>w _.
         sbind (expect body w) (\<lambda>w body.
         sbind (ensure (json_at (json_at body ''error'') ''code'' = JNum (-32050)) w) (\<lambda>w _.
         sbind (ensure (json_at body ''id'' = JNum 7) w) (\<lambda>w _.
           let (w, response) = sg_public S (rpc_ask 8 ''eth_blockNumber'') w
           in sbind (expect response w) (\<lambda>w (_, body).
              sbind (expect body w) (\<lambda>w body.
              sbind (ensure (json_get body ''result'' \<noteq> None) w) (\<lambda>w _.
              sbind (served_now S fleet w) (\<lambda>w served.
                ensure (sum_list served = 1) w))))))))))"

definition distribution_run :: "'w stage \<Rightarrow> string list \<Rightarrow> 'w \<Rightarrow> 'w \<times> (panic + unit)" where
  "distribution_run S fleet w =
     (let (w, stats) = sg_load S (secs 5) w
      in sbind (ensure (ls_failed stats = 0) w) (\<lambda>w _.
         sbind (served_now S fleet w) (\<lambda>w served.
         sbind (ensure (sum_list served = ls_ok stats) w) (\<lambda>w _.
         sbind (ensure (served \<noteq> []) w) (\<lambda>w _.
         sbind (ensure (0 < Min (set served)) w) (\<lambda>w _.
           ensure (Max (set served) \<le> 2 * Min (set served)) w))))))"

text \<open>The rest of a scenario after a wait that may not end.\<close>

definition after_wait ::
    "('w \<times> (panic + unit)) option \<Rightarrow> ('w \<Rightarrow> ('w \<times> (panic + unit)) option) \<Rightarrow> ('w \<times> (panic + unit)) option" where
  "after_wait waited rest =
     Option.bind waited (\<lambda>(w, r). case r of Inl p \<Rightarrow> Some (w, Inl p) | Inr _ \<Rightarrow> rest w)"

definition forward_to_node_run :: "'w stage \<Rightarrow> string list \<Rightarrow> 'w \<Rightarrow> ('w \<times> (panic + unit)) option" where
  "forward_to_node_run S fleet w =
     (case fleet of [] \<Rightarrow> Some (w, Inl Panicked) | victim # _ \<Rightarrow>
      (let question = rpc_ask 9 ''eth_blockNumber''; (w, stopped) = sg_stop S victim w
      in if \<not> stopped then Some (w, Inl Panicked)
         else after_wait (wait_nodes S (secs 30) (row_has victim ''eligible'' (JBool False)) w) (\<lambda>w.
           Some (let (w, response) = sg_node S victim question w
             in sbind (expect response w) (\<lambda>w (status, _).
                sbind (ensure (status = 502) w) (\<lambda>w _.
                  let (w, started) = sg_start S victim w
                  in sbind (ensure started w) (\<lambda>w _.
                     let (w, response) = sg_node S victim question w
                     in sbind (expect response w) (\<lambda>w (status, body).
                        sbind (ensure (status = 200) w) (\<lambda>w _.
                        sbind (expect body w) (\<lambda>w body.
                        sbind (ensure (json_get body ''result'' \<noteq> None) w) (\<lambda>w _.
                        sbind (ensure (json_at body ''id'' = JNum 9) w) (\<lambda>w _.
                        sbind (fetch_nodes S w) (\<lambda>w nodes.
                        sbind (expect (row_has victim ''eligible'' (JBool False) nodes) w) (\<lambda>w out.
                        sbind (ensure out w) (\<lambda>w _.
                        sbind (served_now S fleet w) (\<lambda>w served.
                          ensure (sum_list served = 0) w))))))))))))))))"

definition kill_recover_run :: "'w stage \<Rightarrow> string list \<Rightarrow> 'w \<Rightarrow> ('w \<times> (panic + unit)) option" where
  "kill_recover_run S fleet w =
     (case fleet of [] \<Rightarrow> Some (w, Inl Panicked) | victim # _ \<Rightarrow>
      (let w = sg_sleep S (secs 2) (sg_spawn_load S (secs 15) w); (w, stopped) = sg_stop S victim w
      in if \<not> stopped then Some (w, Inl Panicked)
         else after_wait (wait_nodes S (secs 30) (row_has victim ''eligible'' (JBool False)) w) (\<lambda>w.
           let (w, stats) = sg_join S w
           in if \<not> (ls_failed stats = 0 \<and> 0 < ls_sent stats) then Some (w, Inl Panicked)
              else let (w, started) = sg_start S victim w
                   in if \<not> started then Some (w, Inl Panicked)
                      else wait_nodes S (secs 120) (row_has victim ''eligible'' (JBool True)) w)))"

text \<open>The integrity scenarios, from the moment their load balancer is ready.\<close>

definition contains_text :: "string \<Rightarrow> string \<Rightarrow> bool" where
  "contains_text part t \<longleftrightarrow> list_ex (\<lambda>i. starts_with part (drop i t)) [0..<Suc (length t)]"

definition evidence_line :: "string \<Rightarrow> string \<Rightarrow> bool" where
  "evidence_line read line \<longleftrightarrow> contains_text ''divergence confirmed'' line \<and> contains_text ''provider=liar'' line \<and>
     contains_text (''check='' @ [CHR 0x22] @ read @ [CHR 0x22]) line"

definition honest_ids :: "string list" where
  "honest_ids = [''honest-0'', ''honest-1'']"

text \<open>Whether all of these rows have the field's value; a row that is missing is a panic.\<close>

fun rows_have :: "string list \<Rightarrow> string \<Rightarrow> json \<Rightarrow> json \<Rightarrow> bool option" where
  "rows_have [] k v nodes = Some True"
| "rows_have (ident # idents) k v nodes =
     Option.bind (row_has ident k v nodes) (\<lambda>has. if has then rows_have idents k v nodes else Some False)"

definition liar_run :: "'w stage \<Rightarrow> string \<Rightarrow> 'w \<Rightarrow> ('w \<times> (panic + unit)) option" where
  "liar_run S read w =
     after_wait (wait_nodes S (secs 90) (row_has ''liar'' ''integrity_verdict'' (JStr ''divergence'')) w) (\<lambda>w. Some
       (sbind (fetch_nodes S w) (\<lambda>w nodes.
        sbind (expect (node_row nodes ''liar'') w) (\<lambda>w liar.
        sbind (ensure (json_at liar ''eligible'' = JBool False) w) (\<lambda>w _.
        sbind (ensure (json_at liar ''ineligibility_reason'' = JStr ''integrity'') w) (\<lambda>w _.
        sbind (expect (rows_have honest_ids ''integrity_verdict'' (JStr ''match'') nodes) w) (\<lambda>w matched.
        sbind (ensure matched w) (\<lambda>w _.
        sbind (expect (rows_have honest_ids ''eligible'' (JBool True) nodes) w) (\<lambda>w serving.
        sbind (ensure serving w) (\<lambda>w _.
        sbind (expect (sg_log S w) w) (\<lambda>w log.
        sbind (ensure (list_ex (evidence_line read) (text_lines log)) w) (\<lambda>w _.
          let served_before = json_at liar ''served_total''; (w, stats) = sg_load S (secs 3) w
          in sbind (ensure (ls_failed stats = 0 \<and> 0 < ls_ok stats) w) (\<lambda>w _.
             sbind (fetch_nodes S w) (\<lambda>w nodes.
             sbind (expect (node_row nodes ''liar'') w) (\<lambda>w liar.
               ensure (json_at liar ''served_total'' = served_before) w)))))))))))))))"

definition frozen_head_run :: "'w stage \<Rightarrow> 'w \<Rightarrow> ('w \<times> (panic + unit)) option" where
  "frozen_head_run S w =
     after_wait (Some (sbind (fetch_nodes S w) (\<lambda>w nodes.
         sbind (expect (row_has ''stuck'' ''eligible'' (JBool True) nodes) w) (\<lambda>w serving. ensure serving w)))) (\<lambda>w.
     after_wait (wait_nodes S (secs 90) (row_has ''stuck'' ''ineligibility_reason'' (JStr ''lag''))
         (sg_relay_restart S (Some FrozenHeadLie) w)) (\<lambda>w.
     after_wait (Some (sbind (fetch_nodes S w) (\<lambda>w nodes.
         sbind (expect (row_has ''stuck'' ''integrity_verdict'' (JStr ''divergence'') nodes) w) (\<lambda>w lying.
         sbind (ensure (\<not> lying) w) (\<lambda>w _.
         sbind (expect (rows_have honest_ids ''eligible'' (JBool True) nodes) w) (\<lambda>w serving. ensure serving w)))))) (\<lambda>w.
     after_wait (wait_nodes S (secs 90) (row_has ''stuck'' ''eligible'' (JBool True)) (sg_relay_restart S None w)) (\<lambda>w. Some
       (sbind (fetch_nodes S w) (\<lambda>w nodes.
        sbind (expect (row_has ''stuck'' ''integrity_verdict'' (JStr ''divergence'') nodes) w) (\<lambda>w lying.
          ensure (\<not> lying) w)))))))"

text \<open>The height the first honest provider was judged at; a row without one sorts before every height.\<close>

definition judged_at :: "json \<Rightarrow> u64 option option" where
  "judged_at nodes = map_option (\<lambda>row. as_u64 (json_at row ''integrity_height'')) (node_row nodes ''honest-0'')"

fun height_after :: "u64 option \<Rightarrow> u64 option \<Rightarrow> bool" where
  "height_after None _ = False"
| "height_after (Some h) None = True"
| "height_after (Some h) (Some h') = (h' < h)"

definition reference_down_run :: "'w stage \<Rightarrow> 'w \<Rightarrow> ('w \<times> (panic + unit)) option" where
  "reference_down_run S w =
     after_wait (wait_nodes S (secs 60) (rows_have honest_ids ''integrity_verdict'' (JStr ''match'')) w) (\<lambda>w.
       case sbind (fetch_nodes S w) (\<lambda>w nodes. expect (judged_at nodes) w) of
         (w, Inl p) \<Rightarrow> Some (w, Inl p)
       | (w, Inr before) \<Rightarrow>
           after_wait (Some (sbind (fetch_nodes S (sg_sleep S (secs 15) (sg_relay_stop S w))) (\<lambda>w nodes.
             sbind (expect (rows_have honest_ids ''eligible'' (JBool True) nodes) w) (\<lambda>w serving.
             sbind (ensure serving w) (\<lambda>w _.
             sbind (expect (rows_have honest_ids ''integrity_verdict'' (JStr ''match'') nodes) w) (\<lambda>w matched.
             sbind (ensure matched w) (\<lambda>w _.
             sbind (expect (judged_at nodes) w) (\<lambda>w height.
             sbind (ensure (height = before) w) (\<lambda>w _.
             sbind (expect (sg_log S w) w) (\<lambda>w log.
               ensure (contains_text ''the reference could not be read, nobody is judged'' log) w)))))))))) (\<lambda>w.
           after_wait (wait_nodes S (secs 60)
               (\<lambda>nodes. map_option (\<lambda>height. height_after height before) (judged_at nodes)) (sg_relay_restart S None w)) (\<lambda>w. Some
             (sbind (fetch_nodes S w) (\<lambda>w nodes.
              sbind (expect (rows_have honest_ids ''integrity_verdict'' (JStr ''match'') nodes) w) (\<lambda>w matched.
                ensure matched w))))))"

section \<open>Processes\<close>

text \<open>The load balancer's process: whether it has exited, the two signals, the clock.\<close>

record 'w process =
  ps_exited :: "'w \<Rightarrow> 'w \<times> bool"
  ps_terminate :: "'w \<Rightarrow> 'w"
  ps_kill :: "'w \<Rightarrow> 'w"
  ps_now :: "'w \<Rightarrow> instant"
  ps_sleep :: "duration \<Rightarrow> 'w \<Rightarrow> 'w"

definition READY_TIMEOUT :: duration where
  "READY_TIMEOUT = secs 120"

text \<open>\<open>health\<close> is what the health route answers, when it answers JSON.\<close>

definition wait_ready :: "'w process \<Rightarrow> ('w \<Rightarrow> 'w \<times> json option) \<Rightarrow> 'w \<Rightarrow> ('w \<times> (panic + unit)) option" where
  "wait_ready P health w =
     poll (\<lambda>w. let (w, gone) = ps_exited P w
               in if gone then (w, Inl Panicked)
                  else let (w, answer) = health w
                       in (w, Inr (case answer of None \<Rightarrow> False | Some body \<Rightarrow> json_at body ''ready'' = JBool True)))
       (ps_now P) (ps_sleep P) READY_TIMEOUT (500 * 10 ^ 6) (ps_now P w) w"

partial_function (option) lb_drain :: "'w process \<Rightarrow> instant \<Rightarrow> 'w \<Rightarrow> 'w option" where
  "lb_drain P deadline w =
     (if ps_now P w < deadline
      then (let (w, gone) = ps_exited P w
            in if gone then Some w else lb_drain P deadline (ps_sleep P (50 * 10 ^ 6) w))
      else Some (ps_kill P w))"

definition lb_drop :: "'w process \<Rightarrow> 'w \<Rightarrow> 'w option" where
  "lb_drop P w = (let w = ps_terminate P w in lb_drain P (ps_now P w + secs 10) w)"

text \<open>
  The sidecar: its key file and its process. The handle exists once the process is spawned, so what
  fails before leaves the key file, and what fails after drops the handle.
\<close>

record sidecar =
  sc_key :: bool
  sc_up :: bool

definition writer_drop :: "sidecar \<Rightarrow> sidecar" where
  "writer_drop s = s\<lparr>sc_up := False, sc_key := False\<rparr>"

definition writer_start :: "bool \<Rightarrow> bool \<Rightarrow> panic + unit \<Rightarrow> u16 \<Rightarrow> sidecar \<Rightarrow> sidecar \<times> string option" where
  "writer_start log_opens spawns identity port s =
     (let s = s\<lparr>sc_key := True\<rparr>
      in if \<not> log_opens \<or> \<not> spawns then (s, None)
         else let s = s\<lparr>sc_up := True\<rparr>
              in case identity of
                   Inl _ \<Rightarrow> (writer_drop s, None)
                 | Inr _ \<Rightarrow> (s, Some (''http://127.0.0.1:'' @ dec_word port @ ''/'')))"

section \<open>Configurations\<close>

definition quoted :: "string \<Rightarrow> string" where
  "quoted t = [CHR 0x22] @ t @ [CHR 0x22]"

definition text_block :: "string list \<Rightarrow> string" where
  "text_block ls = concat (map (\<lambda>l. l @ [CHR 0x0A]) ls)"

definition provider_block :: "string \<times> string \<Rightarrow> string" where
  "provider_block p = text_block [[], ''[[providers]]'', ''id = '' @ quoted (fst p), ''url = '' @ quoted (snd p)]"

text \<open>\<open>header\<close> is the comment line on top.\<close>

definition render_config :: "string \<Rightarrow> u64 \<Rightarrow> (string \<times> string) list \<Rightarrow> string" where
  "render_config header chain_id nodes =
     text_block [header, ''[listen]'', ''public = '' @ quoted ''127.0.0.1:18700'', ''admin = '' @ quoted ''127.0.0.1:18701'',
       [], ''[health]'', ''chain_id = '' @ dec_word chain_id] @ concat (map provider_block nodes)"

definition render_marketplace_config ::
    "string \<Rightarrow> u64 \<Rightarrow> (string \<times> string) list \<Rightarrow> string \<Rightarrow> string \<Rightarrow> string \<Rightarrow> string \<Rightarrow> string" where
  "render_marketplace_config header chain_id providers writer_url health marketplace rest =
     text_block [header, ''[listen]'', ''public = '' @ quoted ''127.0.0.1:18700'', ''admin = '' @ quoted ''127.0.0.1:18701'',
       [], ''[health]'', ''chain_id = '' @ dec_word chain_id] @
     text_block [health, ''[marketplace]'', ''writer_url = '' @ quoted writer_url,
       ''wei_per_call = '' @ quoted ''1000000000000000'', ''tunnel_server = '' @ quoted ''127.0.0.1:7000''] @
     text_block [marketplace] @ rest @ concat (map provider_block providers)"

section \<open>Every wait ends\<close>

text \<open>What is asked of the clock: a sleep takes its time, and a look does not set it back.\<close>

definition moves_on :: "('w \<Rightarrow> instant) \<Rightarrow> (duration \<Rightarrow> 'w \<Rightarrow> 'w) \<Rightarrow> ('w \<Rightarrow> 'w \<times> 'a) \<Rightarrow> bool" where
  "moves_on now sleep look \<longleftrightarrow> (\<forall>w d. now w + d \<le> now (sleep d w)) \<and> (\<forall>w. now w \<le> now (fst (look w)))"

lemma poll_ends:
  assumes "moves_on now sleep look" and "0 < pause" and "started \<le> now w"
  shows "\<exists>w' r. poll look now sleep timeout pause started w = Some (w', r) \<and>
    (case r of Inr _ \<Rightarrow> \<exists>v. look v = (w', Inr True) | Inl _ \<Rightarrow> (\<exists>v p. look v = (w', Inl p)) \<or> started + timeout \<le> now w')"
  using assms(3)
proof (induction "started + timeout - now w" arbitrary: w rule: less_induct)
  case less
  obtain w1 r where l: "look w = (w1, r)" by (cases "look w")
  from assms(1) have later: "now w \<le> now w1" "now w1 + pause \<le> now (sleep pause w1)"
    using l by (auto simp: moves_on_def dest: spec [of _ w])
  show ?case
  proof (cases r)
    case (Inl p)
    with l show ?thesis by (subst poll.simps) auto
  next
    case (Inr over)
    show ?thesis
    proof (cases "over \<or> started + timeout \<le> now w1")
      case True
      with l Inr less.prems later(1) show ?thesis by (subst poll.simps) auto
    next
      case False
      then have again: "now w1 - started < timeout" "\<not> over" using less.prems later(1) by auto
      have "started + timeout - now (sleep pause w1) < started + timeout - now w"
        using later False assms(2) by linarith
      moreover have "started \<le> now (sleep pause w1)" using later less.prems by linarith
      ultimately show ?thesis
        using less.hyps [of "sleep pause w1"] l Inr again by (subst poll.simps) simp
    qed
  qed
qed

lemma lb_drop_ends:
  assumes "moves_on (ps_now P) (ps_sleep P) (ps_exited P)"
    and "\<And>w w'. ps_exited P w = (w', True) \<Longrightarrow> \<not> up w'" and "\<And>w. \<not> up (ps_kill P w)"
  shows "\<exists>w'. lb_drop P w = Some w' \<and> \<not> up w'"
proof -
  have "\<exists>x'. lb_drain P deadline v = Some x' \<and> \<not> up x'" for deadline v
  proof (induction "deadline - ps_now P v" arbitrary: v rule: less_induct)
    case less
    obtain v1 gone where e: "ps_exited P v = (v1, gone)" by (cases "ps_exited P v")
    let ?v = "ps_sleep P (50 * 10 ^ 6) v1"
    from assms(1) e have "ps_now P v \<le> ps_now P v1" "ps_now P v1 + 50 * 10 ^ 6 \<le> ps_now P ?v"
      by (metis fst_conv moves_on_def)+
    then have "deadline - ps_now P ?v < deadline - ps_now P v" if "ps_now P v < deadline" using that by simp
    with less assms(2,3) e show ?case by (subst lb_drain.simps) (auto simp: Let_def)
  qed
  then show ?thesis by (simp add: lb_drop_def Let_def)
qed

lemma wait_ready_ends:
  assumes "moves_on (ps_now P) (ps_sleep P) (ps_exited P)" and "\<And>w. ps_now P w \<le> ps_now P (fst (health w))"
  shows "\<exists>w' r. wait_ready P health x = Some (w', r)"
proof -
  let ?look = "\<lambda>w. let (w, gone) = ps_exited P w
               in if gone then (w, Inl Panicked)
                  else let (w, answer) = health w
                       in (w, Inr (case answer of None \<Rightarrow> False | Some body \<Rightarrow> json_at body ''ready'' = JBool True))"
  have "ps_now P v \<le> ps_now P (fst (?look v))" for v
  proof -
    obtain v1 gone where e: "ps_exited P v = (v1, gone)" by (cases "ps_exited P v")
    with assms(1) have "ps_now P v \<le> ps_now P v1" by (metis fst_conv moves_on_def)
    moreover have "ps_now P v1 \<le> ps_now P (fst (health v1))" by (rule assms(2))
    ultimately show ?thesis by (auto simp: e case_prod_beta Let_def)
  qed
  then have "moves_on (ps_now P) (ps_sleep P) ?look" using assms(1) by (simp add: moves_on_def)
  from poll_ends [OF this, of "500 * 10 ^ 6" "ps_now P x" x READY_TIMEOUT]
  show ?thesis by (auto simp: wait_ready_def)
qed

text \<open>
  Every wait of the rig ends, and a load balancer that is dropped is gone. As long as sleeps take
  their time, waiting on \<open>/nodes\<close> or on readiness returns: satisfied by what was then seen, panicked
  in a look, or panicked with its time used up. Dropping the process always returns too, and leaves it
  gone, whether it left on the first signal or had to be killed.
\<close>

theorem rig_waits_end:
  assumes "moves_on (sg_now S) (sg_sleep S) (sg_nodes S)"
    and "moves_on (ps_now P) (ps_sleep P) (ps_exited P)" and "\<And>w. ps_now P w \<le> ps_now P (fst (health w))"
    and "\<And>w w'. ps_exited P w = (w', True) \<Longrightarrow> \<not> up w'" and "\<And>w. \<not> up (ps_kill P w)"
  shows "(\<exists>w' r. wait_nodes S timeout condition w = Some (w', r) \<and>
      (r = Inr () \<longrightarrow> (\<exists>v nodes. sg_nodes S v = (w', Some nodes) \<and> condition nodes = Some True))) \<and>
    wait_ready P health x \<noteq> None \<and>
    (\<exists>x'. lb_drop P x = Some x' \<and> \<not> up x')"
proof (intro conjI)
  let ?look = "\<lambda>w. sbind (fetch_nodes S w) (\<lambda>w nodes. expect (condition nodes) w)"
  have fst_look: "fst (?look v) = fst (sg_nodes S v)" for v
    by (cases "sg_nodes S v"; cases "snd (sg_nodes S v)") (auto simp: fetch_nodes_def expect_def)
  then have "moves_on (sg_now S) (sg_sleep S) ?look" using assms(1) by (simp add: moves_on_def)
  from poll_ends [OF this, of "200 * 10 ^ 6" "sg_now S w" w timeout] obtain w' r where
    p: "wait_nodes S timeout condition w = Some (w', r)"
    "case r of Inr _ \<Rightarrow> \<exists>v. ?look v = (w', Inr True) | Inl _ \<Rightarrow> (\<exists>v p. ?look v = (w', Inl p)) \<or> sg_now S w + timeout \<le> sg_now S w'"
    by (auto simp: wait_nodes_def)
  have "\<exists>v nodes. sg_nodes S v = (w', Some nodes) \<and> condition nodes = Some True" if "r = Inr ()"
  proof -
    from p(2) that obtain v where "?look v = (w', Inr True)" by auto
    then show ?thesis
      by (cases "sg_nodes S v"; cases "snd (sg_nodes S v)") (auto simp: fetch_nodes_def expect_def split: option.splits)
  qed
  with p(1) show "\<exists>w' r. wait_nodes S timeout condition w = Some (w', r) \<and>
      (r = Inr () \<longrightarrow> (\<exists>v nodes. sg_nodes S v = (w', Some nodes) \<and> condition nodes = Some True))" by blast
next
  show "wait_ready P health x \<noteq> None" using wait_ready_ends [OF assms(2,3), of x] by auto
  show "\<exists>x'. lb_drop P x = Some x' \<and> \<not> up x'" by (rule lb_drop_ends [where up = up, OF assms(2,4,5)])
qed

text \<open>A process that ignores the first signal, on a stage whose nodes never change.\<close>

definition stubborn :: "(nat \<times> bool) process" where
  "stubborn = \<lparr>ps_exited = (\<lambda>w. (w, \<not> snd w)), ps_terminate = (\<lambda>w. w), ps_kill = (\<lambda>w. (fst w, False)), ps_now = fst,
     ps_sleep = (\<lambda>d w. (fst w + d, snd w))\<rparr>"

definition still :: "(nat \<times> bool) stage" where
  "still = \<lparr>sg_public = (\<lambda>_ w. (w, None)), sg_node = (\<lambda>_ _ w. (w, None)), sg_nodes = (\<lambda>w. (w, Some (JArr []))),
     sg_stop = (\<lambda>_ w. (w, True)), sg_start = (\<lambda>_ w. (w, True)), sg_load = (\<lambda>_ w. (w, load_default)),
     sg_join = (\<lambda>w. (w, load_default)), sg_spawn_load = (\<lambda>_ w. w), sg_log = (\<lambda>_. None), sg_relay_stop = (\<lambda>w. w),
     sg_relay_restart = (\<lambda>_ w. w), sg_now = fst, sg_sleep = (\<lambda>d w. (fst w + d, snd w))\<rparr>"

lemma rig_waits_end_witness:
  "(\<exists>w' r. wait_nodes still (secs 5) (\<lambda>_. Some False) (0, True) = Some (w', r)) \<and>
   wait_ready stubborn (\<lambda>w. (w, None)) (0, True) \<noteq> None \<and>
   (\<exists>w'. lb_drop stubborn (0, True) = Some w' \<and> \<not> snd w')"
proof -
  have "moves_on (sg_now still) (sg_sleep still) (sg_nodes still)"
    "moves_on (ps_now stubborn) (ps_sleep stubborn) (ps_exited stubborn)"
    by (simp_all add: moves_on_def still_def stubborn_def)
  moreover have "ps_now stubborn w \<le> ps_now stubborn (fst (w, None :: json option))" for w by simp
  moreover have "ps_exited stubborn w = (w', True) \<Longrightarrow> \<not> snd w'" "\<not> snd (ps_kill stubborn w)" for w w'
    by (auto simp: stubborn_def)
  ultimately show ?thesis
    using rig_waits_end [of still stubborn "\<lambda>w. (w, None)" snd "secs 5" "\<lambda>_. Some False" "(0, True)" "(0, True)"] by blast
qed

end
