(* ===== verification/Distribution.thy ===== *)
theory Distribution
  imports Proxy Load
begin

text \<open>
  The public listener and the load generator together: requests handled one after another, what
  the providers are billed for them, and what the generator counts. This is the assertion of the
  rig's scenario \<open>distribution\<close>: every answered request is billed to exactly one provider.
\<close>

record client_request =
  cq_read :: "response + bytes"
  cq_started :: instant
  cq_env :: "nat \<Rightarrow> moment"
  cq_ended :: instant

fun serve_all ::
    "libs \<Rightarrow> proxy_config \<Rightarrow> u32 \<Rightarrow> client_request list \<Rightarrow> pool \<Rightarrow> (response \<times> tried list) list \<times> pool" where
  "serve_all L cfg flip_after [] pool = ([], pool)"
| "serve_all L cfg flip_after (q # qs) pool =
     (let (resp, pool, trace) = handle L cfg flip_after (cq_read q) (cq_started q) (cq_env q) (cq_ended q) pool;
          (rest, pool) = serve_all L cfg flip_after qs pool
      in ((resp, trace) # rest, pool))"

definition answered :: "tried list \<Rightarrow> bool" where
  "answered trace \<longleftrightarrow> trace \<noteq> [] \<and> (case outcome_of (last trace) of Answer _ \<Rightarrow> True | _ \<Rightarrow> False)"

text \<open>While a request waits nobody joins or leaves, and nobody else is served.\<close>

definition calm :: "(nat \<Rightarrow> moment) \<Rightarrow> bool" where
  "calm env \<longleftrightarrow> (\<forall>i pool. pl_members (mo_meanwhile (env i) pool) = pl_members pool \<and>
     (\<forall>r. p_served_total (entry (mo_meanwhile (env i) pool) r) = p_served_total (entry pool r)))"

definition billed :: "pool \<Rightarrow> u64" where
  "billed pool = sum_list (map (\<lambda>r. p_served_total (entry pool r)) (pl_members pool))"

lemma sum_list_one_more:
  fixes f g :: "'a \<Rightarrow> u64"
  assumes "distinct rs" and "r \<in> set rs" and "\<And>x. g x = f x + (if x = r then 1 else 0)"
  shows "sum_list (map g rs) = sum_list (map f rs) + 1"
  using assms(1,2)
proof (induction rs)
  case (Cons x rs)
  show ?case
  proof (cases "x = r")
    case True
    with Cons.prems(1) have same: "map g rs = map f rs" by (auto simp: assms(3))
    show ?thesis by (simp add: assms(3) [of r] True same)
  next
    case False
    with Cons.prems Cons.IH have "sum_list (map g rs) = sum_list (map f rs) + 1" by simp
    with False show ?thesis by (simp add: assms(3) [of x])
  qed
qed simp

lemma billed_calm:
  "calm env \<Longrightarrow> billed (mo_meanwhile (env i) (snd (next_eligible pool))) = billed pool"
  by (simp add: calm_def billed_def)

lemma billed_charge:
  "billed (entry_update r (charge f since out) pool) = billed pool"
  by (auto simp: billed_def intro!: arg_cong [where f = sum_list])

lemma billed_served:
  assumes "distinct (pl_members pool)" and "r \<in> set (pl_members pool)"
  shows "billed (entry_update r (record_served now) pool) = billed pool + 1"
  unfolding billed_def using assms
  by (simp, intro sum_list_one_more [of _ r]) (auto simp: record_served_def record_answer_def)

lemma attempts_loop_billed:
  assumes "attempts_loop L cfg f body deadline env n i pool = (res, pool', trace)"
    and "calm env" and "distinct (pl_members pool)"
  shows "pl_members pool' = pl_members pool \<and> billed pool' = billed pool + (if answered trace then 1 else 0)"
  using assms(1,3)
proof (induction n arbitrary: i pool trace)
  case 0
  then show ?case by (simp add: answered_def)
next
  case (Suc n)
  have members: "pl_members (mo_meanwhile (env i) q) = pl_members q" for q using assms(2) by (simp add: calm_def)
  from Suc.prems(1) show ?case
  proof (cases rule: attempts_loop_cases)
    case (answered r response timeout)
    with Suc.prems(2) next_eligible_Some [of pool r] show ?thesis
      by (simp add: billed_served members billed_calm [OF assms(2)] answered_def outcome_of_def)
  next
    case (again r out timeout rest)
    have "answered trace = answered rest"
      using again(3,4) by (auto simp: answered_def outcome_of_def failed_def)
    with Suc.IH [OF again(5)] Suc.prems(2) show ?thesis
      by (simp add: members billed_charge billed_calm [OF assms(2)])
  qed (auto simp: answered_def outcome_of_def members billed_calm [OF assms(2)], simp_all add: billed_def)
qed

lemma handle_billed:
  assumes "handle L cfg f read started env ended pool = (resp, pool', trace)"
    and "calm env" and "distinct (pl_members pool)"
  shows "pl_members pool' = pl_members pool \<and> billed pool' = billed pool + (if answered trace then 1 else 0)"
proof (cases "check_request L read")
  case (Inl refusal)
  with assms(1) show ?thesis by (simp add: handle_def answered_def)
next
  case (Inr body)
  obtain res pool1 trace1 where l: "attempts_loop L cfg f body (started + xc_request_timeout cfg) env
      (unat (1 + xc_max_retries cfg)) 0 pool = (res, pool1, trace1)" by (metis prod_cases3)
  have "trace1 = trace" "entry pool' = entry pool1" "pl_members pool' = pl_members pool1"
    using assms(1) Inr
    by (auto simp: handle_def forward_with_failover_def l Let_def split: loop_end.splits if_splits)
  moreover from this have "billed pool' = billed pool1" by (simp add: billed_def)
  ultimately show ?thesis using attempts_loop_billed [OF l assms(2,3)] by simp
qed

lemma serve_all_billed:
  assumes "serve_all L cfg f qs pool = (answers, pool')" and "list_all (\<lambda>q. calm (cq_env q)) qs"
    and "distinct (pl_members pool)"
  shows "pl_members pool' = pl_members pool \<and> length answers = length qs \<and>
    billed pool' = billed pool + word_of_nat (length (filter (\<lambda>(_, trace). answered trace) answers))"
  using assms
proof (induction qs arbitrary: pool answers)
  case (Cons q qs)
  obtain resp pool1 trace where h: "handle L cfg f (cq_read q) (cq_started q) (cq_env q) (cq_ended q) pool =
      (resp, pool1, trace)" by (metis prod_cases3)
  obtain rest where s: "serve_all L cfg f qs pool1 = (rest, pool')" "answers = (resp, trace) # rest"
    using Cons.prems(1) by (auto simp: h split: prod.splits)
  from Cons.prems(2) have c: "calm (cq_env q)" "list_all (\<lambda>q. calm (cq_env q)) qs" by simp_all
  note one = handle_billed [OF h c(1) Cons.prems(3)]
  then have "distinct (pl_members pool1)" using Cons.prems(3) by simp
  from Cons.IH [OF s(1) c(2) this] one show ?case by (auto simp: s(2))
qed simp

end
