(* ===== verification/Scenarios.thy ===== *)
theory Scenarios
  imports Stage Distribution
begin

text \<open>
  The rig's scenarios played on the models of the load balancer: the stage is the two listeners over
  one pool, a request on the public one as \<open>public_router\<close> handles it, \<open>/nodes\<close> as the admin
  router answers it. What the load balancer prints as JSON is taken to parse back as it was.
\<close>

section \<open>The stage of the two listeners\<close>

definition reply_json :: "libs \<Rightarrow> response \<Rightarrow> json option" where
  "reply_json L r =
     (case rs_body r of JsonBody j \<Rightarrow> Some j | RawBody b \<Rightarrow> json_from_slice L b | TextBody t \<Rightarrow> json_from_slice L (text_bytes t))"

definition post :: "string list \<Rightarrow> bytes \<Rightarrow> http_request" where
  "post path body = \<lparr>rq_method = ''POST'', rq_path = path, rq_since = None, rq_read = Inr body, rq_json = Inl []\<rparr>"

definition get_request :: "string list \<Rightarrow> http_request" where
  "get_request path = \<lparr>rq_method = ''GET'', rq_path = path, rq_since = None, rq_read = Inr [], rq_json = Inl []\<rparr>"

definition plain_admin :: "nat \<Rightarrow> duration \<Rightarrow> (pool \<times> nat) admin_state" where
  "plain_admin cap attempt_timeout =
     \<lparr>as_pool = fst, as_ready = (\<lambda>_. True), as_cap = cap, as_attempt_timeout = attempt_timeout, as_agreements = None,
      as_stats = (\<lambda>_. stats_empty), as_lb_address = None\<rparr>"

text \<open>The world is the pool with the number of public requests so far, each of which has its own environment.\<close>

definition admin_answer ::
    "libs \<Rightarrow> proxy_config \<Rightarrow> (url \<Rightarrow> bytes \<Rightarrow> duration \<Rightarrow> exchange) \<Rightarrow> http_request \<Rightarrow> pool \<times> nat \<Rightarrow> (pool \<times> nat) \<times> response" where
  "admin_answer L cfg wire rq w =
     (let (resp, w) = admin_router L (\<lambda>_. None) (\<lambda>_. []) [] wire 0
            (plain_admin (unat (xc_max_response_size cfg)) (xc_attempt_timeout cfg)) rq w
      in (w, resp))"

definition public_answer ::
    "libs \<Rightarrow> proxy_config \<Rightarrow> u32 \<Rightarrow> (nat \<Rightarrow> nat \<Rightarrow> moment) \<Rightarrow> json \<Rightarrow> pool \<times> nat \<Rightarrow> (pool \<times> nat) \<times> response" where
  "public_answer L cfg flip_after envs body = (\<lambda>(pool, n).
     let (resp, pool, _) = public_router L cfg flip_after not_found (post [] (json_to_vec L body)) 0 (envs n) 0 pool
     in ((pool, Suc n), resp))"

definition listeners ::
    "libs \<Rightarrow> proxy_config \<Rightarrow> u32 \<Rightarrow> (nat \<Rightarrow> nat \<Rightarrow> moment) \<Rightarrow> (url \<Rightarrow> bytes \<Rightarrow> duration \<Rightarrow> exchange) \<Rightarrow> (pool \<times> nat) stage" where
  "listeners L cfg flip_after envs wire =
     \<lparr>sg_public = (\<lambda>body w. apsnd (\<lambda>resp. Some (rs_status resp, reply_json L resp)) (public_answer L cfg flip_after envs body w)),
      sg_node = (\<lambda>ident body w. apsnd (\<lambda>resp. Some (rs_status resp, reply_json L resp))
        (admin_answer L cfg wire (post [''node'', ident] (json_to_vec L body)) w)),
      sg_nodes = (\<lambda>w. apsnd (reply_json L) (admin_answer L cfg wire (get_request [''nodes'']) w)),
      sg_stop = (\<lambda>_ w. (w, True)), sg_start = (\<lambda>_ w. (w, True)), sg_load = (\<lambda>_ w. (w, load_default)),
      sg_join = (\<lambda>w. (w, load_default)), sg_spawn_load = (\<lambda>_ w. w), sg_log = (\<lambda>_. None), sg_relay_stop = (\<lambda>w. w),
      sg_relay_restart = (\<lambda>_ w. w), sg_now = (\<lambda>_. 0), sg_sleep = (\<lambda>_ w. w)\<rparr>"

section \<open>The rows of \<open>/nodes\<close>\<close>

definition fleet_of :: "pool \<Rightarrow> string list" where
  "fleet_of pool = map (\<lambda>r. p_id (entry pool r)) (pl_members pool)"

lemma listeners_nodes:
  "sg_nodes (listeners L cfg f envs wire) w =
     (w, Some (JArr (map (\<lambda>r. node_view_json (node_view_of L (entry (fst w) r))) (pl_members (fst w)))))"
proof -
  have "admin_route_of False [''nodes''] = NodesRoute" by (simp add: admin_route_of_def)
  then show ?thesis
    by (simp add: listeners_def admin_answer_def admin_router_def get_request_def get_route_def plain_admin_def
        json_ok_def reply_json_def nodes_route_def snapshot_def o_def)
qed

lemma node_view_json_at:
  "json_at (node_view_json v) ''id'' = JStr (nv_id v)"
  "json_at (node_view_json v) ''served_total'' = u64_json (nv_served_total v)"
  by (simp_all add: node_view_json_def json_at_def)

lemma as_u64_json [simp]: "as_u64 (u64_json n) = Some n"
  using uint_bounded [of n] by (simp add: u64_json_def)

lemma served_counts_fleet:
  assumes "distinct (fleet_of pool)"
  shows "served_counts (fleet_of pool)
      (JArr (map (\<lambda>r. node_view_json (node_view_of L (entry pool r))) (pl_members pool))) =
    Some (map (\<lambda>r. p_served_total (entry pool r)) (pl_members pool))"
proof -
  let ?row = "\<lambda>r. node_view_json (node_view_of L (entry pool r))"
  have row: "node_row (JArr (map ?row (pl_members pool))) (p_id (entry pool r)) = Some (?row r)"
    if "r \<in> set (pl_members pool)" for r
  proof -
    have inj: "\<forall>x \<in> set (pl_members pool). p_id (entry pool x) = p_id (entry pool r) \<longrightarrow> x = r"
      using assms that by (auto simp: fleet_of_def distinct_map inj_on_def)
    have "find (\<lambda>row. json_at row ''id'' = JStr (p_id (entry pool r))) (map ?row rs) = Some (?row r)"
      if "r \<in> set rs" "\<forall>x \<in> set rs. p_id (entry pool x) = p_id (entry pool r) \<longrightarrow> x = r" for rs
      using that by (induction rs) (auto simp: node_view_json_at node_view_of_def)
    from this [OF that inj] show ?thesis by (simp add: node_row_def)
  qed
  have "all_some (map (\<lambda>r. Option.bind (node_row (JArr (map ?row (pl_members pool))) (p_id (entry pool r)))
        (\<lambda>row. as_u64 (json_at row ''served_total''))) rs) = Some (map (\<lambda>r. p_served_total (entry pool r)) rs)"
    if "set rs \<subseteq> set (pl_members pool)" for rs
    using that
  proof (induction rs)
    case (Cons r rs)
    then have "r \<in> set (pl_members pool)" by simp
    with Cons show ?case by (simp add: row node_view_json_at) (simp add: node_view_of_def)
  qed simp
  from this [of "pl_members pool"] show ?thesis by (simp add: served_counts_def fleet_of_def o_def)
qed

section \<open>The denylist\<close>

definition names_kept :: "(nat \<Rightarrow> moment) \<Rightarrow> bool" where
  "names_kept env \<longleftrightarrow> (\<forall>i pool r. p_id (entry (mo_meanwhile (env i) pool) r) = p_id (entry pool r))"

lemma denied_request:
  assumes "looks_like_json (json_to_vec L question)" and "denied (json_to_vec L question) \<noteq> None"
    and "json_from_slice L (json_to_vec L question) = Some question"
  obtains resp where "public_answer L cfg f envs question (pool, n) = ((pool, Suc n), resp)" "rs_status resp = 200"
    "\<exists>j. reply_json L resp = Some j \<and> json_at (json_at j ''error'') ''code'' = JNum (-32050) \<and>
       json_at j ''id'' = json_at question ''id''"
proof -
  from assms(2) obtain name where name: "denied (json_to_vec L question) = Some name" by blast
  have "check_request L (Inr (json_to_vec L question)) =
      Inl (lb_error L 200 METHOD_DENIED (''method not supported: '' @ name) (json_to_vec L question))"
    using assms(1) name by (simp add: check_request_def)
  then have "public_answer L cfg f envs question (pool, n) = ((pool, Suc n),
      lb_error L 200 METHOD_DENIED (''method not supported: '' @ name) (json_to_vec L question))"
    by (simp add: public_answer_def public_router_def post_def handle_def)
  then show thesis
    by (rule that) (simp_all add: lb_error_def reply_json_def error_response_def json_at_def METHOD_DENIED_def
        extract_id_def assms(3) json_at_def)
qed

lemma first_answer:
  assumes "looks_like_json body" and "denied body = None"
    and "\<exists>r \<in> set (pl_members pool). eligible (entry pool r)" and "1 + xc_max_retries cfg \<noteq> 0"
    and "mo_checked (env 0) < xc_request_timeout cfg"
    and "\<forall>url timeout. attempt L (unat (xc_max_response_size cfg)) (mo_exchange (env 0) url body timeout) = Answer answer"
    and "calm env" and "names_kept env" and "distinct (pl_members pool)"
  obtains pool' trace where "handle L cfg f (Inr body) 0 env 0 pool = (answer, pool', trace)" "answered trace"
    "fleet_of pool' = fleet_of pool" "billed pool' = billed pool + 1" "pl_members pool' = pl_members pool"
proof -
  from assms(3) next_eligible_None [of pool] obtain r where r: "fst (next_eligible pool) = Some r" by fastforce
  let ?pool = "entry_update r (record_served (mo_ended (env 0))) (mo_meanwhile (env 0) (snd (next_eligible pool)))"
  let ?trace = "[(r, Answer answer, min (xc_request_timeout cfg - mo_checked (env 0)) (xc_attempt_timeout cfg))]"
  obtain m where m: "unat (1 + xc_max_retries cfg) = Suc m"
    using assms(4) by (metis not0_implies_Suc unat_eq_zero)
  have "attempts_loop L cfg f body (0 + xc_request_timeout cfg) env (Suc m) 0 pool = (Returned answer, ?pool, ?trace)"
    using assms(5,6) r by (simp add: case_prod_beta Let_def)
  then have h: "handle L cfg f (Inr body) 0 env 0 pool = (answer, ?pool, ?trace)"
    using assms(1,2) m by (simp add: handle_def check_request_def forward_with_failover_def Let_def)
  note b = handle_billed [OF h assms(7,9)]
  have "p_id (entry ?pool x) = p_id (entry pool x)" for x
    using assms(8) next_eligible_fields(3) [of pool]
    by (simp add: names_kept_def record_served_def record_answer_def)
  with b have "fleet_of ?pool = fleet_of pool" by (simp add: fleet_of_def)
  with h b show thesis by (intro that [of ?pool ?trace]) (simp_all add: answered_def outcome_of_def)
qed


text \<open>One idle node in rotation, and a printer that gives the two requests their texts.\<close>

definition idle_pool :: pool where
  "idle_pool = \<lparr>pl_members = [0], pl_cursor = 0, pl_outcomes = no_outcomes,
     pl_heap = (\<lambda>r. (provider_new ''rig-node-0'' (Url []) Static 0)\<lparr>p_eligibility := 3\<rparr>), pl_fresh = 1\<rparr>"

definition scenario_libs :: libs where
  "scenario_libs = std_libs\<lparr>
     json_to_vec := (\<lambda>j. if j = rpc_ask 7 ''admin_peers'' then text_bytes ''{admin_peers}'' 
       else if json_get j ''error'' \<noteq> None then text_bytes ''{error}'' else text_bytes ''{}''),
     json_from_slice := (\<lambda>b. if b = text_bytes ''{admin_peers}'' then Some (rpc_ask 7 ''admin_peers'')
       else if b = text_bytes ''{error}'' then Some (JObj [(''error'', JNull)])
       else Some (JObj [(''result'', JStr ''0x1'')]))\<rparr>"

definition prompt_answers :: "nat \<Rightarrow> nat \<Rightarrow> moment" where
  "prompt_answers n i = \<lparr>mo_checked = 0, mo_started = 0,
     mo_exchange = (\<lambda>_ _ _. Inr \<lparr>hr_status = 200, hr_content_length = None, hr_chunks = [[123, 125]], hr_broken = None\<rparr>),
     mo_meanwhile = (\<lambda>pool. pool), mo_ended = 0\<rparr>"


section \<open>The distribution\<close>

text \<open>What the load generator makes of an answer the listener sent.\<close>

definition outcome_seen :: "libs \<Rightarrow> client_texts \<Rightarrow> json \<Rightarrow> duration \<Rightarrow> response \<Rightarrow> load_outcome" where
  "outcome_seen L T question elapsed resp =
     one_request L T question (map_err (\<lambda>_. SendOther []) (delivered L (Some resp))) elapsed"

definition lbs_own :: "libs \<Rightarrow> response \<Rightarrow> bool" where
  "lbs_own L resp \<longleftrightarrow> rs_status resp = 400 \<or> (\<exists>status code message body. resp = lb_error L status code message body)"

lemma unanswered_loop:
  assumes "attempts_loop L cfg f body deadline env n i pool = (Returned resp, pool', trace)" and "\<not> answered trace"
  shows "lbs_own L resp"
  using assms
proof (induction n arbitrary: i pool trace)
  case (Suc n)
  from Suc.prems(1) show ?case
  proof (cases rule: attempts_loop_cases)
    case (answered r response timeout)
    with Suc.prems(2) show ?thesis by (simp add: answered_def outcome_of_def)
  next
    case (again r out timeout rest)
    have "\<not> answered rest" using again(3,4) Suc.prems(2) by (auto simp: answered_def outcome_of_def failed_def)
    with Suc.IH [OF again(5)] show ?thesis .
  qed (auto simp: lbs_own_def)
qed simp

lemma unanswered_request:
  assumes "handle L cfg f (Inr body) started env ended pool = (resp, pool', trace)" and "\<not> answered trace"
  shows "lbs_own L resp"
proof (cases "check_request L (Inr body)")
  case (Inl refusal)
  then have "lbs_own L refusal"
    by (auto simp: check_request_def lbs_own_def split: if_splits option.splits)
  with assms(1) Inl show ?thesis by (simp add: handle_def)
next
  case (Inr checked)
  obtain res pool1 trace1 where l: "attempts_loop L cfg f checked (started + xc_request_timeout cfg) env
      (unat (1 + xc_max_retries cfg)) 0 pool = (res, pool1, trace1)" by (metis prod_cases3)
  from assms(1) Inr l show ?thesis
    using unanswered_loop [of L cfg f checked "started + xc_request_timeout cfg" env "unat (1 + xc_max_retries cfg)" 0 pool
        resp pool1 trace] assms(2)
    by (auto simp: handle_def forward_with_failover_def Let_def lbs_own_def split: loop_end.splits if_splits)
qed

lemma own_answer_fails:
  assumes "lbs_own L resp" and "\<forall>code message ident v. json_from_slice L (json_to_vec L (error_response code message ident)) = Some v \<longrightarrow>
      json_get v ''result'' = None"
  shows "isl (outcome_seen L T question elapsed resp)"
proof (rule ccontr)
  assume "\<not> isl (outcome_seen L T question elapsed resp)"
  then obtain d where "outcome_seen L T question elapsed resp = Inr d" by (cases "outcome_seen L T question elapsed resp") auto
  then obtain r v where r: "delivered L (Some resp) = Inr r" "is_success (hr_status r)"
    "json_from_slice L (concat (hr_chunks r)) = Some v" "json_get v ''result'' \<noteq> None"
    unfolding outcome_seen_def one_request_ok_iff by (cases "delivered L (Some resp)") auto
  from assms(1) show False unfolding lbs_own_def
  proof
    assume "rs_status resp = 400"
    with r(1,2) show False by (auto simp: delivered_def is_success_def Let_def)
  next
    assume "\<exists>status code message body. resp = lb_error L status code message body"
    with r assms(2) show False by (auto simp: delivered_def lb_error_def Let_def)
  qed
qed

lemma serve_all_reads:
  assumes "serve_all L cfg f qs pool = (answers, pool')" and "list_all (\<lambda>q. \<exists>body. cq_read q = Inr body) qs"
  shows "\<forall>(resp, trace) \<in> set answers. answered trace \<or> lbs_own L resp"
  using assms
proof (induction qs arbitrary: pool answers)
  case (Cons q qs)
  obtain resp pool1 trace where h: "handle L cfg f (cq_read q) (cq_started q) (cq_env q) (cq_ended q) pool =
      (resp, pool1, trace)" by (metis prod_cases3)
  obtain rest where s: "serve_all L cfg f qs pool1 = (rest, pool')" "answers = (resp, trace) # rest"
    using Cons.prems(1) by (auto simp: h split: prod.splits)
  from Cons.prems(2) obtain body where "cq_read q = Inr body" by auto
  with h unanswered_request have "answered trace \<or> lbs_own L resp" by metis
  with Cons.IH [OF s(1)] Cons.prems(2) show ?case by (simp add: s(2))
qed simp

text \<open>
  C18. The distribution adds up. Over a fleet that has served nothing, let the load generator count, in
  whatever order and windows they reached it, the outcomes of a run of requests the listener answered one
  after another. If it counted no failure, the served totals read on \<open>/nodes\<close> add up to exactly the
  requests it counted as answered: each was billed to one provider, and none of the load
  balancer's own answers was taken for one.
\<close>

theorem distribution_adds_up:
  assumes "serve_all L cfg f qs pool = (answers, pool')" and "length qs < 2 ^ 64"
    and "list_all (\<lambda>q. calm (cq_env q) \<and> (\<exists>body. cq_read q = Inr body)) qs"
    and "distinct (fleet_of pool)" and "\<forall>r \<in> set (pl_members pool). p_served_total (entry pool r) = 0"
    and "fleet_of pool' = fleet_of pool"
    and "\<forall>code message ident v. json_from_slice L (json_to_vec L (error_response code message ident)) = Some v \<longrightarrow>
      json_get v ''result'' = None"
    and "list_all2 (\<lambda>(resp, _) outcome. \<exists>T question elapsed. outcome = outcome_seen L T question elapsed resp) answers outcomes"
    and "mset (outcomes_of es) = mset outcomes"
    and "stats = snd (load_run progress es)" and "ls_failed stats = 0"
  shows "\<exists>served. served_counts (fleet_of pool)
      (JArr (map (\<lambda>r. node_view_json (node_view_of L (entry pool' r))) (pl_members pool'))) = Some served \<and>
    sum_list served = ls_ok stats \<and> ls_ok stats = word_of_nat (length qs)"
proof -
  from assms(4) have d: "distinct (pl_members pool)" by (auto simp: fleet_of_def distinct_map)
  from assms(3) have c: "list_all (\<lambda>q. calm (cq_env q)) qs" "list_all (\<lambda>q. \<exists>body. cq_read q = Inr body) qs"
    by (simp_all add: list_all_iff)
  note b = serve_all_billed [OF assms(1) c(1) d]
  have zero: "billed pool = 0"
  proof -
    have "map (\<lambda>r. p_served_total (entry pool r)) (pl_members pool) = map (\<lambda>_. 0) (pl_members pool)"
      using assms(5) by simp
    then show ?thesis unfolding billed_def by (simp only: sum_list_0)
  qed
  have counts: "counts_all stats (outcomes_of es)"
    using collect_counts [OF counts_default counts_default, of progress es]
    unfolding load_run_def assms(10) by auto
  have len: "length (outcomes_of es) = length qs"
    using b list_all2_lengthD [OF assms(8)] assms(9) by (metis size_mset)
  have "(word_of_nat (length (fails (outcomes_of es))) :: u64) = 0" using counts assms(11) by (simp add: counts_all_def)
  moreover have "length (fails (outcomes_of es)) < 2 ^ 64"
    using len assms(2) length_filter_le [of isl "outcomes_of es"] by (simp add: fails_def)
  ultimately have "fails (outcomes_of es) = []"
    by (simp add: word_of_nat_eq_0_iff) (metis length_0_conv nat_dvd_not_less neq0_conv)
  then have fine: "\<forall>x \<in> set (outcomes_of es). \<not> isl x" by (auto simp: fails_def filter_empty_conv)
  then have "oks (outcomes_of es) = map projr (outcomes_of es)" by (simp add: oks_def filter_id_conv)
  with counts len have ok: "ls_ok stats = word_of_nat (length qs)" by (simp add: counts_all_def)
  have "answered trace" if "(resp, trace) \<in> set answers" for resp trace
  proof (rule ccontr)
    assume "\<not> answered trace"
    with that serve_all_reads [OF assms(1) c(2)] have own: "lbs_own L resp" by auto
    from that obtain i where i: "i < length answers" "answers ! i = (resp, trace)" by (metis in_set_conv_nth)
    with list_all2_nthD [OF assms(8) i(1)] obtain T question elapsed where
      "outcomes ! i = outcome_seen L T question elapsed resp" by auto
    with own_answer_fails [OF own assms(7)] have "isl (outcomes ! i)" by simp
    moreover have "outcomes ! i \<in> set (outcomes_of es)"
      using i(1) list_all2_lengthD [OF assms(8)] mset_eq_setD [OF assms(9)] by simp
    ultimately show False using fine by blast
  qed
  then have "filter (\<lambda>(_, trace). answered trace) answers = answers" by (auto simp: filter_id_conv)
  with b zero have "billed pool' = word_of_nat (length qs)" by simp
  moreover have "served_counts (fleet_of pool)
      (JArr (map (\<lambda>r. node_view_json (node_view_of L (entry pool' r))) (pl_members pool'))) =
      Some (map (\<lambda>r. p_served_total (entry pool' r)) (pl_members pool'))"
    using served_counts_fleet [of pool' L] assms(4,6) by simp
  ultimately show ?thesis using ok by (simp add: billed_def)
qed

lemma distribution_adds_up_witness:
  "\<exists>served. served_counts (fleet_of idle_pool) (JArr (map (\<lambda>r. node_view_json (node_view_of scenario_libs
       (entry (snd (serve_all scenario_libs proxy_default 3
          [\<lparr>cq_read = Inr [123, 125], cq_started = 0, cq_env = prompt_answers 0, cq_ended = 0\<rparr>] idle_pool)) r)))
       (pl_members idle_pool))) = Some served \<and> sum_list served = 1"
proof -
  let ?L = scenario_libs and ?q = "\<lparr>cq_read = Inr [123, 125], cq_started = 0, cq_env = prompt_answers 0, cq_ended = 0\<rparr>"
  let ?answer = "\<lparr>rs_status = 200, rs_body = RawBody [123, 125]\<rparr>"
  have entry: "entry idle_pool r = (provider_new ''rig-node-0'' (Url []) Static 0)\<lparr>p_eligibility := 3\<rparr>" for r
    by (simp add: entry_def idle_pool_def)
  have members: "pl_members idle_pool = [0]" by (simp add: idle_pool_def)
  have "denied (text_bytes ''{}'') = None" "looks_like_json (text_bytes ''{}'')"
    by (simp_all add: denied_def DENIED_def contains_ignore_case_def looks_like_json_def text_bytes_def is_ascii_whitespace_def)
  moreover have "\<exists>r \<in> set (pl_members idle_pool). eligible (entry idle_pool r)"
    by (simp add: entry eligible_def ALL_GATES_eq members)
  moreover have "1 + xc_max_retries proxy_default \<noteq> 0" "mo_checked (prompt_answers 0 0) < xc_request_timeout proxy_default"
    by (simp_all add: proxy_default_def prompt_answers_def secs_def)
  moreover have "\<forall>url timeout. attempt ?L (unat (xc_max_response_size proxy_default))
      (mo_exchange (prompt_answers 0 0) url (text_bytes ''{}'') timeout) = Answer ?answer"
    by (simp add: attempt_def prompt_answers_def is_success_def declared_over_cap_def proxy_default_def
        looks_like_json_def is_ascii_whitespace_def)
  moreover have "calm (prompt_answers 0)" "names_kept (prompt_answers 0)" "distinct (pl_members idle_pool)"
    by (simp_all add: calm_def names_kept_def prompt_answers_def members)
  ultimately obtain pool' trace where h: "handle ?L proxy_default 3 (Inr (text_bytes ''{}'')) 0 (prompt_answers 0) 0 idle_pool =
      (?answer, pool', trace)" "fleet_of pool' = fleet_of idle_pool" "pl_members pool' = pl_members idle_pool"
    using first_answer [where env = "prompt_answers 0" and cfg = proxy_default and L = ?L] by metis
  then have p: "fleet_of pool' = fleet_of idle_pool" "pl_members pool' = [0]" by (simp_all add: members)
  have run: "serve_all ?L proxy_default 3 [?q] idle_pool = ([(?answer, trace)], pool')"
    using h(1) by (simp add: text_bytes_def)
  obtain T :: client_texts where "T = undefined" by simp
  have seen: "outcome_seen ?L T (rpc_ask 8 ''eth_blockNumber'') 5 ?answer = Inr 5"
    by (simp add: outcome_seen_def delivered_def one_request_ok_iff is_success_def Let_def) (simp add: scenario_libs_def text_bytes_def)
  have law: "\<forall>code message ident v. json_from_slice ?L (json_to_vec ?L (error_response code message ident)) = Some v \<longrightarrow>
      json_get v ''result'' = None"
    by (simp add: scenario_libs_def error_response_def rpc_ask_def text_bytes_def)
  have none: "ls_failed (snd (load_run False [Outcome (Inr 5)])) = 0" by (simp add: load_run_def load_default_def load_merge_def)
  have "distinct (fleet_of idle_pool)" "\<forall>r \<in> set (pl_members idle_pool). p_served_total (entry idle_pool r) = 0"
    by (simp_all add: fleet_of_def entry members provider_new_def)
  moreover have "list_all (\<lambda>q. calm (cq_env q) \<and> (\<exists>body. cq_read q = Inr body)) [?q]"
    by (simp add: calm_def prompt_answers_def)
  moreover have "list_all2 (\<lambda>(resp, _) outcome. \<exists>T question elapsed. outcome = outcome_seen ?L T question elapsed resp)
      [(?answer, trace)] [Inr 5]" using seen by (simp flip: seen) blast
  ultimately obtain served where "served_counts (fleet_of idle_pool)
      (JArr (map (\<lambda>r. node_view_json (node_view_of ?L (entry pool' r))) (pl_members pool'))) = Some served"
    "sum_list served = 1"
    using distribution_adds_up [OF run _ _ _ _ p(1) law _ _ refl none, of "[Inr 5]"] by auto
  then show ?thesis unfolding run snd_conv members p(2) by blast
qed

end
