(* ===== verification/Service.thy ===== *)
theory Service
  imports Running
begin

text \<open>
  \<open>crates/lb/src/service.rs\<close>: the order of a start. What it does on the way is a pair of lists, the
  listeners bound and the tasks spawned; what listens on an address, the HTTP clients and the check
  a round makes are parameters. The readers of the checker and of the Monitor are built there too,
  and a reference that does not parse refuses the start where each is built.
\<close>

section \<open>The service\<close>

definition AGENT_READ_TIMEOUT :: duration where
  "AGENT_READ_TIMEOUT = secs 30"

datatype service_task = PublicListener | AdminListener | AgentTask | CheckerTask | StatsTask | MonitorTask

record boot =
  bt_bound :: "socket_addr list"
  bt_tasks :: "service_task list"

record 'e service =
  sv_public_addr :: socket_addr
  sv_admin_addr :: socket_addr
  sv_agent :: "'e agent_in option"
  sv_checker :: bool

datatype service_error =
    Bind socket_addr
  | ProviderUrl invalid_url
  | UrlUnparsable string string
  | MarketplaceNeedsReference
  | IntegrityNeedsReference
  | MarketplaceStart start_error
  | ChainMismatch u64 u64
  | NoChainClients

definition parse_url :: "libs \<Rightarrow> string \<Rightarrow> string \<Rightarrow> service_error + string" where
  "parse_url L what url = (case url_scheme L url of Some _ \<Rightarrow> Inr url | None \<Rightarrow> Inl (UrlUnparsable what url))"

text \<open>A step that does nothing but succeed or fail.\<close>

definition settle :: "'s \<Rightarrow> service_error + 'a \<Rightarrow> 's \<times> (service_error + 'a)" where
  "settle s r = (s, r)"

definition bind_listener ::
    "(socket_addr \<Rightarrow> socket_addr option) \<Rightarrow> socket_addr \<Rightarrow> 'w \<times> boot \<Rightarrow> ('w \<times> boot) \<times> (service_error + socket_addr)" where
  "bind_listener listening addr = (\<lambda>(w, b).
     case listening addr of
       Some actual \<Rightarrow> ((w, b\<lparr>bt_bound := bt_bound b @ [addr]\<rparr>), Inr actual)
     | None \<Rightarrow> ((w, b), Inl (Bind addr)))"

definition spawn :: "service_task \<Rightarrow> 'w \<times> boot \<Rightarrow> 'w \<times> boot" where
  "spawn task = (\<lambda>(w, b). (w, b\<lparr>bt_tasks := bt_tasks b @ [task]\<rparr>))"

text \<open>The marketplace's part: the agent's start, its checker, and the chain it writes to.\<close>

definition start_agent ::
    "libs \<Rightarrow> config \<Rightarrow> ('e world chain_reader \<times> 'e world chain_writer) option \<Rightarrow> ('e world \<Rightarrow> u16 \<Rightarrow> 'e world \<times> bool) \<Rightarrow>
       ('e world \<Rightarrow> duration \<Rightarrow> 'e world) \<Rightarrow> ('e world \<Rightarrow> pref \<Rightarrow> 'e world) \<Rightarrow> bool \<Rightarrow> 'e world \<times> boot \<Rightarrow>
       ('e world \<times> boot) \<times> (service_error + 'e agent_in option)" where
  "start_agent L config chain bound sleep verify checker = (\<lambda>(w, b).
     case cf_marketplace config of
       None \<Rightarrow> ((w, b), Inr None)
     | Some marketplace \<Rightarrow>
         (case chain of
            None \<Rightarrow> ((w, b), Inl NoChainClients)
          | Some (reader, writer) \<Rightarrow>
              (case start L reader writer marketplace bound sleep w of
                 (w, Inl e) \<Rightarrow> ((w, b), Inl (MarketplaceStart e))
               | (w, Inr agent) \<Rightarrow>
                   (let agent = (if checker then with_integrity verify agent else agent);
                        actual = id_chain_id (an_identity agent)
                    in case hc_chain_id (cf_health config) of
                         Some configured \<Rightarrow>
                           if configured \<noteq> actual then ((w, b), Inl (ChainMismatch configured actual))
                           else ((w, b), Inr (Some agent))
                       | None \<Rightarrow> ((w, b), Inr (Some agent))))))"

definition start_with ::
    "libs \<Rightarrow> config \<Rightarrow> ('e world chain_reader \<times> 'e world chain_writer) option \<Rightarrow> ('e world \<Rightarrow> u16 \<Rightarrow> 'e world \<times> bool) \<Rightarrow>
       ('e world \<Rightarrow> duration \<Rightarrow> 'e world) \<Rightarrow> ('e world \<Rightarrow> pref \<Rightarrow> 'e world) \<Rightarrow> (socket_addr \<Rightarrow> socket_addr option) \<Rightarrow>
       'e world \<times> boot \<Rightarrow> ('e world \<times> boot) \<times> (service_error + 'e service)" where
  "start_with L config chain bound sleep verify listening s =
     (if cf_integrity config \<noteq> None \<and> cf_reference config = None then (s, Inl IntegrityNeedsReference)
      else sbind (settle s (map_err ProviderUrl (pool_new L (wo_now (fst s)) (cf_providers config)))) (\<lambda>(w, b) pool.
        sbind (settle (w\<lparr>wo_pool := pool\<rparr>, b)
            (case (cf_integrity config, cf_reference config) of
               (Some _, Some url) \<Rightarrow> rbind (parse_url L ''reference url'' url) (\<lambda>_. Inr True)
             | _ \<Rightarrow> Inr False)) (\<lambda>s checker.
        sbind (start_agent L config chain bound sleep verify checker s) (\<lambda>s agent.
        sbind (bind_listener listening (lc_public (cf_listen config)) s) (\<lambda>s public_addr.
        sbind (bind_listener listening (lc_admin (cf_listen config)) s) (\<lambda>s admin_addr.
          let s = spawn AdminListener (spawn PublicListener s);
              s = (if agent \<noteq> None then spawn AgentTask s else s);
              s = (if checker then spawn CheckerTask s else s);
              s = spawn StatsTask s;
              service = \<lparr>sv_public_addr = public_addr, sv_admin_addr = admin_addr, sv_agent = agent, sv_checker = checker\<rparr>
          in if hc_disable_probing (cf_health config) then (s, Inr service)
             else sbind (settle s
                 (case cf_reference config of
                    Some url \<Rightarrow> rbind (parse_url L ''reference url'' url) (\<lambda>_. Inr ())
                  | None \<Rightarrow> Inr ())) (\<lambda>s _. (spawn MonitorTask s, Inr service))))))))"

text \<open>\<open>clients\<close> builds the two chain clients on the reference and the sidecar.\<close>

definition service_start ::
    "libs \<Rightarrow> config \<Rightarrow> (string \<Rightarrow> string \<Rightarrow> 'e world chain_reader \<times> 'e world chain_writer) \<Rightarrow>
       ('e world \<Rightarrow> u16 \<Rightarrow> 'e world \<times> bool) \<Rightarrow> ('e world \<Rightarrow> duration \<Rightarrow> 'e world) \<Rightarrow> ('e world \<Rightarrow> pref \<Rightarrow> 'e world) \<Rightarrow>
       (socket_addr \<Rightarrow> socket_addr option) \<Rightarrow> 'e world \<times> boot \<Rightarrow> ('e world \<times> boot) \<times> (service_error + 'e service)" where
  "service_start L config clients bound sleep verify listening s =
     sbind (settle s
         (case cf_marketplace config of
            None \<Rightarrow> Inr None
          | Some marketplace \<Rightarrow>
              rbind (ok_or MarketplaceNeedsReference (cf_reference config)) (\<lambda>reference.
              rbind (parse_url L ''reference url'' reference) (\<lambda>reference_url.
              rbind (parse_url L ''marketplace.writer_url'' (mc_writer_url marketplace)) (\<lambda>writer_url.
                Inr (Some (clients reference_url writer_url)))))))
       (\<lambda>s chain. start_with L config chain bound sleep verify listening s)"

section \<open>Properties of the start\<close>

lemma settle_simps [simp]:
  "sbind (settle s (Inl e)) f = (s, Inl e)" "sbind (settle s (Inr v)) f = f s v"
  by (simp_all add: settle_def)

lemma start_agent_boot: "snd (fst (start_agent L config chain bound sleep verify checker s)) = snd s"
  by (cases s) (auto simp: start_agent_def Let_def split: option.split prod.split sum.split)

lemma start_agent_not_bind:
  "snd (start_agent L config chain bound sleep verify checker s) \<noteq> Inl (Bind addr)"
  by (cases s) (auto simp: start_agent_def Let_def split: option.split prod.split sum.split)

lemma start_agent_Inr:
  assumes "start_agent L config chain bound sleep verify checker (w, b) = ((w', b'), Inr agent)"
  shows "(cf_marketplace config = None \<and> agent = None \<and> w' = w) \<or>
    (\<exists>m reader writer a. cf_marketplace config = Some m \<and> chain = Some (reader, writer) \<and>
       start L reader writer m bound sleep w = (w', Inr a) \<and>
       agent = Some (if checker then with_integrity verify a else a) \<and>
       (\<forall>c. hc_chain_id (cf_health config) = Some c \<longrightarrow> id_chain_id (an_identity a) = c))"
  using assms
  by (auto simp: start_agent_def Let_def with_integrity_def split: option.splits prod.splits sum.splits if_splits)

abbreviation checks :: "config \<Rightarrow> bool" where
  "checks config \<equiv> cf_integrity config \<noteq> None"

text \<open>The tasks of a start that succeeds, in the order they are spawned.\<close>

definition expected_tasks :: "config \<Rightarrow> service_task list" where
  "expected_tasks config = [PublicListener, AdminListener] @
     (if cf_marketplace config = None then [] else [AgentTask]) @ (if checks config then [CheckerTask] else []) @
     [StatsTask] @ (if hc_disable_probing (cf_health config) then [] else [MonitorTask])"

lemma start_with_cases:
  assumes "start_with L config chain bound sleep verify listening (w, b) = ((w', b'), r)"
  obtains (early) e where "r = Inl e" "b' = b" "\<And>addr. e \<noteq> Bind addr"
  | (public) "r = Inl (Bind (lc_public (cf_listen config)))" "b' = b"
  | (admin) "r = Inl (Bind (lc_admin (cf_listen config)))" "b' = b\<lparr>bt_bound := bt_bound b @ [lc_public (cf_listen config)]\<rparr>"
  | (late) url where "r = Inl (UrlUnparsable ''reference url'' url)" "cf_reference config = Some url"
      "url_scheme L url = None" "cf_integrity config = None" "\<not> hc_disable_probing (cf_health config)"
      "bt_bound b' = bt_bound b @ [lc_public (cf_listen config), lc_admin (cf_listen config)]"
  | (started) pool service where "r = Inr service" "pool_new L (wo_now w) (cf_providers config) = Inr pool"
      "start_agent L config chain bound sleep verify (checks config) (w\<lparr>wo_pool := pool\<rparr>, b) = ((w', b), Inr (sv_agent service))"
      "sv_checker service = checks config"
      "bt_bound b' = bt_bound b @ [lc_public (cf_listen config), lc_admin (cf_listen config)]"
      "bt_tasks b' = bt_tasks b @ expected_tasks config"
proof -
  note def = start_with_def [of L config chain bound sleep verify listening]
  show thesis
  proof (cases "cf_integrity config \<noteq> None \<and> cf_reference config = None")
    case True
    with assms show thesis by (intro early) (auto simp: def)
  next
    case reference: False
    show thesis
    proof (cases "pool_new L (wo_now w) (cf_providers config)")
      case (Inl e)
      with assms reference show thesis by (intro early) (auto simp: def)
    next
      case pool: (Inr pool)
      let ?s = "(w\<lparr>wo_pool := pool\<rparr>, b)"
      consider (bad) url where "checks config" "cf_reference config = Some url" "url_scheme L url = None"
        | (good) "checks config \<Longrightarrow> \<exists>url. cf_reference config = Some url \<and> url_scheme L url \<noteq> None"
        using reference by (cases "cf_reference config") auto
      then show thesis
      proof cases
        case bad
        with assms reference pool show thesis
          by (intro early) (auto simp: def parse_url_def)
      next
        case good
        have checker: "(case (cf_integrity config, cf_reference config) of
               (Some _, Some url) \<Rightarrow> rbind (parse_url L ''reference url'' url) (\<lambda>_. Inr True)
             | _ \<Rightarrow> Inr False) = (Inr (checks config) :: service_error + bool)"
          using good by (cases "cf_integrity config") (auto simp: parse_url_def)
        obtain w1 b1 ra where a: "start_agent L config chain bound sleep verify (checks config) ?s = ((w1, b1), ra)"
          by (metis surj_pair)
        have b1: "b1 = b" using start_agent_boot [of L config chain bound sleep verify "checks config" ?s] by (simp only: a fst_conv snd_conv)
        show thesis
        proof (cases ra)
          case (Inl e)
          have "e \<noteq> Bind addr" for addr
            using start_agent_not_bind [of L config chain bound sleep verify "checks config" ?s addr] by (simp only: a Inl snd_conv sum.inject not_False_eq_True simp_thms)
          with assms reference pool checker a b1 Inl show thesis by (intro early) (auto simp: def)
        next
          case agent: (Inr agent)
          have ag: "agent \<noteq> None \<longleftrightarrow> cf_marketplace config \<noteq> None"
            using start_agent_Inr [OF a [unfolded b1 agent]] by auto
          let ?public = "lc_public (cf_listen config)" and ?admin = "lc_admin (cf_listen config)"
          note go = assms [unfolded def if_not_P [OF reference]] and facts = pool checker a b1 agent
          show thesis
          proof (cases "listening ?public")
            case None
            with go facts show thesis by (intro public) (auto simp: bind_listener_def)
          next
            case pa: (Some pa)
            show thesis
            proof (cases "listening ?admin")
              case None
              with go facts pa show thesis by (intro admin) (auto simp: bind_listener_def)
            next
              case aa: (Some aa)
              let ?service = "\<lparr>sv_public_addr = pa, sv_admin_addr = aa, sv_agent = agent, sv_checker = checks config\<rparr>"
              consider (off) "hc_disable_probing (cf_health config)"
                | (none) "\<not> hc_disable_probing (cf_health config)" "cf_reference config = None"
                | (fine) url scheme where "\<not> hc_disable_probing (cf_health config)" "cf_reference config = Some url"
                    "url_scheme L url = Some scheme"
                | (broken) url where "\<not> hc_disable_probing (cf_health config)" "cf_reference config = Some url"
                    "url_scheme L url = None"
                by (metis not_Some_eq)
              then show thesis
              proof cases
                case broken
                with good have "cf_integrity config = None" by (cases "cf_integrity config") auto
                with broken go facts pa aa ag show thesis
                  by (intro late [of url]) (auto simp: bind_listener_def spawn_def Let_def parse_url_def)
              qed (rule started [of ?service pool];
                use go facts pa aa ag in \<open>cases agent; cases "cf_integrity config";
                  auto simp: bind_listener_def spawn_def Let_def parse_url_def expected_tasks_def\<close>)+
            qed
          qed
        qed
      qed
    qed
  qed
qed



text \<open>
  What a started service runs. The two listeners are bound in their order, public first; the
  tasks are the listeners', the agent's exactly when the marketplace is configured, the checker's
  exactly when the checks are, the statistics', and the Monitor's unless probing is off. The pool's
  first members are the configured providers, the agent is one that started on that pool, with the
  checker when there is one, and it writes to the configured chain when one is named.
\<close>

theorem started_service_runs:
  assumes "service_start L config clients bound sleep verify listening (w, \<lparr>bt_bound = [], bt_tasks = []\<rparr>) =
    ((w', b), Inr service)"
  shows "bt_bound b = [lc_public (cf_listen config), lc_admin (cf_listen config)] \<and>
    bt_tasks b = expected_tasks config \<and> sv_checker service = checks config \<and>
    (sv_agent service = None \<longleftrightarrow> cf_marketplace config = None) \<and>
    (\<exists>pool. pool_new L (wo_now w) (cf_providers config) = Inr pool \<and>
       (\<forall>agent. sv_agent service = Some agent \<longrightarrow>
          (\<forall>c. hc_chain_id (cf_health config) = Some c \<longrightarrow> id_chain_id (an_identity agent) = c) \<and>
          (\<exists>reader writer m a. cf_marketplace config = Some m \<and>
             start L reader writer m bound sleep (w\<lparr>wo_pool := pool\<rparr>) = (w', Inr a) \<and>
             agent = (if checks config then with_integrity verify a else a))))"
proof -
  obtain s chain where "start_with L config chain bound sleep verify listening s = ((w', b), Inr service)"
    "s = (w, \<lparr>bt_bound = [], bt_tasks = []\<rparr>)"
    using assms unfolding service_start_def by (auto simp: sbind_Inr_iff settle_def)
  then have "start_with L config chain bound sleep verify listening (w, \<lparr>bt_bound = [], bt_tasks = []\<rparr>) =
      ((w', b), Inr service)" by simp
  then show ?thesis
  proof (cases rule: start_with_cases)
    case (started pool service')
    have s: "service' = service" "bt_bound b = [lc_public (cf_listen config), lc_admin (cf_listen config)]"
      "bt_tasks b = expected_tasks config" "sv_checker service = checks config"
      using started(1,4-6) by simp_all
    from start_agent_Inr [OF started(3)] show ?thesis
    proof (elim disjE exE conjE)
      assume "cf_marketplace config = None" "sv_agent service' = None"
      with s started(2) show ?thesis by simp
    next
      fix m reader writer a
      assume a: "cf_marketplace config = Some m" "start L reader writer m bound sleep (w\<lparr>wo_pool := pool\<rparr>) = (w', Inr a)"
        "sv_agent service' = Some (if checks config then with_integrity verify a else a)"
        "\<forall>c. hc_chain_id (cf_health config) = Some c \<longrightarrow> id_chain_id (an_identity a) = c"
      have "an_identity (if checks config then with_integrity verify a else a) = an_identity a"
        by (simp add: with_integrity_def)
      with a s started(2) show ?thesis
        by (intro conjI exI [of _ pool]) auto
    qed
  qed simp_all
qed

lemma started_service_runs_witness:
  "\<exists>w' b service. service_start std_libs config_default (\<lambda>_ _. (shelf_reader (\<lambda>_. []), shelf_writer)) (\<lambda>w _. (w, False))
      (\<lambda>w _. w) (\<lambda>w _. w) Some (static_world, \<lparr>bt_bound = [], bt_tasks = []\<rparr>) = ((w', b), Inr service) \<and>
     bt_tasks b = [PublicListener, AdminListener, StatsTask, MonitorTask]"
proof -
  have "\<exists>w' b service. service_start std_libs config_default (\<lambda>_ _. (shelf_reader (\<lambda>_. []), shelf_writer)) (\<lambda>w _. (w, False))
      (\<lambda>w _. w) (\<lambda>w _. w) Some (static_world, \<lparr>bt_bound = [], bt_tasks = []\<rparr>) = ((w', b), Inr service)"
    by (simp add: service_start_def start_with_def config_default_def pool_new_def start_agent_def
        bind_listener_def spawn_def health_default_def split_beta)
  then obtain w' b service where s: "service_start std_libs config_default (\<lambda>_ _. (shelf_reader (\<lambda>_. []), shelf_writer))
      (\<lambda>w _. (w, False)) (\<lambda>w _. w) (\<lambda>w _. w) Some (static_world, \<lparr>bt_bound = [], bt_tasks = []\<rparr>) = ((w', b), Inr service)"
    by blast
  from started_service_runs [OF s] s show ?thesis
    by (auto simp: expected_tasks_def config_default_def health_default_def)
qed

lemma start_agent_mismatch:
  assumes "start_agent L config chain bound sleep verify checker (w, b) = ((w', b'), Inl (ChainMismatch c d))"
  shows "\<exists>m reader writer a. cf_marketplace config = Some m \<and> chain = Some (reader, writer) \<and>
    start L reader writer m bound sleep w = (w', Inr a) \<and> b' = b \<and>
    hc_chain_id (cf_health config) = Some c \<and> id_chain_id (an_identity a) = d \<and> c \<noteq> d"
  using assms
  by (auto simp: start_agent_def Let_def with_integrity_def split: option.splits prod.splits sum.splits if_splits)

text \<open>Only the agent's part can end so.\<close>

lemma no_mismatch:
  "map_err ProviderUrl r \<noteq> Inl (ChainMismatch c d)"
  "parse_url L what url \<noteq> Inl (ChainMismatch c d)"
  "snd (bind_listener listening addr s) \<noteq> Inl (ChainMismatch c d)"
  by (cases r; simp) (auto simp: parse_url_def bind_listener_def split: option.split prod.split)

lemma start_with_mismatch:
  assumes "start_with L config chain bound sleep verify listening (w, b) = ((w', b'), Inl (ChainMismatch c d))"
  shows "\<exists>pool. pool_new L (wo_now w) (cf_providers config) = Inr pool \<and>
    start_agent L config chain bound sleep verify (checks config) (w\<lparr>wo_pool := pool\<rparr>, b) =
      ((w', b'), Inl (ChainMismatch c d))"
proof -
  note def = start_with_def [of L config chain bound sleep verify listening]
  have reference: "\<not> (cf_integrity config \<noteq> None \<and> cf_reference config = None)"
  proof
    assume "cf_integrity config \<noteq> None \<and> cf_reference config = None"
    with assms show False by (simp add: def)
  qed
  obtain pool where pool: "pool_new L (wo_now w) (cf_providers config) = Inr pool"
    using assms reference by (cases "pool_new L (wo_now w) (cf_providers config)") (auto simp: def)
  let ?judge = "case (cf_integrity config, cf_reference config) of
               (Some _, Some url) \<Rightarrow> rbind (parse_url L ''reference url'' url) (\<lambda>_. Inr True)
             | _ \<Rightarrow> Inr False"
  have checker: "?judge = Inr (checks config)"
  proof (cases ?judge)
    case (Inl e)
    then have "e \<noteq> ChainMismatch c d" by (auto simp: parse_url_def split: option.splits)
    with assms reference pool Inl show ?thesis by (auto simp: def)
  next
    case (Inr v)
    then show ?thesis using reference
      by (cases "cf_integrity config"; cases "cf_reference config") (auto simp: rbind_Inr_iff)
  qed
  obtain s1 ra where a: "start_agent L config chain bound sleep verify (checks config) (w\<lparr>wo_pool := pool\<rparr>, b) = (s1, ra)"
    by (metis surj_pair)
  show ?thesis
  proof (cases ra)
    case (Inl e)
    with assms reference pool checker a show ?thesis by (auto simp: def)
  next
    case (Inr agent)
    have "False"
      using assms [unfolded def if_not_P [OF reference] fst_conv pool map_err.simps settle_simps prod.case checker] a Inr reference
      by (cases s1; cases "cf_integrity config"; cases "cf_reference config")
        (auto simp: sbind_Inl_iff bind_listener_def parse_url_def settle_def Let_def spawn_def
          split: option.splits if_splits)
    then show ?thesis ..
  qed
qed


text \<open>A sidecar on chain 1, whose environment counts the creates.\<close>

definition counting_writer :: "nat world chain_writer" where
  "counting_writer = shelf_writer\<lparr>w_create := (\<lambda>w _. (w\<lparr>wo_env := Suc (wo_env w)\<rparr>,
     Inr \<lparr>cd_entity_key = 31, cd_tx_hash = [], cd_expires_at = 400\<rparr>))\<rparr>"

definition empty_world :: "nat world" where
  "empty_world = \<lparr>wo_env = 0, wo_now = 0,
     wo_pool = \<lparr>pl_members = [], pl_cursor = 0, pl_outcomes = no_outcomes,
       pl_heap = (\<lambda>_. provider_new [] (Url []) Static 0), pl_fresh = 0\<rparr>,
     wo_known = [], wo_tasks = {}, wo_spawned = 0\<rparr>"


end
