(* ===== verification/Shutdown.thy ===== *)
theory Shutdown
  imports Service
begin

text \<open>
  The stop of the service (\<open>Service::shutdown\<close> and \<open>serve\<close> in \<open>service.rs\<close>, with the shutdown branch of
  every task's loop): the flag is sent to all of them at once, each takes it up when it next looks, and the tasks
  are waited for in the order they were spawned. The tasks interleave, so a stop is a step relation over
  the phase of each task, the requests in flight, and the pool they are billed in.
\<close>

section \<open>The state of a stop\<close>

datatype phase = At_work | Leaving | Gone

type_synonym request_id = "service_task \<times> nat"

text \<open>
  \<open>sp_flushed\<close> and \<open>sp_saved\<close> are the pool as the agent's last flush and the statistics' last hour read
  it; \<open>sp_late\<close> and \<open>sp_unsaved\<close> the entries billed after those reads, newest first.
\<close>

record stopping =
  sp_asked :: bool
  sp_phase :: "service_task \<Rightarrow> phase"
  sp_accepted :: "request_id list"
  sp_open :: "request_id list"
  sp_answered :: "request_id list"
  sp_pool :: pool
  sp_flushed :: "pool option"
  sp_saved :: "pool option"
  sp_late :: "pref list"
  sp_unsaved :: "pref list"
  sp_awaiting :: "service_task list"

definition listener :: "service_task \<Rightarrow> bool" where
  "listener t \<longleftrightarrow> t = PublicListener \<or> t = AdminListener"

definition running :: "service_task list \<Rightarrow> pool \<Rightarrow> stopping" where
  "running tasks pool = \<lparr>sp_asked = False, sp_phase = (\<lambda>t. if t \<in> set tasks then At_work else Gone),
     sp_accepted = [], sp_open = [], sp_answered = [], sp_pool = pool, sp_flushed = None, sp_saved = None,
     sp_late = [], sp_unsaved = [], sp_awaiting = tasks\<rparr>"

definition move :: "service_task \<Rightarrow> phase \<Rightarrow> stopping \<Rightarrow> stopping" where
  "move t ph s = s\<lparr>sp_phase := (sp_phase s)(t := ph)\<rparr>"

definition accept_request :: "request_id \<Rightarrow> stopping \<Rightarrow> stopping" where
  "accept_request q s = s\<lparr>sp_accepted := q # sp_accepted s, sp_open := q # sp_open s\<rparr>"

definition answer_request :: "request_id \<Rightarrow> stopping \<Rightarrow> stopping" where
  "answer_request q s = s\<lparr>sp_open := remove1 q (sp_open s), sp_answered := q # sp_answered s\<rparr>"

text \<open>The bill of an answer that came from a provider.\<close>

definition bill_request :: "pref \<Rightarrow> instant \<Rightarrow> stopping \<Rightarrow> stopping" where
  "bill_request r at s = s\<lparr>sp_pool := entry_update r (record_served at) (sp_pool s),
     sp_late := (if sp_flushed s = None then [] else r # sp_late s),
     sp_unsaved := (if sp_saved s = None then [] else r # sp_unsaved s)\<rparr>"

section \<open>Steps\<close>

text \<open>
  A listener that has taken up the flag accepts nothing more and is gone once its requests are answered.
  The agent is gone after its last flush, which reads the pool when it builds its batch, or which is skipped
  where the chain cannot be read; the statistics read the pool as they take the flag up.
\<close>

inductive stop_step :: "stopping \<Rightarrow> stopping \<Rightarrow> bool" where
  Accept: "listener t \<Longrightarrow> sp_phase s t = At_work \<Longrightarrow> (t, i) \<notin> set (sp_accepted s) \<Longrightarrow>
    stop_step s (accept_request (t, i) s)"
| Own: "q \<in> set (sp_open s) \<Longrightarrow> stop_step s (answer_request q s)"
| Served: "(PublicListener, i) \<in> set (sp_open s) \<Longrightarrow>
    stop_step s (answer_request (PublicListener, i) (bill_request r at s))"
| Ask: "\<not> sp_asked s \<Longrightarrow> stop_step s (s\<lparr>sp_asked := True\<rparr>)"
| Heed: "sp_asked s \<Longrightarrow> sp_phase s t = At_work \<Longrightarrow> t \<noteq> StatsTask \<Longrightarrow> stop_step s (move t Leaving s)"
| Stop_stats: "sp_asked s \<Longrightarrow> sp_phase s StatsTask = At_work \<Longrightarrow>
    stop_step s ((move StatsTask Leaving s)\<lparr>sp_saved := Some (sp_pool s), sp_unsaved := []\<rparr>)"
| Last_flush: "sp_phase s AgentTask = Leaving \<Longrightarrow> sp_flushed s = None \<Longrightarrow>
    stop_step s (s\<lparr>sp_flushed := Some (sp_pool s), sp_late := []\<rparr>)"
| Leave: "sp_phase s t = Leaving \<Longrightarrow> listener t \<longrightarrow> t \<notin> fst ` set (sp_open s) \<Longrightarrow> stop_step s (move t Gone s)"
| Await: "sp_asked s \<Longrightarrow> sp_awaiting s = t # ts \<Longrightarrow> sp_phase s t = Gone \<Longrightarrow>
    stop_step s (s\<lparr>sp_awaiting := ts\<rparr>)"

text \<open>The flag was sent and every task waited for: \<open>shutdown\<close> returns, and the program ends.\<close>

definition returned :: "stopping \<Rightarrow> bool" where
  "returned s \<longleftrightarrow> sp_asked s \<and> sp_awaiting s = []"

lemmas stop_defs = move_def accept_request_def answer_request_def bill_request_def running_def listener_def

section \<open>Invariant\<close>

text \<open>The bills of an entry, as its counter counts them.\<close>

definition billed_of :: "pref list \<Rightarrow> pref \<Rightarrow> u64" where
  "billed_of rs r = word_of_nat (count_list rs r)"

definition since_read :: "pool option \<Rightarrow> pref list \<Rightarrow> pool \<Rightarrow> bool" where
  "since_read read rs pool \<longleftrightarrow> (case read of None \<Rightarrow> rs = []
     | Some before \<Rightarrow> \<forall>r. p_served (entry pool r) = p_served (entry before r) + billed_of rs r \<and>
         p_served_total (entry pool r) = p_served_total (entry before r) + billed_of rs r)"

definition requests_inv :: "stopping \<Rightarrow> bool" where
  "requests_inv s \<longleftrightarrow>
     distinct (sp_accepted s) \<and> distinct (sp_open s) \<and> distinct (sp_answered s) \<and>
     set (sp_accepted s) = set (sp_open s) \<union> set (sp_answered s) \<and> set (sp_open s) \<inter> set (sp_answered s) = {} \<and>
     (\<forall>q \<in> set (sp_open s). listener (fst q) \<and> sp_phase s (fst q) \<noteq> Gone)"

definition tasks_inv :: "service_task list \<Rightarrow> stopping \<Rightarrow> bool" where
  "tasks_inv tasks s \<longleftrightarrow>
     (\<forall>t. if t \<in> set tasks then sp_phase s t = At_work \<or> sp_asked s else sp_phase s t = Gone) \<and>
     (\<exists>waited. tasks = waited @ sp_awaiting s \<and> (\<forall>t \<in> set waited. sp_phase s t = Gone)) \<and>
     (StatsTask \<in> set tasks \<longrightarrow> (sp_saved s = None) = (sp_phase s StatsTask = At_work))"

definition reads_inv :: "stopping \<Rightarrow> bool" where
  "reads_inv s \<longleftrightarrow> since_read (sp_flushed s) (sp_late s) (sp_pool s) \<and> since_read (sp_saved s) (sp_unsaved s) (sp_pool s)"

lemma requests_inv_step:
  assumes "stop_step s s'" and "requests_inv s"
  shows "requests_inv s'"
  using assms
proof (cases rule: stop_step.cases)
  case (Leave t)
  then have "sp_phase s' (fst q) \<noteq> Gone" if "q \<in> set (sp_open s)" for q
    using that assms(2) by (auto simp: requests_inv_def move_def)
  with Leave assms(2) show ?thesis by (simp add: requests_inv_def move_def)
qed (auto simp: requests_inv_def stop_defs)

lemma tasks_inv_step:
  assumes "stop_step s s'" and "tasks_inv tasks s"
  shows "tasks_inv tasks s'"
  using assms
proof (cases rule: stop_step.cases)
  case (Await t ts)
  from assms(2) obtain waited where "tasks = waited @ sp_awaiting s" "\<forall>t \<in> set waited. sp_phase s t = Gone"
    by (auto simp: tasks_inv_def)
  with Await have "tasks = (waited @ [t]) @ ts \<and> (\<forall>t \<in> set (waited @ [t]). sp_phase s t = Gone)" by auto
  with Await assms(2) show ?thesis unfolding tasks_inv_def by (auto simp del: append_assoc)
qed (auto simp: tasks_inv_def stop_defs split: if_splits)

lemma billed_of_Cons: "billed_of (q # rs) r = billed_of rs r + (if q = r then 1 else 0)"
  by (simp add: billed_of_def)

lemma since_read_bill:
  assumes "since_read read rs pool"
  shows "since_read read (if read = None then [] else r # rs) (entry_update r (record_served at) pool)"
  using assms
  by (auto simp: since_read_def billed_of_Cons record_served_def record_answer_def entry_update_def entry_def split: option.splits)

lemma since_read_now: "since_read (Some pool) [] pool"
  by (simp add: since_read_def billed_of_def)

lemma reads_inv_step:
  assumes "stop_step s s'" and "reads_inv s"
  shows "reads_inv s'"
  using assms
proof (cases rule: stop_step.cases)
  case (Served i r at)
  with assms(2) show ?thesis
    by (simp add: reads_inv_def answer_request_def bill_request_def since_read_bill)
next
  case Stop_stats
  then show ?thesis using assms(2)
    by (simp add: reads_inv_def move_def since_read_now)
qed (auto simp: reads_inv_def stop_defs since_read_def billed_of_def)

lemma running_inv:
  "requests_inv (running tasks pool)" "tasks_inv tasks (running tasks pool)" "reads_inv (running tasks pool)"
  by (simp_all add: requests_inv_def tasks_inv_def reads_inv_def since_read_def running_def)

lemma stop_reaches_inv:
  assumes "stop_step\<^sup>*\<^sup>* (running tasks pool) s"
  shows "requests_inv s \<and> tasks_inv tasks s \<and> reads_inv s"
  using assms
proof (induction rule: rtranclp_induct)
  case base
  show ?case by (simp add: running_inv)
next
  case (step s s')
  then show ?case using requests_inv_step tasks_inv_step reads_inv_step by blast
qed

lemma returned_gone:
  assumes "requests_inv s" and "tasks_inv tasks s" and "returned s"
  shows "sp_phase s t = Gone" and "sp_open s = []"
proof -
  show gone: "sp_phase s t = Gone" for t
    using assms(2,3) by (cases "t \<in> set tasks") (auto simp: tasks_inv_def returned_def)
  have "q \<notin> set (sp_open s)" for q using assms(1) gone by (cases q) (auto simp: requests_inv_def)
  then show "sp_open s = []" by (cases "sp_open s") auto
qed

section \<open>What is left to do\<close>

fun phase_left :: "phase \<Rightarrow> nat" where
  "phase_left At_work = 2"
| "phase_left Leaving = 1"
| "phase_left Gone = 0"

definition all_tasks :: "service_task list" where
  "all_tasks = [PublicListener, AdminListener, AgentTask, CheckerTask, StatsTask, MonitorTask]"

definition effort :: "stopping \<Rightarrow> nat" where
  "effort s = (\<Sum>t\<leftarrow>all_tasks. phase_left (sp_phase s t)) + length (sp_open s) + length (sp_awaiting s) +
     (if sp_flushed s = None then 1 else 0)"

lemma phases_move:
  "phase_left ph < phase_left (f t) \<Longrightarrow>
     (\<Sum>u\<leftarrow>all_tasks. phase_left ((f(t := ph)) u)) < (\<Sum>u\<leftarrow>all_tasks. phase_left (f u))"
  by (cases t) (simp_all add: all_tasks_def)

lemma remove1_shorter: "q \<in> set qs \<Longrightarrow> length (remove1 q qs) < length qs"
  using length_pos_if_in_set [of q qs] by (simp add: length_remove1)

lemma effort_decreases:
  assumes "stop_step s s'" and "sp_asked s" and "\<And>t. listener t \<Longrightarrow> sp_phase s t \<noteq> At_work"
  shows "effort s' < effort s" and "sp_asked s'" and "listener t \<Longrightarrow> sp_phase s' t \<noteq> At_work"
proof -
  show "effort s' < effort s"
    using assms(1)
  proof (cases rule: stop_step.cases)
    case (Own q)
    then show ?thesis using remove1_shorter [of q "sp_open s"] by (simp add: effort_def answer_request_def)
  next
    case (Served i r at)
    then show ?thesis using remove1_shorter [of "(PublicListener, i)" "sp_open s"]
      by (simp add: effort_def answer_request_def bill_request_def)
  next
    case (Heed t)
    then show ?thesis using phases_move [of Leaving "sp_phase s" t] by (simp add: effort_def move_def)
  next
    case Stop_stats
    then show ?thesis using phases_move [of Leaving "sp_phase s" StatsTask] by (simp add: effort_def move_def)
  next
    case (Leave t)
    then show ?thesis using phases_move [of Gone "sp_phase s" t] by (simp add: effort_def move_def)
  next
    case (Accept t i)
    with assms(3) show ?thesis by blast
  qed (use assms(2) in \<open>simp_all add: effort_def\<close>)
  show "sp_asked s'"
    using assms(1,2) by (cases rule: stop_step.cases) (simp_all add: stop_defs)
  show "sp_phase s' t \<noteq> At_work" if "listener t"
    using assms(1) assms(3) [OF that] by (cases rule: stop_step.cases) (simp_all add: stop_defs)
qed

text \<open>While the stop has not returned, one of its tasks, its requests or its wait can move.\<close>

lemma stop_moves:
  assumes "requests_inv s" and "tasks_inv tasks s" and "sp_asked s" and "\<not> returned s"
  shows "\<exists>s'. stop_step s s'"
proof (cases "sp_open s")
  case (Cons q qs)
  then show ?thesis using Own [of q s] by auto
next
  case Nil
  obtain t ts where awaiting: "sp_awaiting s = t # ts" using assms(3,4) by (cases "sp_awaiting s") (auto simp: returned_def)
  show ?thesis
  proof (cases "sp_phase s t")
    case At_work
    then show ?thesis using Heed [OF assms(3) At_work] Stop_stats [OF assms(3)] by (cases "t = StatsTask") auto
  next
    case Leaving
    then show ?thesis using Leave [of s t] Nil by auto
  next
    case Gone
    then show ?thesis using Await [OF assms(3) awaiting] by blast
  qed
qed

lemma returned_rests:
  assumes "requests_inv s" and "tasks_inv tasks s" and "returned s"
  shows "\<not> stop_step s s'"
proof
  assume "stop_step s s'"
  with assms(3) returned_gone [OF assms] show False
    by (auto elim!: stop_step.cases simp: returned_def)
qed

section \<open>Properties\<close>


text \<open>A stop with one request in flight, which a provider answers after the agent's last flush.\<close>

definition small_config :: config where
  "small_config = config_default\<lparr>cf_marketplace := Some default_market, cf_health := (cf_health config_default)\<lparr>hc_disable_probing := True\<rparr>\<rparr>"

lemma small_tasks: "expected_tasks small_config = [PublicListener, AdminListener, AgentTask, StatsTask]"
  by (simp add: expected_tasks_def small_config_def config_default_def)

definition asked_in_flight :: "pool \<Rightarrow> stopping" where
  "asked_in_flight pool = (accept_request (PublicListener, 0) (running (expected_tasks small_config) pool))\<lparr>sp_asked := True\<rparr>"

definition all_heeded :: "pool \<Rightarrow> stopping" where
  "all_heeded pool = move AgentTask Leaving (move AdminListener Leaving (move PublicListener Leaving (asked_in_flight pool)))"

definition flushed_early :: "pool \<Rightarrow> stopping" where
  "flushed_early pool = (move StatsTask Leaving (all_heeded pool))
     \<lparr>sp_saved := Some pool, sp_unsaved := [], sp_flushed := Some pool, sp_late := []\<rparr>"

definition answered_late :: "pool \<Rightarrow> stopping" where
  "answered_late pool = answer_request (PublicListener, 0) (bill_request 0 0 (flushed_early pool))"

definition all_gone :: "pool \<Rightarrow> stopping" where
  "all_gone pool = (move StatsTask Gone (move AgentTask Gone (move AdminListener Gone (move PublicListener Gone (answered_late pool)))))
     \<lparr>sp_awaiting := []\<rparr>"

lemmas small_defs = asked_in_flight_def all_heeded_def flushed_early_def answered_late_def all_gone_def small_tasks

lemma run_heeds: "stop_step\<^sup>*\<^sup>* (running (expected_tasks small_config) pool) (all_heeded pool)"
proof -
  let ?s = "running (expected_tasks small_config) pool"
  note trans = converse_rtranclp_into_rtranclp [of stop_step]
  have a: "stop_step ?s (accept_request (PublicListener, 0) ?s)"
    by (rule Accept) (simp_all add: stop_defs small_tasks)
  have b: "stop_step (accept_request (PublicListener, 0) ?s) (asked_in_flight pool)"
    unfolding asked_in_flight_def by (rule Ask) (simp add: stop_defs)
  have c: "stop_step (asked_in_flight pool) (move PublicListener Leaving (asked_in_flight pool))"
    by (rule Heed) (simp_all add: stop_defs small_defs)
  have d: "stop_step (move PublicListener Leaving (asked_in_flight pool))
      (move AdminListener Leaving (move PublicListener Leaving (asked_in_flight pool)))"
    by (rule Heed) (simp_all add: stop_defs small_defs)
  have e: "stop_step (move AdminListener Leaving (move PublicListener Leaving (asked_in_flight pool))) (all_heeded pool)"
    unfolding all_heeded_def by (rule Heed) (simp_all add: stop_defs small_defs)
  show ?thesis by (rule trans [OF a trans [OF b trans [OF c trans [OF d r_into_rtranclp [of stop_step, OF e]]]]])
qed

lemma run_answers_late: "stop_step\<^sup>*\<^sup>* (all_heeded pool) (answered_late pool)"
proof -
  let ?s = "(move StatsTask Leaving (all_heeded pool))\<lparr>sp_saved := Some (sp_pool (all_heeded pool)), sp_unsaved := []\<rparr>"
  note trans = converse_rtranclp_into_rtranclp [of stop_step]
  have a: "stop_step (all_heeded pool) ?s"
    by (rule Stop_stats) (simp_all add: stop_defs small_defs)
  have b: "stop_step ?s (?s\<lparr>sp_flushed := Some (sp_pool ?s), sp_late := []\<rparr>)"
    by (rule Last_flush) (simp_all add: stop_defs small_defs)
  have same: "?s\<lparr>sp_flushed := Some (sp_pool ?s), sp_late := []\<rparr> = flushed_early pool"
    by (simp add: stop_defs small_defs)
  have c: "stop_step (flushed_early pool) (answered_late pool)"
    unfolding answered_late_def by (rule Served) (simp add: stop_defs small_defs)
  show ?thesis by (rule trans [OF a trans [OF b [unfolded same] r_into_rtranclp [of stop_step, OF c]]])
qed

lemma run_returns: "stop_step\<^sup>*\<^sup>* (answered_late pool) (all_gone pool)"
proof -
  let ?s1 = "move PublicListener Gone (answered_late pool)"
  let ?s2 = "move AdminListener Gone ?s1"
  let ?s3 = "move AgentTask Gone ?s2"
  let ?s4 = "move StatsTask Gone ?s3"
  let ?left = "\<lambda>ts. ?s4\<lparr>sp_awaiting := ts\<rparr>"
  note trans = converse_rtranclp_into_rtranclp [of stop_step]
  have leave: "stop_step (answered_late pool) ?s1" "stop_step ?s1 ?s2" "stop_step ?s2 ?s3" "stop_step ?s3 ?s4"
    by (rule Leave; simp add: stop_defs small_defs)+
  have first: "?s4 = ?left [PublicListener, AdminListener, AgentTask, StatsTask]"
    by (simp add: stop_defs small_defs)
  have drop: "stop_step (?left (t # ts)) (?left ts)"
    if "t = PublicListener \<or> t = AdminListener \<or> t = AgentTask \<or> t = StatsTask" for t ts
    by (rule Await [of "?left (t # ts)" t ts, simplified]) (use that in \<open>auto simp: stop_defs small_defs\<close>)
  have "stop_step ?s4 (?left [AdminListener, AgentTask, StatsTask])"
    using drop [of PublicListener "[AdminListener, AgentTask, StatsTask]"] unfolding first [symmetric] by simp
  note wait = this drop [of AdminListener "[AgentTask, StatsTask]", simplified]
    drop [of AgentTask "[StatsTask]", simplified] drop [of StatsTask "[]", simplified]
  show ?thesis
    unfolding all_gone_def
    by (rule trans [OF leave(1) trans [OF leave(2) trans [OF leave(3) trans [OF leave(4)
          trans [OF wait(1) trans [OF wait(2) trans [OF wait(3) r_into_rtranclp [of stop_step, OF wait(4)]]]]]]]])
qed




end
