(* ===== verification/Offers.thy ===== *)
theory Offers
  imports Stage
begin

text \<open>
  The rig's scenario with the provider tooling (\<open>offer_accepted\<close> in \<open>crates/rig/src/main.rs\<close>, the
  tooling's side in \<open>provider.rs\<close>), the wait of the sidecar (\<open>writer.rs\<close>) and the relays that are
  stopped and replaced while a scenario runs. The tooling's program is a parameter: a command it
  is run with, whether it succeeded and what it printed. Texts are their bytes, so only the ASCII letters
  have a lower case here, and a port of 65535 has the successor it has in a release build, 0.
\<close>

section \<open>Texts\<close>

definition ascii_lower :: "char \<Rightarrow> char" where
  "ascii_lower c = (if 65 \<le> (of_char c :: nat) \<and> (of_char c :: nat) \<le> 90 then char_of ((of_char c :: nat) + 32) else c)"

definition to_lowercase :: "string \<Rightarrow> string" where
  "to_lowercase t = map ascii_lower t"

definition last_line :: "string \<Rightarrow> string" where
  "last_line printed = (let ls = text_lines (trim printed) in if ls = [] then [] else last ls)"

text \<open>What follows the last colon, once the slashes at the end are cut.\<close>

definition tunnel_port :: "string \<Rightarrow> string" where
  "tunnel_port url = rev (takeWhile (\<lambda>c. c \<noteq> CHR '':'') (dropWhile ((=) (CHR ''/'')) (rev url)))"

text \<open>The token with its recovery byte the other of the two; any other end is a panic.\<close>

definition flip_recovery :: "string \<Rightarrow> string option" where
  "flip_recovery token =
     (let stem = take (length token - 2) token; byte = drop (length token - 2) token
      in if length token < 2 then None
         else if byte = ''1b'' then Some (stem @ ''1c'')
         else if byte = ''1c'' then Some (stem @ ''1b'')
         else None)"

section \<open>The provider tooling\<close>

definition PROVIDER_ADDRESS :: string where
  "PROVIDER_ADDRESS = ''0x70997970c51812dc3a010c7d01b50e0d17dc79c8''"

record 'w tooling =
  tl_run :: "string \<Rightarrow> 'w \<Rightarrow> 'w \<times> (bool \<times> string) option"
  tl_settings :: "'w \<Rightarrow> string option"

definition run_ok :: "'w tooling \<Rightarrow> string \<Rightarrow> 'w \<Rightarrow> 'w \<times> (panic + string)" where
  "run_ok T command w =
     (let (w, output) = tl_run T command w
      in sbind (expect output w) (\<lambda>w (success, printed).
         sbind (ensure success w) (\<lambda>w _. (w, Inr printed))))"

text \<open>The two beacon paths a dev node has none of.\<close>

definition beacon_answer :: "string list \<Rightarrow> json option" where
  "beacon_answer path =
     (if path = [''eth'', ''v1'', ''node'', ''version'']
      then Some (JObj [(''data'', JObj [(''version'', JStr ''rig-beacon/v0'')])])
      else if path = [''eth'', ''v1'', ''node'', ''syncing'']
      then Some (JObj [(''data'', JObj [(''el_offline'', JBool False), (''head_slot'', JStr ''0''),
             (''is_optimistic'', JBool False), (''is_syncing'', JBool False), (''sync_distance'', JStr ''0'')])])
      else None)"

section \<open>The scenario\<close>

text \<open>The callbacks it posts last, and what it asserts of their answers.\<close>

definition refused_for :: "string \<Rightarrow> json \<Rightarrow> bool" where
  "refused_for why answer \<longleftrightarrow> json_at answer ''reject'' = JBool True \<and>
     (case as_str (json_at answer ''reject_reason'') of None \<Rightarrow> False | Some reason \<Rightarrow> contains_text why reason)"

definition callbacks_run ::
    "(string \<Rightarrow> json \<Rightarrow> 'w \<Rightarrow> 'w \<times> json option) \<Rightarrow> string \<Rightarrow> string \<Rightarrow> u16 \<Rightarrow> 'w \<Rightarrow> 'w \<times> (panic + unit)" where
  "callbacks_run callback agreement token port w =
     (let (w, login) = callback ''Login'' (login_body agreement token) w
      in sbind (expect login w) (\<lambda>w login.
         sbind (ensure (login = JObj [(''unchange'', JBool True)]) w) (\<lambda>w _.
           let (w, proxy) = callback ''NewProxy'' (new_proxy_body agreement token port) w
           in sbind (expect proxy w) (\<lambda>w proxy.
              sbind (ensure (proxy = JObj [(''unchange'', JBool True)]) w) (\<lambda>w _.
              sbind (expect (flip_recovery token) w) (\<lambda>w wrong.
                let (w, refused) = callback ''NewProxy'' (new_proxy_body agreement wrong port) w
                in sbind (expect refused w) (\<lambda>w refused.
                   sbind (ensure (refused_for ''not made by the agreement's provider'' refused) w) (\<lambda>w _.
                     let (w, refused) = callback ''NewProxy'' (new_proxy_body agreement token (port + 1)) w
                     in sbind (expect refused w) (\<lambda>w refused.
                        ensure (refused_for ''requested, agreement assigns'' refused) w)))))))))"

text \<open>The agreement and the port that a row of \<open>/nodes\<close> shows.\<close>

definition accepted_facts :: "json \<Rightarrow> (string \<times> string) option" where
  "accepted_facts row =
     Option.bind (as_str (json_at row ''agreement_id'')) (\<lambda>agreement.
     Option.bind (as_str (json_at row ''url'')) (\<lambda>url.
       Some (to_lowercase agreement, tunnel_port url)))"

definition facts_agree :: "string \<Rightarrow> string \<Rightarrow> json \<Rightarrow> bool" where
  "facts_agree agreement port facts \<longleftrightarrow>
     (case as_str (json_at facts ''agreement_key'') of None \<Rightarrow> False | Some k \<Rightarrow> eq_ignore_ascii_case (text_bytes k) (text_bytes agreement)) \<and>
     (case as_u64 (json_at facts ''agreement_port'') of None \<Rightarrow> False | Some p \<Rightarrow> dec_word p = port)"

text \<open>The status is polled until it counts zero requests; the facts read last stay beside the world.\<close>

definition status_look ::
    "(string \<Rightarrow> json option) \<Rightarrow> 'w tooling \<Rightarrow> 'w \<times> json \<Rightarrow> ('w \<times> json) \<times> (panic + bool)" where
  "status_look parse T = (\<lambda>(w, _).
     case sbind (run_ok T ''status'' w) (\<lambda>w printed. expect (parse (last_line printed)) w) of
       (w, Inl p) \<Rightarrow> ((w, JNull), Inl p)
     | (w, Inr facts) \<Rightarrow> ((w, facts), Inr (json_at facts ''count'' = JNum 0)))"

definition status_wait ::
    "(string \<Rightarrow> json option) \<Rightarrow> 'w stage \<Rightarrow> 'w tooling \<Rightarrow> 'w \<Rightarrow> (('w \<times> json) \<times> (panic + unit)) option" where
  "status_wait parse S T w =
     poll (status_look parse T) (sg_now S \<circ> fst) (\<lambda>d. apfst (sg_sleep S d)) (secs 15) (secs 1) (sg_now S w) (w, JNull)"

definition signed_run ::
    "'w tooling \<Rightarrow> (string \<Rightarrow> json \<Rightarrow> 'w \<Rightarrow> 'w \<times> json option) \<Rightarrow> string \<Rightarrow> string \<Rightarrow> 'w \<Rightarrow> 'w \<times> (panic + unit)" where
  "signed_run T callback agreement port w =
     sbind (run_ok T ''start-tunnel'' w) (\<lambda>w _.
     sbind (expect (map_option tunnel_settings (tl_settings T w)) w) (\<lambda>w settings.
     sbind (expect (settings ''TUNNEL_AGREEMENT'') w) (\<lambda>w named.
     sbind (ensure (to_lowercase named = agreement) w) (\<lambda>w _.
     sbind (expect (settings ''TUNNEL_REMOTE_PORT'') w) (\<lambda>w remote.
     sbind (ensure (remote = port) w) (\<lambda>w _.
     sbind (expect (settings ''TUNNEL_TOKEN'') w) (\<lambda>w token.
     sbind (expect (parse_radix 10 (2 ^ 16) port) w) (\<lambda>w number.
       callbacks_run callback agreement token (word_of_nat number) w))))))))"

definition offered :: "json \<Rightarrow> bool option" where
  "offered nodes =
     Some (case nodes of JArr rows \<Rightarrow> list_ex (\<lambda>row. json_at row ''id'' = JStr PROVIDER_ADDRESS) rows | _ \<Rightarrow> False)"

text \<open>From the moment the load balancer is ready and the tooling prepared.\<close>

definition offer_accepted_run ::
    "(string \<Rightarrow> json option) \<Rightarrow> 'w stage \<Rightarrow> 'w tooling \<Rightarrow> (string \<Rightarrow> json \<Rightarrow> 'w \<Rightarrow> 'w \<times> json option) \<Rightarrow> 'w \<Rightarrow>
       ('w \<times> (panic + unit)) option" where
  "offer_accepted_run parse S T callback w =
     after_wait (Some (sbind (run_ok T ''post-offer'' w) (\<lambda>w printed. ensure (contains_text ''Posted: offer'' printed) w))) (\<lambda>w.
     after_wait (wait_nodes S (secs 60) offered w) (\<lambda>w.
       case sbind (fetch_nodes S w) (\<lambda>w nodes.
            sbind (expect (node_row nodes PROVIDER_ADDRESS) w) (\<lambda>w accepted.
            sbind (ensure (json_at accepted ''source'' = JStr ''marketplace'') w) (\<lambda>w _.
              expect (accepted_facts accepted) w))) of
         (w, Inl p) \<Rightarrow> Some (w, Inl p)
       | (w, Inr (agreement, port)) \<Rightarrow>
           Option.bind (status_wait parse S T w) (\<lambda>((w, facts), r).
             case r of
               Inl p \<Rightarrow> Some (w, Inl p)
             | Inr _ \<Rightarrow>
                 Some (sbind (ensure (facts_agree agreement port facts) w) (\<lambda>w _. signed_run T callback agreement port w)))))"

section \<open>The sidecar's wait\<close>

text \<open>\<open>identity\<close> is whether the sidecar answered with a success.\<close>

definition wait_identity :: "'w process \<Rightarrow> ('w \<Rightarrow> 'w \<times> bool) \<Rightarrow> 'w \<Rightarrow> ('w \<times> (panic + unit)) option" where
  "wait_identity P identity w =
     poll (\<lambda>w. let (w, gone) = ps_exited P w
               in if gone then (w, Inl Panicked) else let (w, up) = identity w in (w, Inr up))
       (ps_now P) (ps_sleep P) (secs 30) (200 * 10 ^ 6) (ps_now P w) w"

section \<open>Relays that are replaced\<close>

text \<open>What is served at each address, and the handle of one relay: its address and whether its task runs.\<close>

type_synonym served = "string \<rightharpoonup> lie option"

record relay_handle =
  rh_url :: string
  rh_running :: bool

text \<open>A bind fails where something listens already.\<close>

definition bind_relay :: "string \<Rightarrow> lie option \<Rightarrow> served \<Rightarrow> served option" where
  "bind_relay address lie net = (case net address of Some _ \<Rightarrow> None | None \<Rightarrow> Some (net(address \<mapsto> lie)))"

definition relay_start :: "string \<Rightarrow> lie option \<Rightarrow> served \<Rightarrow> (relay_handle \<times> served) option" where
  "relay_start free lie net =
     map_option (\<lambda>net. (\<lparr>rh_url = ''http://'' @ free, rh_running = True\<rparr>, net)) (bind_relay free lie net)"

definition relay_address :: "relay_handle \<Rightarrow> string" where
  "relay_address h = (case strip_prefix ''http://'' (rh_url h) of Some address \<Rightarrow> address | None \<Rightarrow> rh_url h)"

definition relay_stop :: "relay_handle \<times> served \<Rightarrow> relay_handle \<times> served" where
  "relay_stop = (\<lambda>(h, net).
     if \<not> rh_running h then (h, net) else (h\<lparr>rh_running := False\<rparr>, net(relay_address h := None)))"

definition relay_restart :: "lie option \<Rightarrow> relay_handle \<times> served \<Rightarrow> (relay_handle \<times> served) option" where
  "relay_restart lie st =
     (let (h, net) = relay_stop st
      in Option.bind (bind_relay (relay_address h) lie net) (\<lambda>net.
         if ''http://'' @ relay_address h = rh_url h then Some (h\<lparr>rh_running := True\<rparr>, net) else None))"

section \<open>The relays\<close>

text \<open>A relay that is stopped leaves its port free, and once more is nothing; one that is replaced serves at its address again.\<close>

lemma relay_stop_twice: "relay_stop (relay_stop st) = relay_stop st"
  by (cases st) (simp add: relay_stop_def)

lemma relay_restarts:
  assumes "relay_start free lie net = Some st"
  shows "\<exists>st'. relay_restart lie' st = Some st' \<and> rh_url (fst st') = rh_url (fst st) \<and> snd st' = net(free \<mapsto> lie') \<and>
    snd (relay_stop st) = net"
proof -
  have st: "net free = None" "st = (\<lparr>rh_url = ''http://'' @ free, rh_running = True\<rparr>, net(free \<mapsto> lie))"
    using assms by (auto simp: relay_start_def bind_relay_def split: option.splits)
  have address: "relay_address \<lparr>rh_url = ''http://'' @ free, rh_running = b\<rparr> = free" for b
    by (simp add: relay_address_def strip_prefix_def)
  have stopped: "relay_stop st = (\<lparr>rh_url = ''http://'' @ free, rh_running = False\<rparr>, net)"
    using st(1) unfolding st(2) relay_stop_def by (simp add: address [simplified] fun_upd_idem)
  show ?thesis
    using st(1) unfolding relay_restart_def stopped by (simp add: address [simplified] bind_relay_def st(2))
qed

section \<open>From the row to the tunnel\<close>

lemma contains_text_mid: "contains_text part (a @ part @ b)"
  unfolding contains_text_def list_ex_iff by (intro bexI [of _ "length a"]) (simp_all add: starts_with_def)

lemma refused_for_reason [simp]:
  "refused_for why (JObj [(''reject'', JBool True), (''reject_reason'', JStr reason)]) = contains_text why reason"
  by (simp add: refused_for_def json_at_def)

lemma reasons_named:
  "contains_text ''not made by the agreement's provider'' (rejection_text L WrongSigner)"
  "contains_text ''requested, agreement assigns'' (rejection_text L (WrongPort requested assigned))"
  using contains_text_mid [of "''not made by the agreement's provider''" "''signature was ''" "'' over this agreement id''"]
    contains_text_mid [of "''requested, agreement assigns''" "''port '' @ dec_word requested @ '' ''" "'' '' @ dec_word assigned"]
  by simp_all

lemma tunnel_port_of_url: "tunnel_port (''http://127.0.0.1:'' @ dec n) = dec n"
proof -
  have digits: "CHR '':'' \<notin> set (dec n)" "CHR ''/'' \<notin> set (dec n)"
    by (auto simp: is_ascii_digit_def dest: set_dec)
  obtain c cs where r: "rev (dec n) = c # cs" by (cases "rev (dec n)") simp_all
  then have "c \<in> set (dec n)" by (metis list.set_intros(1) set_rev)
  then have "CHR ''/'' \<noteq> c" using digits(2) by metis
  then have "dropWhile ((=) (CHR ''/'')) (rev (''http://127.0.0.1:'' @ dec n)) = rev (dec n) @ rev ''http://127.0.0.1:''"
    by (simp add: r)
  moreover have "takeWhile (\<lambda>c. c \<noteq> CHR '':'') (rev (dec n) @ rev ''http://127.0.0.1:'') = rev (dec n)"
    using digits(1) by (subst takeWhile_append2) auto
  ultimately show ?thesis by (simp add: tunnel_port_def)
qed

lemma accepted_row:
  assumes "p_source p = p_source (from_marketplace L now a k port)"
    and "p_url p = p_url (from_marketplace L now a k port)" and "to_lowercase (key_hex L k) = key_hex L k"
  shows "accepted_facts (node_view_json (node_view_of L p)) = Some (key_hex L k, dec_word port)"
  using assms tunnel_port_of_url [of "unat port"]
  by (simp add: accepted_facts_def node_view_json_def node_view_of_def from_marketplace_def provider_new_def
      json_at_def nullable_def)

text \<open>
  C28. An accepted offer gets its tunnel. The row of \<open>/nodes\<close> of a provider the marketplace added shows the
  agreement's key and the tunnel's port as the rig reads them. When the tooling then writes settings that
  name both and a token whose signature recovers to that agreement's provider, while the token with its
  recovery byte flipped recovers to somebody else, the callbacks the rig posts pass: the login and the proxy
  are admitted, the flipped token is turned away as another signer's and the next port as not the
  agreement's, each with the reason the rig looks for; and the one thing that happens is the admission.
\<close>

theorem accepted_offer_gets_its_tunnel:
  assumes "p_source p = p_source (from_marketplace L now a key port)" and "p_url p = p_url (from_marketplace L now a key port)"
    and "text_laws L" and "to_lowercase (key_hex L key) = key_hex L key"
    and "run_ok T ''start-tunnel'' w = (w', Inr printed)" and "tl_settings T w' = Some written"
    and "tunnel_settings written ''TUNNEL_AGREEMENT'' = Some (key_hex L key)"
    and "tunnel_settings written ''TUNNEL_REMOTE_PORT'' = Some (dec_word port)"
    and "tunnel_settings written ''TUNNEL_TOKEN'' = Some token"
    and "lookup w' key = Some st" and "lookup (admitted st w') key = Some st" and "ag_remote_port (st_record st) = port"
    and "parse_sig L token = Some sig" and "recover_address L sig (token_message L key) = Some (ag_provider (st_record st))"
    and "flip_recovery token = Some flipped" and "parse_sig L flipped = Some other"
    and "recover_address L other (token_message L key) = Some signer" and "signer \<noteq> ag_provider (st_record st)"
    and "callback = (\<lambda>op content w.
      let (resp, w) = admission_route L (lookup w) admitted bad (Inr (admission_body op content)) w
      in (w, case rs_body resp of JsonBody j \<Rightarrow> Some j | _ \<Rightarrow> None))"
  shows "\<exists>agreement shown. accepted_facts (node_view_json (node_view_of L p)) = Some (agreement, shown) \<and>
    signed_run T callback agreement shown w = (admitted st w', Inr ())"
proof (intro exI conjI)
  show "accepted_facts (node_view_json (node_view_of L p)) = Some (key_hex L key, dec_word port)"
    using assms(1,2,4) by (rule accepted_row)
  have key: "parse_key L (key_hex L key) = Some key" by (rule text_lawsD(2) [OF assms(3)])
  have other_port: "port + 1 \<noteq> port" by simp
  note routes = rig_callbacks_are_decided [OF key _ assms(13,14,16-18) assms(12) [symmetric] other_port refl,
      where admitted = admitted and bad = bad]
  have first: "callback ''Login'' (login_body (key_hex L key) token) w' = (w', Some (JObj [(''unchange'', JBool True)]))"
    "callback ''NewProxy'' (new_proxy_body (key_hex L key) token port) w' =
       (admitted st w', Some (JObj [(''unchange'', JBool True)]))"
    using routes [where lookup = "lookup w'" and w = w', OF assms(10)] by (simp_all add: assms(19) unchange_def)
  have later: "callback ''NewProxy'' (new_proxy_body (key_hex L key) flipped port) (admitted st w') =
       (admitted st w', Some (JObj [(''reject'', JBool True), (''reject_reason'', JStr (rejection_text L WrongSigner))]))"
    "callback ''NewProxy'' (new_proxy_body (key_hex L key) token (port + 1)) (admitted st w') =
       (admitted st w', Some (JObj [(''reject'', JBool True),
          (''reject_reason'', JStr (rejection_text L (WrongPort (port + 1) port)))]))"
    using routes [where lookup = "lookup (admitted st w')" and w = "admitted st w'", OF assms(11)] by (simp_all add: assms(19) turned_away_def del: rejection_text.simps)
  have "callbacks_run callback (key_hex L key) token port w' = (admitted st w', Inr ())"
    using assms(15) reasons_named by (simp add: callbacks_run_def first later ensure_def del: rejection_text.simps)
  moreover have "parse_radix 10 (2 ^ 16) (dec_word port) = Some (unat port)"
    using unsigned_less [of port] by (intro parse_dec) simp
  ultimately show "signed_run T callback (key_hex L key) (dec_word port) w = (admitted st w', Inr ())"
    using assms(4-9) by (simp add: signed_run_def)
qed

definition two_recoveries :: libs where
  "two_recoveries = std_libs\<lparr>recover_address := (\<lambda>sig _. if sig = [27] then Some 5 else Some 6)\<rparr>"

text \<open>The key 9, and settings for it.\<close>

definition shown_key :: string where
  "shown_key = ''0x'' @ replicate 63 (CHR ''0'') @ ''9''"

definition written_settings :: string where
  "written_settings = text_block [''TUNNEL_AGREEMENT='' @ shown_key, ''TUNNEL_REMOTE_PORT=7001'', ''TUNNEL_TOKEN=1b'']"

definition quick_tooling :: "nat tooling" where
  "quick_tooling = \<lparr>tl_run = (\<lambda>_ w. (w, Some (True, []))), tl_settings = (\<lambda>_. Some written_settings)\<rparr>"

lemma key_nine: "key_hex std_libs 9 = shown_key"
proof -
  have zeros: "hex_fixed k 0 = replicate k (CHR ''0'')" for k
    by (induction k) (simp_all add: digit_char_def char_of_def bit_0 replicate_append_same)
  have "hex_fixed (Suc k) 9 = replicate k (CHR ''0'') @ ''9''" for k
    by (simp add: zeros digit_char_def char_of_def bit_0)
  from this [of 63] have "hex_fixed 64 9 = replicate 63 (CHR ''0'') @ ''9''"
    by (simp del: hex_fixed.simps)
  then show ?thesis by (simp add: std_libs_def word_hex_def shown_key_def del: hex_fixed.simps)
qed

lemma settings_read:
  "tunnel_settings written_settings ''TUNNEL_AGREEMENT'' = Some shown_key"
  "tunnel_settings written_settings ''TUNNEL_REMOTE_PORT'' = Some ''7001''"
  "tunnel_settings written_settings ''TUNNEL_TOKEN'' = Some ''1b''"
  by code_simp+

lemma accepted_offer_gets_its_tunnel_witness:
  "signed_run quick_tooling (\<lambda>op content w.
      let (resp, w) = admission_route two_recoveries (\<lambda>_. Some rig_agreement)
            (\<lambda>st w. w + unat (ag_remote_port (st_record st))) [] (Inr (admission_body op content)) w
      in (w, case rs_body resp of JsonBody j \<Rightarrow> Some j | _ \<Rightarrow> None)) shown_key ''7001'' 0 = (7001, Inr ())"
proof -
  let ?p = "from_marketplace two_recoveries 0 5 9 7001"
  have key: "key_hex two_recoveries 9 = shown_key" using key_nine by (simp add: two_recoveries_def)
  have laws: "text_laws two_recoveries" using std_libs_text_laws by (simp add: text_laws_def two_recoveries_def)
  have lower: "to_lowercase (key_hex two_recoveries 9) = key_hex two_recoveries 9"
    unfolding key by code_simp
  have run: "run_ok quick_tooling ''start-tunnel'' 0 = (0, Inr [])" by (simp add: run_ok_def quick_tooling_def)
  have written: "tl_settings quick_tooling 0 = Some written_settings" by (simp add: quick_tooling_def)
  have port: "dec_word (7001 :: u16) = ''7001''" by (simp add: radix_text.simps digit_char_def char_of_def bit_0)
  have sigs: "parse_sig two_recoveries ''1b'' = Some [27]" "parse_sig two_recoveries ''1c'' = Some [28]"
    "flip_recovery ''1b'' = Some ''1c''"
    by (simp_all add: two_recoveries_def std_libs_def char_digit_def flip_recovery_def)
  have signers: "recover_address two_recoveries [27] m = Some (ag_provider (st_record rig_agreement))"
    "recover_address two_recoveries [28] m = Some 6" "6 \<noteq> ag_provider (st_record rig_agreement)"
    "ag_remote_port (st_record rig_agreement) = 7001" for m
    by (simp_all add: two_recoveries_def rig_agreement_def)
  note tunnel = accepted_offer_gets_its_tunnel [where lookup = "\<lambda>_ _. Some rig_agreement" and bad = "[]" and p = ?p and
      admitted = "\<lambda>st w. w + unat (ag_remote_port (st_record st))", OF refl refl laws lower run written
      settings_read(1) [folded key] settings_read(2) [folded port] settings_read(3) refl refl signers(4) sigs(1) signers(1)
      sigs(3,2) signers(2,3) refl]
  have dec_port: "dec 7001 = ''7001''" using port by simp
  show ?thesis
    using tunnel by (auto simp: accepted_row [OF refl refl lower] key dec_port signers(4))
qed

end
