(* ===== verification/Binary.thy ===== *)
theory Binary
  imports Service
begin

text \<open>
  \<open>crates/lb/src/main.rs\<close>: the program around the service. The file is loaded and validated, the
  reference and its key come from the environment, the service is started; a failure ends the
  program with status 1 and its causes. The process's arguments, its environment, the file system and
  the TOML parser are parameters.
\<close>

section \<open>The program\<close>

text \<open>A variable that is set to nothing is not set.\<close>

definition env_value :: "(string \<Rightarrow> string option) \<Rightarrow> string \<Rightarrow> string option" where
  "env_value env name = (case env name of Some v \<Rightarrow> if v = [] then None else Some v | None \<Rightarrow> None)"

definition config_path :: "string list \<Rightarrow> string" where
  "config_path args = (if 1 < length args then args ! 1 else ''config.toml'')"

text \<open>What is printed of an error: itself and every cause in turn.\<close>

definition fail_text :: "string \<Rightarrow> string list \<Rightarrow> string" where
  "fail_text error causes = ''arkiv-lb: '' @ error @ concat (map (\<lambda>cause. '': '' @ cause) causes) @ [CHR 0x0A]"

datatype 'e lb_end = ConfigFailed config_error | StartFailed config service_error | Serving config "'e service"

definition lb_main ::
    "libs \<Rightarrow> (string \<Rightarrow> config option) \<Rightarrow> (string \<Rightarrow> string option) \<Rightarrow> (string \<Rightarrow> string option) \<Rightarrow> string list \<Rightarrow>
       (string \<Rightarrow> string \<Rightarrow> 'e world chain_reader \<times> 'e world chain_writer) \<Rightarrow>
       ('e world \<Rightarrow> u16 \<Rightarrow> 'e world \<times> bool) \<Rightarrow> ('e world \<Rightarrow> duration \<Rightarrow> 'e world) \<Rightarrow> ('e world \<Rightarrow> pref \<Rightarrow> 'e world) \<Rightarrow>
       (socket_addr \<Rightarrow> socket_addr option) \<Rightarrow> 'e world \<times> boot \<Rightarrow> ('e world \<times> boot) \<times> 'e lb_end" where
  "lb_main L toml read env args clients bound sleep verify listening s =
     (case config_load L toml read (config_path args) of
        Inl e \<Rightarrow> (s, ConfigFailed e)
      | Inr config \<Rightarrow>
          (let config = config\<lparr>cf_reference := env_value env ''ARKIV_RPC_URL'',
                 cf_reference_key := env_value env ''ARKIV_API_KEY''\<rparr>
           in case service_start L config clients bound sleep verify listening s of
                (s, Inl e) \<Rightarrow> (s, StartFailed config e)
              | (s, Inr service) \<Rightarrow> (s, Serving config service)))"

fun exit_status :: "'e lb_end \<Rightarrow> nat" where
  "exit_status (Serving _ _) = 0"
| "exit_status _ = 1"

section \<open>What a start can still be refused for\<close>

lemma config_load_Inr:
  assumes "config_load L toml read path = Inr config"
  shows "config_validate L config = Inr ()"
  using assms by (auto simp: config_load_def config_parse_def rbind_Inr_iff ok_or_Inr_iff)

lemma valid_providers_parse:
  assumes "config_validate L config = Inr ()"
  shows "\<exists>pool. pool_new L now (cf_providers config) = Inr pool"
proof -
  have "validate_providers L {} (cf_providers config) = Inr ()"
    using assms by (simp add: config_validate_def Let_def result_simps)
  then have "list_all (\<lambda>p. url_scheme L (pc_url p) \<noteq> None) (cf_providers config)"
    by (auto simp: validate_providers_iff validate_http_url_def list_all_iff split: option.splits)
  moreover have "list_all (\<lambda>p. url_scheme L (pc_url p) \<noteq> None) cs \<Longrightarrow> \<exists>ps. providers_from_config L now cs = Inr ps" for cs
    by (induction cs) (auto simp: from_config_def split: option.split)
  ultimately obtain ps where "providers_from_config L now (cf_providers config) = Inr ps" by blast
  then show ?thesis by (simp add: pool_new_def)
qed

lemma valid_writer_parses:
  assumes "config_validate L config = Inr ()" and "cf_marketplace config = Some m"
  shows "url_scheme L (mc_writer_url m) \<noteq> None"
proof -
  have "marketplace_validate L m = Inr ()" by (rule config_valid(5) [OF assms])
  then have "validate_http_url L ''marketplace.writer_url'' (mc_writer_url m) = Inr ()"
    by (simp add: marketplace_validate_def result_simps)
  then show ?thesis by (auto simp: validate_http_url_def split: option.splits)
qed

lemma validate_reference:
  "config_validate L (config\<lparr>cf_reference := r, cf_reference_key := k\<rparr>) = config_validate L config"
  by (simp add: config_validate_def Let_def)

text \<open>The refusals that remain once the file was validated.\<close>

fun refusable :: "libs \<Rightarrow> config \<Rightarrow> service_error \<Rightarrow> bool" where
  "refusable L config MarketplaceNeedsReference \<longleftrightarrow> cf_marketplace config \<noteq> None \<and> cf_reference config = None"
| "refusable L config IntegrityNeedsReference \<longleftrightarrow> cf_integrity config \<noteq> None \<and> cf_reference config = None"
| "refusable L config (UrlUnparsable what url) \<longleftrightarrow>
     what = ''reference url'' \<and> cf_reference config = Some url \<and> url_scheme L url = None"
| "refusable L config (MarketplaceStart _) \<longleftrightarrow> cf_marketplace config \<noteq> None"
| "refusable L config (ChainMismatch c d) \<longleftrightarrow> cf_marketplace config \<noteq> None \<and> hc_chain_id (cf_health config) = Some c \<and> c \<noteq> d"
| "refusable L config (Bind addr) \<longleftrightarrow> addr = lc_public (cf_listen config) \<or> addr = lc_admin (cf_listen config)"
| "refusable L config (ProviderUrl _) \<longleftrightarrow> False"
| "refusable L config NoChainClients \<longleftrightarrow> False"

lemma start_agent_refusable:
  assumes "start_agent L config chain bound sleep verify checker s = (s', Inl e)"
    and "cf_marketplace config \<noteq> None \<longrightarrow> chain \<noteq> None"
  shows "refusable L config e"
  using assms
  by (cases s) (auto simp: start_agent_def Let_def split: option.splits prod.splits sum.splits if_splits)

lemma start_with_refusable:
  assumes "start_with L config chain bound sleep verify listening s = (s', Inl e)"
    and "cf_marketplace config \<noteq> None \<longrightarrow> chain \<noteq> None"
    and "pool_new L (wo_now (fst s)) (cf_providers config) = Inr pool"
  shows "refusable L config e"
proof (cases "cf_integrity config \<noteq> None \<and> cf_reference config = None")
  case True
  with assms(1) show ?thesis by (auto simp: start_with_def)
next
  case reference: False
  obtain w b where s: "s = (w, b)" by (cases s)
  define chosen where "chosen = (case (cf_integrity config, cf_reference config) of
               (Some _, Some url) \<Rightarrow> rbind (parse_url L ''reference url'' url) (\<lambda>_. Inr True)
             | _ \<Rightarrow> Inr False)"
  note run = assms(1) [unfolded start_with_def if_not_P [OF reference] s fst_conv, folded chosen_def]
  show ?thesis
  proof (cases chosen)
    case (Inl x)
    with run assms(3) have "e = x" by (simp add: s)
    moreover have "refusable L config x"
      using Inl reference unfolding chosen_def by (auto simp: parse_url_def split: option.splits)
    ultimately show ?thesis by simp
  next
    case (Inr checker)
    let ?s = "(w\<lparr>wo_pool := pool\<rparr>, b)"
    obtain s1 ra where a: "start_agent L config chain bound sleep verify checker ?s = (s1, ra)" by (metis surj_pair)
    show ?thesis
    proof (cases ra)
      case (Inl x)
      with run assms(3) Inr a have "e = x" by (simp add: s)
      with start_agent_refusable [OF a [unfolded Inl] assms(2)] show ?thesis by simp
    next
      case agent: (Inr agent)
      with run assms(3) \<open>chosen = Inr checker\<close> a show ?thesis
        by (auto simp: s bind_listener_def parse_url_def Let_def split: option.splits if_splits prod.splits)
    qed
  qed
qed

text \<open>
  C26. What the program still refuses. A file that does not load or does not validate ends the program
  with nothing touched. Past that, a start is refused for what the file could not show: a reference that
  is missing where the marketplace or the checks need it, or that does not parse; the agent's own start;
  a chain that is not the configured one; a listener that cannot be bound. It is never refused for a
  provider's URL, the sidecar's URL or missing clients, which validation has ruled out. And a program
  that serves runs a validated configuration, with both its listeners bound.
\<close>

theorem program_refuses_only:
  assumes "lb_main L toml read env args clients bound sleep verify listening (w, \<lparr>bt_bound = [], bt_tasks = []\<rparr>) =
    ((w', b), ending)"
  shows "case ending of
      ConfigFailed e \<Rightarrow> config_load L toml read (config_path args) = Inl e \<and> w' = w \<and> b = \<lparr>bt_bound = [], bt_tasks = []\<rparr>
    | StartFailed config e \<Rightarrow> config_validate L config = Inr () \<and> cf_reference config = env_value env ''ARKIV_RPC_URL'' \<and>
        refusable L config e
    | Serving config service \<Rightarrow> config_validate L config = Inr () \<and>
        cf_reference config = env_value env ''ARKIV_RPC_URL'' \<and>
        bt_bound b = [lc_public (cf_listen config), lc_admin (cf_listen config)] \<and> bt_tasks b = expected_tasks config"
proof (cases "config_load L toml read (config_path args)")
  case (Inl e)
  with assms show ?thesis by (auto simp: lb_main_def)
next
  case (Inr loaded)
  define config where "config = loaded\<lparr>cf_reference := env_value env ''ARKIV_RPC_URL'',
                 cf_reference_key := env_value env ''ARKIV_API_KEY''\<rparr>"
  have valid: "config_validate L config = Inr ()" "cf_reference config = env_value env ''ARKIV_RPC_URL''"
    using config_load_Inr [OF Inr] by (simp_all add: config_def validate_reference)
  define chosen where "chosen = (case cf_marketplace config of
            None \<Rightarrow> Inr None
          | Some marketplace \<Rightarrow>
              rbind (ok_or MarketplaceNeedsReference (cf_reference config)) (\<lambda>reference.
              rbind (parse_url L ''reference url'' reference) (\<lambda>reference_url.
              rbind (parse_url L ''marketplace.writer_url'' (mc_writer_url marketplace)) (\<lambda>writer_url.
                Inr (Some (clients reference_url writer_url))))))"
  obtain s r where start: "service_start L config clients bound sleep verify listening (w, \<lparr>bt_bound = [], bt_tasks = []\<rparr>) = (s, r)"
    by (metis surj_pair)
  then have run: "sbind (settle (w, \<lparr>bt_bound = [], bt_tasks = []\<rparr>) chosen)
      (\<lambda>s chain. start_with L config chain bound sleep verify listening s) = (s, r)"
    unfolding service_start_def chosen_def .
  obtain pool where pool: "pool_new L (wo_now w) (cf_providers config) = Inr pool"
    using valid_providers_parse [OF valid(1)] by blast
  have refused: "refusable L config e" if "r = Inl e" for e
  proof (cases chosen)
    case (Inl x)
    have "refusable L config x"
      using Inl valid_writer_parses [OF valid(1)] unfolding chosen_def
      by (cases "cf_marketplace config"; cases "cf_reference config") (auto simp: parse_url_def split: option.splits)
    with run Inl that show ?thesis by simp
  next
    case (Inr chain)
    have "cf_marketplace config \<noteq> None \<longrightarrow> chain \<noteq> None"
      using Inr unfolding chosen_def by (auto simp: rbind_Inr_iff)
    with run Inr that show ?thesis
      using start_with_refusable [of L config chain bound sleep verify listening "(w, \<lparr>bt_bound = [], bt_tasks = []\<rparr>)" s e pool] pool
      by simp
  qed
  have serving: "bt_bound (snd s) = [lc_public (cf_listen config), lc_admin (cf_listen config)] \<and>
      bt_tasks (snd s) = expected_tasks config" if "r = Inr service" for service
  proof -
    have "\<exists>chain w1 b1. s = (w1, b1) \<and>
        start_with L config chain bound sleep verify listening (w, \<lparr>bt_bound = [], bt_tasks = []\<rparr>) = ((w1, b1), Inr service)"
    proof (cases chosen)
      case (Inl x)
      with run that show ?thesis by simp
    next
      case (Inr chain)
      with run that show ?thesis by (intro exI [of _ chain]) (auto simp: prod_eq_iff)
    qed
    then obtain chain w1 b1 where s: "s = (w1, b1)" and
      "start_with L config chain bound sleep verify listening (w, \<lparr>bt_bound = [], bt_tasks = []\<rparr>) = ((w1, b1), Inr service)"
      by blast
    from this(2) show ?thesis by (cases rule: start_with_cases) (simp_all add: s)
  qed
  have "lb_main L toml read env args clients bound sleep verify listening (w, \<lparr>bt_bound = [], bt_tasks = []\<rparr>) =
      (s, case r of Inl e \<Rightarrow> StartFailed config e | Inr service \<Rightarrow> Serving config service)"
    by (cases r) (simp_all add: lb_main_def Inr Let_def start flip: config_def)
  with assms have e: "s = (w', b)" "ending = (case r of Inl e \<Rightarrow> StartFailed config e | Inr service \<Rightarrow> Serving config service)"
    by simp_all
  show ?thesis
    using valid refused serving by (cases r) (simp_all add: e)
qed

text \<open>A marketplace in the file and a reference set to nothing: the program refuses to start.\<close>

lemma program_refuses_only_witness:
  "\<exists>config. lb_main std_libs (\<lambda>_. Some (config_default\<lparr>cf_marketplace := Some default_market\<rparr>)) (\<lambda>_. Some [])
      (\<lambda>_. Some []) [''arkiv-lb''] (\<lambda>_ _. (shelf_reader (\<lambda>_. []), shelf_writer)) (\<lambda>w _. (w, False))
      (\<lambda>w _. w) (\<lambda>w _. w) Some (static_world, \<lparr>bt_bound = [], bt_tasks = []\<rparr>) =
        ((static_world, \<lparr>bt_bound = [], bt_tasks = []\<rparr>), StartFailed config MarketplaceNeedsReference) \<and>
     refusable std_libs config MarketplaceNeedsReference"
proof -
  let ?c = "config_default\<lparr>cf_marketplace := Some default_market\<rparr>"
  let ?main = "lb_main std_libs (\<lambda>_. Some ?c) (\<lambda>_. Some [])
      (\<lambda>_. Some []) [''arkiv-lb''] (\<lambda>_ _. (shelf_reader (\<lambda>_. []), shelf_writer)) (\<lambda>w _. (w, False))
      (\<lambda>w _. w) (\<lambda>w _. w) Some (static_world, \<lparr>bt_bound = [], bt_tasks = []\<rparr>)"
  have "config_validate std_libs ?c = Inr ()" using market_config_validates by simp
  then have run: "?main = ((static_world, \<lparr>bt_bound = [], bt_tasks = []\<rparr>),
      StartFailed (?c\<lparr>cf_reference := None, cf_reference_key := None\<rparr>) MarketplaceNeedsReference)"
    by (simp add: lb_main_def config_load_def config_parse_def env_value_def service_start_def)
  from program_refuses_only [OF run] run show ?thesis by auto
qed

end
