(* ===== verification/Stacks.thy ===== *)
theory Stacks
  imports Offers Binary
begin

text \<open>
  A scenario as the rig runs it (\<open>start_stack\<close>, \<open>boot\<close>, \<open>Lb::spawn\<close> and the drops in
  \<open>crates/rig/src/main.rs\<close>): the fleet, the load balancer over it, the scenario, and all of it taken down,
  also where something panics, since a panic unwinds through the same drops.
\<close>

section \<open>The load balancer's process\<close>

text \<open>Its environment: the machine's own endpoint does not leak in, and the rig's reference is set if there is one.\<close>

definition lb_environment :: "string option \<Rightarrow> (string \<rightharpoonup> string) \<Rightarrow> (string \<rightharpoonup> string)" where
  "lb_environment reference env =
     (let env = env(''ARKIV_RPC_URL'' := None, ''ARKIV_API_KEY'' := None, ''NO_COLOR'' \<mapsto> ''1'')
      in case reference of Some url \<Rightarrow> env(''ARKIV_RPC_URL'' \<mapsto> url) | None \<Rightarrow> env)"

definition lb_args :: "string \<Rightarrow> string list" where
  "lb_args config = [''arkiv-lb'', config]"

text \<open>What the program then reads of them.\<close>

lemma lb_reads_the_rigs_reference:
  "env_value (lb_environment reference env) ''ARKIV_RPC_URL'' = (if reference = Some [] then None else reference)"
  "env_value (lb_environment reference env) ''ARKIV_API_KEY'' = None"
  "config_path (lb_args config) = config"
  by (cases reference; simp add: env_value_def lb_environment_def lb_args_def config_path_def)+

section \<open>The fleet's chain\<close>

text \<open>\<open>output\<close> is what the script prints for the first node, when it succeeds.\<close>

definition fleet_chain_id :: "string option \<Rightarrow> u64 option" where
  "fleet_chain_id output = Option.bind output (\<lambda>printed. map_option word_of_nat (parse_radix 10 (2 ^ 64) (trim printed)))"

section \<open>A scenario over its stack\<close>

definition NODES :: nat where
  "NODES = 3"

definition BASE_PORT :: u16 where
  "BASE_PORT = 18650"

text \<open>
  The world of a stack: the process's, with the containers that run. \<open>spawn\<close> starts the process over a
  configuration and says whether it could; \<open>body\<close> is what runs once it is ready.
\<close>

record 'w rig_parts =
  rp_answers :: "string \<Rightarrow> bool"
  rp_chain_id :: "string option"
  rp_spawn :: "string \<Rightarrow> 'w \<Rightarrow> 'w \<times> bool"
  rp_process :: "'w process"
  rp_health :: "'w \<Rightarrow> 'w \<times> json option"

definition stack_down ::
    "'w rig_parts \<Rightarrow> node list \<Rightarrow> panic + unit \<Rightarrow> 'w \<times> string set \<Rightarrow> (('w \<times> string set) \<times> (panic + unit)) option" where
  "stack_down R nodes r = (\<lambda>(w, running).
     map_option (\<lambda>w. ((w, fleet_drop nodes running), r)) (lb_drop (rp_process R) w))"

definition stack_run ::
    "'w rig_parts \<Rightarrow> string \<Rightarrow> (node list \<Rightarrow> 'w \<times> string set \<Rightarrow> (('w \<times> string set) \<times> (panic + unit)) option) \<Rightarrow>
       'w \<times> string set \<Rightarrow> (('w \<times> string set) \<times> (panic + unit)) option" where
  "stack_run R header body = (\<lambda>(w, running).
     case fleet_start (rp_answers R) NODES BASE_PORT running of
       (None, running) \<Rightarrow> Some ((w, running), Inl Panicked)
     | (Some nodes, running) \<Rightarrow>
         (case fleet_chain_id (rp_chain_id R) of
            None \<Rightarrow> Some ((w, fleet_drop nodes running), Inl Panicked)
          | Some chain_id \<Rightarrow>
              (case rp_spawn R (render_config header chain_id (map (\<lambda>n. (nd_id n, nd_url n)) nodes)) w of
                 (w, False) \<Rightarrow> Some ((w, fleet_drop nodes running), Inl Panicked)
               | (w, True) \<Rightarrow>
                   Option.bind (Stage.wait_ready (rp_process R) (rp_health R) w) (\<lambda>(w, ready).
                   case ready of
                     Inl p \<Rightarrow> stack_down R nodes (Inl p) (w, running)
                   | Inr _ \<Rightarrow>
                       Option.bind (body nodes (w, running)) (\<lambda>(st, r). stack_down R nodes r st)))))"

text \<open>The first scenario does nothing more.\<close>

definition boot_run :: "'w rig_parts \<Rightarrow> string \<Rightarrow> 'w \<times> string set \<Rightarrow> (('w \<times> string set) \<times> (panic + unit)) option" where
  "boot_run R header = stack_run R header (\<lambda>_ st. Some (st, Inr ()))"

section \<open>Nothing is left behind\<close>

definition fleet_ids :: "string set" where
  "fleet_ids = nd_id ` node_at BASE_PORT ` {0..<NODES}"

lemma stack_fleet:
  assumes "fleet_start answers NODES BASE_PORT running = (res, running')"
  shows "case res of Some nodes \<Rightarrow> nd_id ` set nodes = fleet_ids \<and> running' = running \<union> fleet_ids
    | None \<Rightarrow> running' \<subseteq> running \<and> running - fleet_ids \<subseteq> running'"
proof (cases res)
  case (Some nodes)
  with fleet_leaves_nothing_behind [where answers = answers and number = NODES and base_port = BASE_PORT and running = running] assms show ?thesis
    by (auto simp: fleet_ids_def image_image)
next
  case None
  with fleet_leaves_nothing_behind [where answers = answers and number = NODES and base_port = BASE_PORT and running = running] assms obtain i where
    "i < NODES" "running' = running - nd_id ` node_at BASE_PORT ` {0..i}" by auto
  then show ?thesis unfolding None fleet_ids_def by auto
qed

lemma fleet_drop_ids: "nd_id ` set nodes = fleet_ids \<Longrightarrow> fleet_drop nodes running = running - fleet_ids"
  by (simp add: fleet_drop_def fold_node_drop)

text \<open>What is asked of the process: sleeps take their time, and one that exited or was killed is not up.\<close>

definition process_laws :: "'w rig_parts \<Rightarrow> ('w \<Rightarrow> bool) \<Rightarrow> bool" where
  "process_laws R up \<longleftrightarrow>
     moves_on (ps_now (rp_process R)) (ps_sleep (rp_process R)) (ps_exited (rp_process R)) \<and>
     (\<forall>w. ps_now (rp_process R) w \<le> ps_now (rp_process R) (fst (rp_health R w))) \<and>
     (\<forall>w. snd (ps_exited (rp_process R) w) \<longrightarrow> \<not> up (fst (ps_exited (rp_process R) w))) \<and>
     (\<forall>w. \<not> up (ps_kill (rp_process R) w)) \<and>
     (\<forall>config w. \<not> up w \<and> \<not> snd (rp_spawn R config w) \<longrightarrow> \<not> up (fst (rp_spawn R config w)))"

text \<open>A body that comes to an end, whatever it found, and touches no container but the fleet's.\<close>

definition body_ends ::
    "(node list \<Rightarrow> 'w \<times> string set \<Rightarrow> (('w \<times> string set) \<times> (panic + unit)) option) \<Rightarrow> string set \<Rightarrow> bool" where
  "body_ends body others \<longleftrightarrow> (\<forall>nodes w running. running - fleet_ids = others \<longrightarrow>
     (\<exists>w' running' r. body nodes (w, running) = Some ((w', running'), r) \<and> running' - fleet_ids = others))"

lemma stack_taken_down:
  assumes "process_laws R up" and "nd_id ` set nodes = fleet_ids"
  shows "\<exists>w'. stack_down R nodes r (w, running) = Some ((w', running - fleet_ids), r) \<and> \<not> up w'"
proof -
  have "\<exists>w'. lb_drop (rp_process R) w = Some w' \<and> \<not> up w'"
  proof (rule lb_drop_ends)
    show "moves_on (ps_now (rp_process R)) (ps_sleep (rp_process R)) (ps_exited (rp_process R))"
      using assms(1) by (simp add: process_laws_def)
    show "\<not> up v'" if "ps_exited (rp_process R) v = (v', True)" for v v'
      using assms(1) that by (auto simp: process_laws_def dest: spec [of _ v])
    show "\<not> up (ps_kill (rp_process R) v)" for v
      using assms(1) by (simp add: process_laws_def)
  qed
  then show ?thesis by (auto simp: stack_down_def fleet_drop_ids [OF assms(2)])
qed


text \<open>A stack whose load balancer never gets ready, and does not leave on the first signal.\<close>

definition hung :: "(nat \<times> bool) rig_parts" where
  "hung = \<lparr>rp_answers = (\<lambda>_. True), rp_chain_id = Some ''1337'', rp_spawn = (\<lambda>_ w. ((fst w, True), True)),
     rp_process = stubborn, rp_health = (\<lambda>w. (w, None))\<rparr>"


end
