(* ===== verification/Amounts.thy ===== *)
theory Amounts
  imports Config
begin

text \<open>
  An amount of wei as the agent's log lines show it (\<open>glm\<close> of \<open>marketplace/agent.rs\<close>), beside the
  reader of amounts of the configuration (\<open>glm\<close> of \<open>config.rs\<close>): what the one prints, the other reads
  back. \<open>format_ether\<close> and the integer parser belong to the alloy and ruint crates, and are parameters.
\<close>

section \<open>Printing\<close>

definition trim_end_matches :: "char \<Rightarrow> string \<Rightarrow> string" where
  "trim_end_matches c s = rev (dropWhile ((=) c) (rev s))"

definition glm_text :: "(u256 \<Rightarrow> string) \<Rightarrow> u256 \<Rightarrow> string" where
  "glm_text format_ether amount = trim_end_matches (CHR ''.'') (trim_end_matches (CHR ''0'') (format_ether amount))"

section \<open>The form of the library's text\<close>

fun dec_fixed :: "nat \<Rightarrow> nat \<Rightarrow> string" where
  "dec_fixed 0 n = []"
| "dec_fixed (Suc k) n = dec_fixed k (n div 10) @ [digit_char (n mod 10)]"

text \<open>Eighteen decimals, always.\<close>

definition ether_text :: "nat \<Rightarrow> string" where
  "ether_text n = dec (n div 10 ^ GLM_DECIMALS) @ CHR ''.'' # dec_fixed GLM_DECIMALS (n mod 10 ^ GLM_DECIMALS)"

text \<open>What is relied on of the parser: a run of decimal digits is the number it writes, if it fits.\<close>

definition reads_decimals :: "(string \<Rightarrow> u256 option) \<Rightarrow> bool" where
  "reads_decimals parse \<longleftrightarrow>
     (\<forall>s. s \<noteq> [] \<longrightarrow> list_all is_ascii_digit s \<longrightarrow> parse s = map_option word_of_nat (parse_radix 10 (2 ^ 256) s))"

section \<open>Lemmas\<close>

lemma trim_end_matches_Nil [simp]: "trim_end_matches c [] = []"
  by (simp add: trim_end_matches_def)

lemma trim_end_matches_snoc [simp]: "trim_end_matches c (xs @ [x]) = (if x = c then trim_end_matches c xs else xs @ [x])"
  by (auto simp: trim_end_matches_def)

lemma trim_end_matches_append: "trim_end_matches c (xs @ ys) = (if trim_end_matches c ys = [] then trim_end_matches c xs else xs @ trim_end_matches c ys)"
proof (induction ys rule: rev_induct)
  case (snoc y ys)
  then show ?case using trim_end_matches_snoc [of c "xs @ ys" y] by simp
qed simp

lemma trim_end_matches_id: "c \<notin> set s \<Longrightarrow> trim_end_matches c s = s"
  by (induction s rule: rev_induct) auto

lemma trim_end_matches_pad: "length s = n \<Longrightarrow> pad_right n (trim_end_matches (CHR ''0'') s) = s"
proof (induction s arbitrary: n rule: rev_induct)
  case (snoc x xs)
  note pad = snoc.IH [OF refl]
  show ?case
  proof (cases "x = CHR ''0''")
    case True
    have "length (trim_end_matches (CHR ''0'') xs) \<le> length xs"
      by (simp add: trim_end_matches_def length_dropWhile_le [of _ "rev xs", simplified])
    moreover have "replicate (Suc k) (CHR ''0'') = replicate k (CHR ''0'') @ ''0''" for k
      by (simp add: replicate_append_same)
    ultimately have "pad_right n (trim_end_matches (CHR ''0'') xs) = pad_right (length xs) (trim_end_matches (CHR ''0'') xs) @ ''0''"
      using snoc.prems by (auto simp: pad_right_def Suc_diff_le simp del: replicate_Suc)
    with True pad show ?thesis by simp
  qed (use snoc.prems in \<open>simp add: pad_right_def\<close>)
qed (simp add: pad_right_def)

lemma set_trim_end_matches: "set (trim_end_matches c s) \<subseteq> set s"
  by (auto simp: trim_end_matches_def dest: set_dropWhileD)

lemma length_dec_fixed [simp]: "length (dec_fixed k n) = k"
  by (induction k n rule: dec_fixed.induct) simp_all

lemma set_dec_fixed: "c \<in> set (dec_fixed k n) \<Longrightarrow> is_ascii_digit c"
proof (induction k n rule: dec_fixed.induct)
  case (2 k n)
  have "is_ascii_digit (digit_char d)" if "d < 10" for d
    by (rule set_dec [of _ d]) (simp add: that radix_text.simps [of 10 d] del: radix_text.simps)
  with 2 show ?case by auto
qed simp

lemma dec_fixed_numeral:
  "dec_fixed (numeral k) n = dec_fixed (pred_numeral k) (n div 10) @ [digit_char (n mod 10)]"
  unfolding numeral_eq_Suc [of k] by (rule dec_fixed.simps(2))

lemma dec_fixed_value:
  assumes "n < 10 ^ k" and "acc * 10 ^ k + n < b"
  shows "radix_value 10 b acc (dec_fixed k n) = Some (acc * 10 ^ k + n)"
  using assms
proof (induction k n rule: dec_fixed.induct)
  case (2 k n)
  have n: "n = n div 10 * 10 + n mod 10" by simp
  have "acc * 10 ^ k + n div 10 \<le> acc * 10 ^ Suc k + n"
    by (intro add_mono) simp_all
  with 2 have "radix_value 10 b acc (dec_fixed k (n div 10)) = Some (acc * 10 ^ k + n div 10)"
    by (simp add: less_mult_imp_div_less mult.commute)
  moreover have "(acc * 10 ^ k + n div 10) * 10 + n mod 10 = acc * 10 ^ Suc k + n"
    using n by (simp add: algebra_simps)
  ultimately show ?case
    using 2(3) by (simp add: radix_value_append char_digit_digit_char)
qed simp

lemma no_point: "list_all is_ascii_digit s \<Longrightarrow> CHR ''.'' \<notin> set s"
  by (auto simp: list_all_iff is_ascii_digit_def)

lemma split_once_point:
  assumes "list_all is_ascii_digit whole"
  shows "split_once (CHR ''.'') whole = None"
    and "split_once (CHR ''.'') (whole @ CHR ''.'' # rest) = Some (whole, rest)"
  using no_point [OF assms] by (induction whole) auto

lemma whole_digits: "list_all is_ascii_digit (dec n)" "list_all is_ascii_digit (dec_fixed k n)"
  by (auto simp: list_all_iff dest: set_dec set_dec_fixed)

lemma ether_digits_value:
  assumes "n < b"
  shows "parse_radix 10 b (dec (n div 10 ^ GLM_DECIMALS) @ dec_fixed GLM_DECIMALS (n mod 10 ^ GLM_DECIMALS)) = Some n"
proof -
  let ?w = "dec (n div 10 ^ GLM_DECIMALS)" and ?f = "dec_fixed GLM_DECIMALS (n mod 10 ^ GLM_DECIMALS)"
  obtain c cs where t: "?w = c # cs" using radix_text_nonempty by (cases ?w) auto
  have "c \<noteq> CHR ''+''" using hd_radix_text [of 10 "n div 10 ^ GLM_DECIMALS"] t by simp
  then have "parse_radix 10 b (?w @ ?f) = radix_value 10 b 0 (?w @ ?f)"
    by (simp add: parse_radix_def t)
  also have "\<dots> = radix_value 10 b (n div 10 ^ GLM_DECIMALS) ?f"
    using assms radix_value_text [of 10 "n div 10 ^ GLM_DECIMALS" b]
    by (simp add: radix_value_append order.strict_trans1 [OF div_le_dividend])
  also have "\<dots> = Some n"
    using dec_fixed_value [of "n mod 10 ^ GLM_DECIMALS" GLM_DECIMALS "n div 10 ^ GLM_DECIMALS" b] assms
    unfolding div_mult_mod_eq by simp
  finally show ?thesis .
qed

text \<open>The two trims: the zeros of the fraction, then the point if nothing is left of it.\<close>

lemma glm_text_form:
  assumes "format_ether amount = ether_text (unat amount)"
    and "f = trim_end_matches (CHR ''0'') (dec_fixed GLM_DECIMALS (unat amount mod 10 ^ GLM_DECIMALS))"
    and "whole = dec (unat amount div 10 ^ GLM_DECIMALS)"
  shows "glm_text format_ether amount = (if f = [] then whole else whole @ CHR ''.'' # f)"
proof -
  have trimmed: "trim_end_matches (CHR ''0'') (format_ether amount) = whole @ CHR ''.'' # f"
    using trim_end_matches_append [of "CHR ''0''" "whole @ [CHR ''.'']"] by (auto simp: assms ether_text_def)
  have "CHR ''.'' \<notin> set f"
    using set_trim_end_matches no_point [OF whole_digits(2)] unfolding assms(2) by blast
  moreover have "CHR ''.'' \<notin> set whole" using no_point [OF whole_digits(1)] assms(3) by simp
  ultimately show ?thesis
    using trim_end_matches_append [of "CHR ''.''" "whole @ [CHR ''.'']" f]
    by (simp add: glm_text_def trimmed trim_end_matches_id)
qed

text \<open>
  C30. Amounts survive the log. What the agent prints of an amount of wei, its trailing zeros cut, is an
  amount the configuration accepts, and it reads back as the same number of wei: cutting the zeros and
  the point loses nothing, at any size, zero included.
\<close>

theorem glm_amounts_round_trip:
  assumes "\<forall>amount. format_ether amount = ether_text (unat amount)" and "reads_decimals (parse_wei L)"
  shows "parse_glm L (glm_text format_ether amount) = Inr amount"
proof -
  define whole where "whole = dec (unat amount div 10 ^ GLM_DECIMALS)"
  define frac where "frac = dec_fixed GLM_DECIMALS (unat amount mod 10 ^ GLM_DECIMALS)"
  define f where "f = trim_end_matches (CHR ''0'') frac"
  have digits: "list_all is_ascii_digit whole" "list_all is_ascii_digit frac"
    by (simp_all add: whole_def frac_def whole_digits)
  have f: "list_all is_ascii_digit f" "length f \<le> GLM_DECIMALS"
    using digits(2) set_trim_end_matches [of _ frac] length_dropWhile_le [of _ "rev frac"]
    by (auto simp: f_def list_all_iff) (simp add: trim_end_matches_def frac_def)
  have split: "(case split_once (CHR ''.'') (glm_text format_ether amount) of
        None \<Rightarrow> (glm_text format_ether amount, []) | Some p \<Rightarrow> p) = (whole, f)"
    using glm_text_form [of format_ether amount f whole] assms(1) split_once_point [OF digits(1)]
    by (simp add: f_def frac_def whole_def)
  have "unat amount < 2 ^ 256" using unsigned_less [of amount] by simp
  from ether_digits_value [OF this] have "parse_wei L (whole @ frac) = Some amount"
    using assms(2) digits by (simp add: reads_decimals_def whole_def frac_def)
  moreover have "pad_right GLM_DECIMALS f = frac"
    by (simp add: f_def trim_end_matches_pad frac_def)
  moreover have "whole \<noteq> []" by (simp add: whole_def)
  ultimately show ?thesis
    using digits f by (simp add: parse_glm_def split)
qed

lemma glm_amounts_round_trip_witness:
  "parse_glm std_libs (glm_text (\<lambda>amount. ether_text (unat amount)) 19900000000000000) = Inr 19900000000000000 \<and>
   glm_text (\<lambda>amount. ether_text (unat amount)) 19900000000000000 = ''0.0199''"
proof -
  have "reads_decimals (parse_wei std_libs)" by (simp add: reads_decimals_def std_libs_def)
  then have "parse_glm std_libs (glm_text (\<lambda>amount. ether_text (unat amount)) 19900000000000000) = Inr 19900000000000000"
    by (intro glm_amounts_round_trip) simp_all
  moreover have "ether_text 19900000000000000 = ''0.019900000000000000''"
    by (simp add: ether_text_def GLM_DECIMALS_def dec_fixed_numeral digit_char_def char_of_def bit_0 radix_text.simps [of 10 0])
  then have "glm_text (\<lambda>amount. ether_text (unat amount)) 19900000000000000 = ''0.0199''"
    by (simp add: glm_text_def trim_end_matches_def)
  ultimately show ?thesis by simp
qed

end
