(* ===== verification/Spec2Isabelle.thy ===== *)
theory Spec2Isabelle
  imports Clients Tunnels Entities Evidence Tasks Scenarios Shutdown Stacks Amounts
begin

text \<open>
  The load balancer of the Arkiv community network, the crate \<open>crates/lb\<close>: an HTTP proxy in front
  of a pool of Arkiv nodes, some configured, some providers it makes agreements with on the Arkiv
  chain itself and pays by the requests they served; and the rig that tests it, \<open>crates/rig\<close>, with
  the parts of it that decide anything: the relay that lies, the load generator, the commands.

  \<^bold>\<open>The parts and how they meet.\<close> Everything goes through the pool (\<open>pool.rs\<close>): a list of providers,
  each with its counters, a byte of gates and a log. Clients' requests are checked and forwarded to
  eligible providers in turn (\<open>proxy.rs\<close>, \<open>forwarder.rs\<close>, \<open>denylist.rs\<close>, \<open>jsonrpc.rs\<close>); the
  Monitor probes every provider and opens or shuts its health gate (\<open>monitor.rs\<close>); the checker compares
  what providers answer with a reference node and shuts the integrity gate (\<open>integrity.rs\<close>). The
  marketplace agent (\<open>marketplace/agent.rs\<close>) reads the chain's records and writes them through the two
  chain traits (\<open>chain/records.rs\<close>, \<open>chain/reader.rs\<close>, \<open>chain/writer.rs\<close>), adds and removes
  providers, and turns the pool's counts into counter records; the tunnel server asks the admin
  listener who may connect (\<open>marketplace/admission.rs\<close>, \<open>admin.rs\<close>); \<open>stats.rs\<close> keeps hourly
  rings; \<open>config.rs\<close> is what all of it was configured with, and \<open>service.rs\<close> starts it.

  \<^bold>\<open>Theories.\<close>
  \<^item> \<open>Prelude\<close>, \<open>Texts\<close>, \<open>Libs\<close>: machine integers and saturating arithmetic, ordered and plain
    association lists for \<open>BTreeMap\<close> and \<open>HashMap\<close>, results (\<open>rbind\<close> is the question mark
    operator) and operations that await (\<open>sbind\<close>), decimal and hexadecimal texts; JSON values, and the
    record \<open>libs\<close> of the third-party functions the crate calls, with \<open>text_laws\<close>, what they are
    documented to satisfy, and an instance of them.
  \<^item> \<open>Records\<close>: the typed attributes and the five record kinds. The locale \<open>chain_record\<close> is the
    trait \<open>Record\<close>, interpreted at every kind; encoding and decoding are shown inverse.
  \<^item> \<open>Http\<close>, \<open>Reader\<close>, \<open>Writer\<close>, \<open>Clients\<close>: an exchange and the cap on an untrusted body; queries
    and their text; batches, their splitting and the classes of a write's answer; the two HTTP clients as
    the chain traits \<open>chain_reader\<close> and \<open>chain_writer\<close>.
  \<^item> \<open>Config\<close>: the sections, the defaults and every validation rule; what a valid configuration
    guarantees the rest.
  \<^item> \<open>Pool\<close>, \<open>Rotation\<close>: a provider as a record, what happens to it as events
    (\<open>provider_apply\<close>), its gates and streaks; the membership, and the selection.
  \<^item> \<open>Forwarder\<close>, \<open>Proxy\<close>: a request's checks, one attempt, the loop over providers under a deadline.
  \<^item> \<open>Monitor\<close>, \<open>Integrity\<close>, \<open>Stats\<close>, \<open>Admission\<close>: one theory per file; \<open>Admission\<close> states in the
    locale \<open>agreements\<close> what the route relies on of the trait of that name.
  \<^item> \<open>Evidence\<close>, \<open>Tasks\<close>, \<open>Routes\<close>: around those, what a round logs and the texts of a
    divergence; the loops of the statistics and the checks, and the saved file, as every state of the
    directory a save passes through; the two routers and the JSON of the admin responses.
  \<^item> \<open>Agent\<close>, \<open>Discovery\<close>, \<open>Settlement\<close>: the definitions of \<open>agent.rs\<close>, split as the file is:
    memory and the two reconciles; offers, refresh, admission, listing and start; the flush and the task.
  \<^item> \<open>Rely\<close>: what the agent relies on while it awaits. The locale \<open>steady\<close> says that a call to a
    client changes nothing but what the other tasks may change (\<open>kept\<close>); it is interpreted at an agent over
    the HTTP clients of \<open>Clients\<close>, with any answers and any steps of the other tasks in every await.
  \<^item> \<open>Counters\<close>, \<open>Flush\<close>, \<open>Acceptance\<close>, \<open>Upkeep\<close>, \<open>Tunnels\<close>, \<open>Running\<close>: the agent's proofs,
    by what they are about. \<open>Tunnels\<close> interprets \<open>agreements\<close> at the agent; \<open>Running\<close> carries the invariant
    of memory and the pool through a whole run.
  \<^item> \<open>Service\<close>, \<open>Binary\<close>, \<open>Shutdown\<close>: the order of the start; the program around it, up to serving; and the
    stop, where the tasks interleave: a step relation over their phases, the requests in flight, and the pool
    these are billed in, with the pool as the last flush and the statistics' last hour read it.
  \<^item> \<open>Amounts\<close>: the log's text of an amount beside the configuration's reader of amounts.
  \<^item> \<open>Relay\<close>, \<open>Load\<close>, \<open>Rig\<close>: the rig's relay with its lies (\<open>crates/rig/src/relay.rs\<close>), its load
    generator (\<open>load.rs\<close>), and its commands, fleet and callbacks (\<open>main.rs\<close>, \<open>fleet.rs\<close>,
    \<open>provider.rs\<close>).
  \<^item> \<open>Stage\<close>: the bodies of the rig's scenarios as programs over a \<open>stage\<close>, which is what they ask and
    do, with every assertion a panic of the result; the balancer's and the sidecar's processes; the
    configuration files it renders.
  \<^item> \<open>Offers\<close>, \<open>Stacks\<close>: the scenario with the provider tooling, the relays it replaces and the sidecar's
    wait; the stack every scenario is run over, and taken down with, whatever panics.
  \<^item> \<open>Liars\<close>, \<open>Entities\<close>, \<open>Distribution\<close>, \<open>Scenarios\<close>: the rig against the load balancer. A relay
    composed with the Monitor and the checker, and a sequence of requests with the pool's bills: what
    \<open>wrong-block\<close>, \<open>wrong-entity\<close> and \<open>frozen-head\<close> assert, proved of the models. \<open>Scenarios\<close> takes the
    two routers for the stage's listeners and runs \<open>denylist\<close>, and the load of \<open>distribution\<close>, against them.

  \<^bold>\<open>State and time.\<close> A pool's entries live in a heap, addressed by \<open>pref\<close>, since the code shares them
  by \<open>Arc\<close>: an entry outlives its removal from the members. An \<open>Instant\<close> and a \<open>Duration\<close> are
  their nanoseconds; counters are words of their width. The agent's operations take a \<open>world\<close> (the pool, the
  agreements' map, the running admissions, the clock and the environment) and return it, and every call to a client
  takes the world and returns it too, so whatever the other tasks do during an await is part of that call;
  what the code does between two awaits is one step. A \<open>HashMap\<close>'s entries are a list in the order an
  iteration meets them, which is any order.

  \<^bold>\<open>What the groups of lemmas show.\<close> For the pool: the hysteresis of the health gate, that only
  successes open it, and that a selection goes round the eligible members. For the proxy: that a request ends
  within its attempts, is billed to exactly the provider whose answer was sent, and never opens a gate. For
  the Monitor and the checker: what each probe and each round does to whom. For the records and the chain
  clients: round trips, literals that cannot be broken out of, each operation of a batch reported once. For the
  agent: the slots of the marketplace as an abstract map, which the reconcile of the agreements refines; that a
  count is settled once, whichever answer is lost; that the chain's counter records after a flush hold what was
  served, over an abstract chain that merges patches; that a period ends exactly when its closing landed; that
  acceptances keep within the configured slots and ports; that an admission ends, runs once at a time and
  extends only a healthy provider; and that memory and the pool agree through any run. For the start: what has
  been touched when it is refused. For the rig: that a lie is found by the round and by no probe, and takes out
  only the liar; when a relay panics; that cutting a run into windows loses no outcome; that its callbacks
  are the ones the route decides on; that a fleet that fails to start leaves no container behind; that its
  waits end; that the denylist scenario passes on the models, and that the served counts and the load's own
  statistics add up. For the tasks: that the file on disk is whole after a crash at any point of a save, that no hour
  is closed twice, that a round's log names what differs and nothing else. For the program: what is left to
  refuse once the file is valid; that a stop ends, whatever the interleaving, with every accepted request
  answered and nothing lost of the counts but what was billed after they were read. For the rig's scenarios: that the
  callbacks posted for an accepted offer get it its tunnel, and that none leaves a process or a container behind.

  \<^bold>\<open>Bounds and termination.\<close> There is no fuel. The loops that recurse on data are structural; the
  splitting of a batch ends by a measure (\<open>chunk_cost\<close>), the loop over providers by the providers left
  to try; the wait of an admission and the polling of the rig are partial functions, shown total when a sleep
  takes its time; a stop is bounded by the work it has left (\<open>effort\<close>). Sums of
  \<open>u64\<close> block numbers wrap as in a release build.

  \<^bold>\<open>Not modelled.\<close> Logging, except an entry's own log and what a round logs; the relaxed orderings of the
  atomics inside one call; \<open>axum\<close>, \<open>tokio\<close>, \<open>reqwest\<close>, \<open>alloy\<close> and \<open>serde\<close>, which are parameters
  or plain values here; the sockets of a listener, how a signal arrives, and the headers the CORS layer
  adds; what the provider tooling does beyond its output, and the child processes of the rig beyond the
  acts a scenario has; how the language prints a floating point number, which is a parameter; and the two
  TypeScript programs \<open>writer\<close> and \<open>settle\<close>, which are processes of their own. A port's local address is
  taken as read when it is bound.
\<close>

end
